(* ===== verification/WH_Prelude.thy ===== *)
theory WH_Prelude
  imports Main "HOL-Library.Word" "HOL-Library.Sublist"
begin

unbundle bit_operations_syntax

text \<open>
  Shared vocabulary of the development.

  A \<^verbatim>\<open>std::string\<close> or \<^verbatim>\<open>std::string_view\<close> is a \<^typ>\<open>string\<close>: a list of
  \<^typ>\<open>char\<close>, and a \<^typ>\<open>char\<close> is a byte. \<open>byte c\<close> is its value as an
  \<^verbatim>\<open>unsigned char\<close>. Sizes (\<^verbatim>\<open>std::size_t\<close>) are natural numbers; counters the
  code lets grow are words of their width. A C++ exception is a value of \<open>exn\<close>, and an
  operation that may throw returns \<open>exn + 'a\<close>.
\<close>

section \<open>Types shared by the components\<close>

type_synonym u8 = "8 word"
type_synonym u32 = "32 word"
type_synonym u64 = "64 word"

datatype exn =
    Length_error string
  | Logic_error string
  | Invalid_argument string
  | Domain_error string
  | Runtime_error string
  | System_error int string

type_synonym 'a result = "exn + 'a"

text \<open>
  What a system call on a nonblocking socket may answer: bytes or the value of \<^verbatim>\<open>errno\<close>, room in the
  send buffer or the value of \<^verbatim>\<open>errno\<close>.
\<close>

datatype errno = EINTR | EAGAIN | EMFILE | ENFILE | EINPROGRESS | Other_errno

datatype recv_answer = Recv string | Recv_error errno
datatype send_answer = Room nat | Send_error errno

named_theorems byte_simps \<open>values of characters and of their classes\<close>
named_theorems step_simps \<open>unfolding of one step of a component\<close>

abbreviation byte :: "char \<Rightarrow> nat" where
  "byte c \<equiv> of_char c"

fun rbind :: "('e + 'a) \<Rightarrow> ('a \<Rightarrow> 'e + 'b) \<Rightarrow> 'e + 'b" where
  "rbind (Inl e) f = Inl e"
| "rbind (Inr x) f = f x"

lemma rbind_Inr: "rbind m f = Inr y \<longleftrightarrow> (\<exists>x. m = Inr x \<and> f x = Inr y)"
  by (cases m) auto

section \<open>Bytes\<close>

lemma byte_le [simp]: "byte c \<le> 255"
  using nat_of_char_less_256 [of c] by linarith

lemma unat_of_char [simp]: "unat (of_char c :: u32) = byte c"
proof -
  have "unat (of_nat (byte c) :: u32) = byte c"
    using order.strict_trans [OF nat_of_char_less_256 [of c], of "2 ^ 32"] by (simp add: unat_of_nat)
  then show ?thesis by (simp add: of_nat_of_char)
qed

section \<open>Lists\<close>

lemma take_min_append: "take n (xs @ ys) = take n xs @ take (n - length xs) ys"
  by simp

lemma subseq_snocI: "subseq xs ys \<Longrightarrow> subseq (xs @ [z]) (ys @ [z])"
  by (rule list_emb_append_mono) auto

lemma subseq_appendI2: "subseq xs ys \<Longrightarrow> subseq xs (ys @ zs)"
  using list_emb_append_mono [of "(=)" xs ys "[]" zs] by simp

lemma subseq_drop_last: "subseq (xs @ [y]) zs \<Longrightarrow> subseq xs zs"
  by (rule subseq_order.trans [of xs "xs @ [y]"]) (simp_all add: subseq_appendI2)

lemma subseq_drop_last2: "subseq (xs @ [x, y]) zs \<Longrightarrow> subseq (xs @ [x]) zs"
  using subseq_drop_last [of "xs @ [x]" y zs] by simp

end
