(* ===== verification/Output_Queue.thy ===== *)
theory Output_Queue
  imports WH_Prelude
begin

text \<open>
  The latest-wins output queue of a session (\<^verbatim>\<open>server/transport/output_queue.hpp\<close>).

  The members \<^verbatim>\<open>current_\<close>, \<^verbatim>\<open>pending_\<close> and \<^verbatim>\<open>offset_\<close> lose their trailing underscore, which
  Isabelle names may not have. A queue holds at most two frames: \<open>current\<close>, of which \<open>offset\<close> bytes were sent, and
  \<open>pending\<close>. Pushing replaces an unsent frame, never a frame of which a byte was sent.
  The second half of the theory runs a queue on a sequence of operations and shows what the
  peer sees: whole frames, in the order they were pushed, and then a prefix of the frame in
  flight.
\<close>

section \<open>The queue\<close>

type_synonym Buffer = "string option" \<comment> \<open>\<^verbatim>\<open>std::shared_ptr<std::string const>\<close>\<close>

record OutputQueue =
  current :: Buffer
  pending :: Buffer
  offset :: nat

definition empty_queue :: OutputQueue where
  "empty_queue = \<lparr>current = None, pending = None, offset = 0\<rparr>"

text \<open>\<open>Push\<close> returns true when an unsent snapshot was superseded.\<close>

definition Push :: "Buffer \<Rightarrow> OutputQueue \<Rightarrow> bool \<times> OutputQueue" where
  "Push buffer q =
     (if current q = None then (False, q\<lparr>current := buffer, offset := 0\<rparr>)
      else if offset q = 0 then (True, q\<lparr>current := buffer\<rparr>)
      else (pending q \<noteq> None, q\<lparr>pending := buffer\<rparr>))"

definition Front :: "OutputQueue \<Rightarrow> string" where
  "Front q = (case current q of None \<Rightarrow> [] | Some b \<Rightarrow> drop (offset q) b)"

text \<open>
  \<open>current = std::move(pending)\<close> leaves \<open>pending\<close> null: moving from a
  \<^verbatim>\<open>shared_ptr\<close> empties it.
\<close>

definition Consume :: "nat \<Rightarrow> OutputQueue \<Rightarrow> OutputQueue result" where
  "Consume n q =
     (case current q of
        None \<Rightarrow> Inl (Logic_error ''output queue over-consumed'')
      | Some b \<Rightarrow>
          if n > length (Front q) then Inl (Logic_error ''output queue over-consumed'')
          else if offset q + n = length b
            then Inr (q\<lparr>current := pending q, pending := None, offset := 0\<rparr>)
          else Inr (q\<lparr>offset := offset q + n\<rparr>))"

definition Empty :: "OutputQueue \<Rightarrow> bool" where
  "Empty q \<longleftrightarrow> current q = None"

definition Bytes :: "OutputQueue \<Rightarrow> nat" where
  "Bytes q =
     (case current q of None \<Rightarrow> 0 | Some b \<Rightarrow> length b - offset q) +
     (case pending q of None \<Rightarrow> 0 | Some b \<Rightarrow> length b)"

section \<open>Invariant\<close>

text \<open>
  Something is pending only behind a frame that is already being sent, and the offset is
  inside the current frame.
\<close>

definition queue_inv :: "OutputQueue \<Rightarrow> bool" where
  "queue_inv q \<longleftrightarrow>
     (case current q of
        None \<Rightarrow> pending q = None \<and> offset q = 0
      | Some b \<Rightarrow> offset q < length b) \<and>
     (pending q \<noteq> None \<longrightarrow> offset q > 0) \<and> pending q \<noteq> Some []"

lemma queue_inv_empty: "queue_inv empty_queue"
  by (simp add: queue_inv_def empty_queue_def)

lemma queue_inv_Push: "queue_inv q \<Longrightarrow> b \<noteq> [] \<Longrightarrow> queue_inv (snd (Push (Some b) q))"
  by (auto simp: queue_inv_def Push_def split: option.splits)

lemma queue_inv_Consume: "queue_inv q \<Longrightarrow> Consume n q = Inr q' \<Longrightarrow> queue_inv q'"
  by (auto simp: queue_inv_def Consume_def Front_def split: option.splits if_splits)

lemma Bytes_Consume: "queue_inv q \<Longrightarrow> Consume n q = Inr q' \<Longrightarrow> Bytes q' + n = Bytes q"
  by (auto simp: queue_inv_def Consume_def Front_def Bytes_def split: option.splits if_splits)

lemma Consume_Front: "\<not> Empty q \<Longrightarrow> n \<le> length (Front q) \<Longrightarrow> \<exists>q'. Consume n q = Inr q'"
  by (auto simp: Empty_def Consume_def)

lemma Front_nonempty: "queue_inv q \<Longrightarrow> \<not> Empty q \<Longrightarrow> Front q \<noteq> []"
  by (auto simp: queue_inv_def Empty_def Front_def)

lemma length_Front_le_Bytes: "length (Front q) \<le> Bytes q"
  by (auto simp: Front_def Bytes_def split: option.splits)

lemma Bytes_Push_le: "Bytes (snd (Push (Some b) q)) \<le> Bytes q + length b"
  by (auto simp: Push_def Bytes_def split: option.splits)

lemma Bytes_empty [simp]: "Bytes empty_queue = 0"
  by (simp add: Bytes_def empty_queue_def)

lemma Bytes_eq_0: "queue_inv q \<Longrightarrow> Bytes q = 0 \<longleftrightarrow> Empty q"
  by (auto simp: queue_inv_def Bytes_def Empty_def split: option.splits)

section \<open>The interface the transport relies on\<close>

locale byte_queue =
  fixes inv :: "'q \<Rightarrow> bool"
    and empty :: 'q
    and push :: "string \<Rightarrow> 'q \<Rightarrow> 'q"
    and front :: "'q \<Rightarrow> string"
    and consume :: "nat \<Rightarrow> 'q \<Rightarrow> 'q result"
    and bytes :: "'q \<Rightarrow> nat"
  assumes inv_empty: "inv empty"
    and bytes_empty: "bytes empty = 0"
    and inv_push: "inv q \<Longrightarrow> b \<noteq> [] \<Longrightarrow> inv (push b q)"
    and bytes_push: "bytes (push b q) \<le> bytes q + length b"
    and inv_consume: "inv q \<Longrightarrow> consume n q = Inr q' \<Longrightarrow> inv q'"
    and bytes_consume: "inv q \<Longrightarrow> consume n q = Inr q' \<Longrightarrow> bytes q' + n = bytes q"
    and consume_ok: "inv q \<Longrightarrow> 0 < bytes q \<Longrightarrow> n \<le> length (front q) \<Longrightarrow> \<exists>q'. consume n q = Inr q'"
    and front_pos: "inv q \<Longrightarrow> 0 < bytes q \<Longrightarrow> front q \<noteq> []"
begin

text \<open>One send of at least one byte that the queue offered makes strict progress.\<close>

lemma send_progress:
  assumes "inv q" "0 < bytes q" "0 < n" "n \<le> length (front q)"
  obtains q' where "consume n q = Inr q'" "inv q'" "bytes q' + n = bytes q" "bytes q' < bytes q"
proof -
  obtain q' where q': "consume n q = Inr q'"
    using consume_ok assms by blast
  with assms(1,3) have "bytes q' < bytes q"
    using bytes_consume by fastforce
  then show thesis
    using that q' assms(1) inv_consume bytes_consume by blast
qed

lemma offered_at_most_bytes: "inv q \<Longrightarrow> 0 < bytes q \<Longrightarrow> length (front q) \<le> bytes q"
  using consume_ok [of q "length (front q)"] bytes_consume [of q "length (front q)"] by fastforce

end

interpretation lq: byte_queue queue_inv empty_queue "\<lambda>b q. snd (Push (Some b) q)" Front Consume Bytes
proof unfold_locales
  fix q :: OutputQueue and n :: nat
  assume "queue_inv q" "0 < Bytes q"
  then have ne: "\<not> Empty q" using Bytes_eq_0 [of q] by simp
  then show "Front q \<noteq> []" using \<open>queue_inv q\<close> by (rule Front_nonempty [rotated])
  assume "n \<le> length (Front q)"
  with ne show "\<exists>q'. Consume n q = Inr q'" by (rule Consume_Front)
qed (simp_all add: queue_inv_empty queue_inv_Push queue_inv_Consume Bytes_Consume Bytes_Push_le)

section \<open>Runs of a queue\<close>

text \<open>
  A session's life, seen from its queue: snapshots are pushed, and the socket accepts some
  bytes of what the queue offers. \<open>sent\<close> is what went onto the wire.
\<close>

datatype qop = QPush string | QSend nat

fun queue_step :: "qop \<Rightarrow> OutputQueue \<times> string \<Rightarrow> (OutputQueue \<times> string) result" where
  "queue_step (QPush b) (q, sent) = Inr (snd (Push (Some b) q), sent)"
| "queue_step (QSend n) (q, sent) =
     (case Consume n q of Inl e \<Rightarrow> Inl e | Inr q' \<Rightarrow> Inr (q', sent @ take n (Front q)))"

fun queue_run :: "qop list \<Rightarrow> OutputQueue \<times> string \<Rightarrow> (OutputQueue \<times> string) result" where
  "queue_run [] s = Inr s"
| "queue_run (x # xs) s = (case queue_step x s of Inl e \<Rightarrow> Inl e | Inr s' \<Rightarrow> queue_run xs s')"

fun pushes :: "qop list \<Rightarrow> string list" where
  "pushes [] = []"
| "pushes (QPush b # xs) = b # pushes xs"
| "pushes (QSend n # xs) = pushes xs"

text \<open>The frames of which the queue still holds bytes, in the order they will be sent.\<close>

definition in_flight :: "OutputQueue \<Rightarrow> string list" where
  "in_flight q =
     (case current q of None \<Rightarrow> [] | Some b \<Rightarrow> [b]) @
     (case pending q of None \<Rightarrow> [] | Some b \<Rightarrow> [b])"

definition sent_part :: "OutputQueue \<Rightarrow> string" where
  "sent_part q = (case current q of None \<Rightarrow> [] | Some b \<Rightarrow> take (offset q) b)"

text \<open>
  \<open>delivered fs ps q sent\<close>: the wire holds the whole frames \<open>fs\<close> and then the sent part
  of the current frame; the frames delivered or still held are a subsequence of the pushed
  ones \<open>ps\<close>, and the newest pushed frame is among them.
\<close>

definition delivered :: "string list \<Rightarrow> string list \<Rightarrow> OutputQueue \<Rightarrow> string \<Rightarrow> bool" where
  "delivered fs ps q sent \<longleftrightarrow>
     sent = concat fs @ sent_part q \<and> subseq (fs @ in_flight q) ps \<and>
     (ps \<noteq> [] \<longrightarrow> fs @ in_flight q \<noteq> [] \<and> last (fs @ in_flight q) = last ps)"

lemma delivered_Push:
  assumes "queue_inv q" "b \<noteq> []" "delivered fs ps q sent"
  shows "delivered fs (ps @ [b]) (snd (Push (Some b) q)) sent"
proof -
  let ?q = "snd (Push (Some b) q)"
  have "sent_part ?q = sent_part q"
    using assms(1) by (auto simp: sent_part_def Push_def queue_inv_def split: option.splits)
  have "\<exists>xs. in_flight ?q = xs @ [b] \<and> subseq (fs @ xs) ps"
    using assms(1,3)
    by (auto simp: in_flight_def Push_def queue_inv_def delivered_def split: option.splits
        dest: subseq_drop_last subseq_drop_last2)
  then obtain xs where xs: "in_flight ?q = xs @ [b]" "subseq (fs @ xs) ps" by blast
  from subseq_snocI [OF xs(2)] xs(1) have "subseq (fs @ in_flight ?q) (ps @ [b])" by simp
  with \<open>sent_part ?q = sent_part q\<close> xs(1) show ?thesis
    using assms(3) by (simp add: delivered_def)
qed

lemma delivered_Consume:
  assumes "queue_inv q" "delivered fs ps q sent" "Consume n q = Inr q'"
  shows "\<exists>fs'. delivered fs' ps q' (sent @ take n (Front q))"
proof -
  obtain b where b: "current q = Some b" and n: "offset q + n \<le> length b"
    using assms(1,3) by (auto simp: Consume_def queue_inv_def Front_def split: option.splits if_splits)
  have split: "sent @ take n (Front q) = concat fs @ take (offset q + n) b"
    using assms(2) b by (simp add: delivered_def sent_part_def Front_def take_add)
  show ?thesis
  proof (cases "offset q + n = length b")
    case True
    then have q': "q' = q\<lparr>current := pending q, pending := None, offset := 0\<rparr>"
      using assms(3) b by (simp add: Consume_def Front_def split: if_splits)
    have "in_flight q = b # in_flight q'" "sent_part q' = []"
      using b assms(1) by (simp_all add: q' in_flight_def sent_part_def queue_inv_def split: option.splits)
    then have "delivered (fs @ [b]) ps q' (sent @ take n (Front q))"
      using assms(2) True unfolding delivered_def split by simp
    then show ?thesis ..
  next
    case False
    then have q': "q' = q\<lparr>offset := offset q + n\<rparr>" using assms(3) b n by (simp add: Consume_def Front_def split: if_splits)
    have "in_flight q' = in_flight q" "sent_part q' = take (offset q + n) b" using b by (simp_all add: q' in_flight_def sent_part_def)
    then have "delivered fs ps q' (sent @ take n (Front q))"
      using assms(2) unfolding delivered_def split by simp
    then show ?thesis ..
  qed
qed

lemma queue_run_delivered:
  assumes "queue_run ops (q, sent) = Inr (q', sent')" "queue_inv q"
    "\<forall>b \<in> set (pushes ops). b \<noteq> []" "delivered fs ps q sent"
  shows "queue_inv q' \<and> (\<exists>fs'. delivered fs' (ps @ pushes ops) q' sent')"
  using assms
proof (induction ops arbitrary: q sent fs ps)
  case Nil
  then show ?case by auto
next
  case (Cons x ops)
  show ?case
  proof (cases x)
    case (QPush b)
    with Cons.prems have "queue_inv (snd (Push (Some b) q))"
      and "delivered fs (ps @ [b]) (snd (Push (Some b) q)) sent"
      by (auto intro: queue_inv_Push delivered_Push)
    then have "queue_inv q' \<and> (\<exists>fs'. delivered fs' ((ps @ [b]) @ pushes ops) q' sent')"
      using Cons.IH [of "snd (Push (Some b) q)" sent fs "ps @ [b]"] Cons.prems QPush by simp
    with QPush show ?thesis by simp
  next
    case (QSend n)
    from Cons.prems(1) QSend obtain q1 where q1: "Consume n q = Inr q1"
      and run: "queue_run ops (q1, sent @ take n (Front q)) = Inr (q', sent')"
      by (cases "Consume n q") simp_all
    from Cons.prems(2,4) q1 obtain fs1 where "delivered fs1 ps q1 (sent @ take n (Front q))"
      using delivered_Consume by blast
    moreover have "queue_inv q1" using q1 Cons.prems(2) queue_inv_Consume by blast
    moreover have "\<forall>b \<in> set (pushes ops). b \<noteq> []" using Cons.prems(3) QSend by simp
    ultimately have "queue_inv q' \<and> (\<exists>fs'. delivered fs' (ps @ pushes ops) q' sent')"
      by (intro Cons.IH [OF run])
    with QSend show ?thesis by simp
  qed
qed

text \<open>
  C1: whatever the interleaving of pushes and partial sends, the bytes on the wire are a
  sequence of complete frames, each one that was pushed and in the order of the pushes,
  followed by the sent part of the frame in flight (never interleaved with a newer frame), and
  the newest pushed frame is never lost: it is the last of the delivered and held frames.
\<close>

theorem frames_never_interleaved:
  assumes "queue_run ops (empty_queue, []) = Inr (q, sent)"
    and "\<forall>b \<in> set (pushes ops). b \<noteq> []"
  shows "\<exists>fs. sent = concat fs @ sent_part q \<and> subseq (fs @ in_flight q) (pushes ops) \<and>
    (pushes ops \<noteq> [] \<longrightarrow> fs @ in_flight q \<noteq> [] \<and> last (fs @ in_flight q) = last (pushes ops))"
proof -
  have "delivered [] [] empty_queue []"
    by (simp add: delivered_def sent_part_def in_flight_def empty_queue_def)
  from queue_run_delivered [OF assms(1) queue_inv_empty assms(2) this]
  show ?thesis by (simp add: delivered_def)
qed

theorem frames_never_interleaved_witness:
  "\<exists>fs. ''ABBB'' = concat fs @ sent_part \<lparr>current = Some ''BBBB'', pending = Some ''D'', offset = 3\<rparr> \<and>
    subseq (fs @ [''BBBB'', ''D'']) [''x'', ''A'', ''BBBB'', ''C'', ''D'']"
  using frames_never_interleaved [of "[QPush ''x'', QPush ''A'', QSend 1, QPush ''BBBB'', QSend 3,
      QPush ''C'', QPush ''D'']" "\<lparr>current = Some ''BBBB'', pending = Some ''D'', offset = 3\<rparr>" "''ABBB''"]
  by (simp add: Push_def Consume_def Front_def empty_queue_def in_flight_def)

end
