(* ===== verification/Framing.thy ===== *)
theory Framing
  imports WH_Prelude
begin

unbundle bit_operations_syntax

text \<open>
  The wire framing of \<^verbatim>\<open>common/protocol.hpp\<close> and \<^verbatim>\<open>common/src/protocol.cpp\<close>: a
  big-endian 32-bit length and that many payload bytes, and the incremental decoder
  \<open>FrameDecoder\<close> that the client feeds with whatever the socket returned. The last sections
  show that every way of cutting a stream of frames into pieces decodes to the same payloads.
\<close>

section \<open>Encoding a frame\<close>

definition kMaxPayload :: nat where
  "kMaxPayload = 8 * 1024 * 1024"

definition frame_header :: "u32 \<Rightarrow> string" where
  "frame_header n = map (\<lambda>i. char_of (unat (drop_bit (24 - 8 * i) n AND 0xff))) [0, 1, 2, 3]"

definition Frame :: "string \<Rightarrow> string result" where
  "Frame p =
     (if p = [] \<or> length p > kMaxPayload then Inl (Length_error ''snapshot exceeds frame limit'')
      else Inr (frame_header (of_nat (length p)) @ p))"

section \<open>The incremental decoder\<close>

record FrameDecoder =
  expected :: u32
  header_bytes :: nat
  payload :: string

definition new_decoder :: FrameDecoder where
  "new_decoder = \<lparr>expected = 0, header_bytes = 0, payload = []\<rparr>"

definition Complete :: "FrameDecoder \<Rightarrow> bool" where
  "Complete d \<longleftrightarrow> expected d \<noteq> 0 \<and> length (payload d) = unat (expected d)"

definition Reset :: "FrameDecoder \<Rightarrow> FrameDecoder" where
  "Reset d = \<lparr>expected = 0, header_bytes = 0, payload = []\<rparr>"

text \<open>
  The header loop. It returns the decoder with either the exception it threw (the members keep
  what was assigned before the throw) or the bytes it left and how many it consumed.
\<close>

fun feed_header :: "FrameDecoder \<Rightarrow> string \<Rightarrow> nat \<Rightarrow> FrameDecoder \<times> (string \<times> nat) result" where
  "feed_header d [] consumed = (d, Inr ([], consumed))"
| "feed_header d (b # bs) consumed =
     (if header_bytes d < 4 then
        let d1 = d\<lparr>expected := push_bit 8 (expected d) OR of_char b,
                   header_bytes := header_bytes d + 1\<rparr>
        in if header_bytes d1 = 4 \<and> (expected d1 = 0 \<or> unat (expected d1) > kMaxPayload)
           then (d1, Inl (Length_error ''invalid frame length''))
           else feed_header d1 bs (consumed + 1)
      else (d, Inr (b # bs, consumed)))"

definition feed_payload :: "FrameDecoder \<Rightarrow> string \<Rightarrow> nat \<Rightarrow> FrameDecoder \<times> nat" where
  "feed_payload d bs consumed =
     (let cnt = min (length bs) (unat (expected d) - length (payload d))
      in (d\<lparr>payload := payload d @ take cnt bs\<rparr>, consumed + cnt))"

text \<open>\<open>Feed\<close> consumes at most one frame and returns the number of consumed bytes.\<close>

definition Feed :: "FrameDecoder \<Rightarrow> string \<Rightarrow> FrameDecoder \<times> nat result" where
  "Feed d bytes =
     (case feed_header d bytes 0 of
        (d1, Inl e) \<Rightarrow> (d1, Inl e)
      | (d1, Inr (rest, consumed)) \<Rightarrow>
          if header_bytes d1 = 4
          then (let (d2, n) = feed_payload d1 rest consumed in (d2, Inr n))
          else (d1, Inr consumed))"

section \<open>The header is the big-endian length\<close>

lemma length_frame_header [simp]: "length (frame_header n) = 4"
  by (simp add: frame_header_def)

lemma unat_push_bit_or_byte:
  "unat e < 2 ^ 24 \<Longrightarrow> unat (push_bit 8 e OR of_char b :: u32) = unat e * 256 + byte b"
proof -
  assume e: "unat e < 2 ^ 24"
  have "push_bit 8 e AND of_char b = (0 :: u32)"
  proof (rule bit_word_eqI)
    fix n assume "n < LENGTH(32)"
    have "n < 8" if "bit (of_char b :: u32) n"
    proof (rule ccontr)
      assume "\<not> n < 8"
      then have "(256::nat) \<le> 2 ^ n" using power_increasing [of 8 n "2::nat"] by simp
      then have "byte b < 2 ^ n" by (rule order.strict_trans2 [OF nat_of_char_less_256])
      then have "\<not> bit (byte b) n" by (simp add: bit_iff_odd)
      moreover have "bit (unat (of_char b :: u32)) n"
        using that by (subst bit_unsigned_iff) simp
      ultimately show False by simp
    qed
    then show "bit (push_bit 8 e AND of_char b) n = bit (0 :: u32) n"
      by (auto simp: bit_simps)
  qed
  then have "push_bit 8 e OR of_char b = push_bit 8 e + (of_char b :: u32)"
    by (simp add: disjunctive_add_eq_or)
  moreover have "unat (push_bit 8 e) = unat e * 256"
    using e by (simp add: push_bit_eq_mult unat_word_ariths)
  moreover have "unat e * 256 + byte b < 2 ^ 32"
    using e byte_le [of b] by (simp del: byte_le)
  ultimately show ?thesis by (simp add: unat_word_ariths)
qed

lemma byte_of_header:
  "k \<le> 24 \<Longrightarrow> byte (char_of (unat (drop_bit k n AND 0xff :: u32))) = unat n div 2 ^ k mod 256"
proof -
  have "drop_bit k n AND 0xff = take_bit 8 (drop_bit k n)"
    by (simp add: take_bit_eq_mask mask_eq_exp_minus_1)
  moreover have "take_bit 32 (unat n) = unat n"
    using unsigned_less [of n, where ?'a = nat] by (simp add: take_bit_nat_eq_self)
  ultimately have "unat (drop_bit k n AND 0xff) = take_bit 8 (drop_bit k (unat n))"
    by (simp add: unsigned_take_bit_eq unsigned_drop_bit_eq)
  then show ?thesis by (simp add: take_bit_eq_mod drop_bit_eq_div)
qed

text \<open>The value the decoder accumulates from header bytes.\<close>

definition accum :: "string \<Rightarrow> u32" where
  "accum bs = fold (\<lambda>b e. push_bit 8 e OR of_char b) bs 0"

lemma accum_snoc: "accum (bs @ [b]) = push_bit 8 (accum bs) OR of_char b"
  by (simp add: accum_def)

lemma accum_header: "accum (frame_header n) = n"
proof -
  define c where "c k = (char_of (unat (drop_bit k n AND 0xff)) :: char)" for k :: nat
  have h: "frame_header n = [c 24, c 16, c 8, c 0]"
    by (simp add: frame_header_def c_def)
  have v: "byte (c k) = unat n div 2 ^ k mod 256" if "k \<le> 24" for k
    using byte_of_header [OF that, of n] by (simp add: c_def)
  have n: "unat n < 2 ^ 32" using unsigned_less [of n] by simp
  have e1: "unat (push_bit 8 0 OR of_char (c 24) :: u32) = unat n div 2 ^ 24"
    using unat_push_bit_or_byte [of 0 "c 24"] v [of 24] n by simp
  have e2: "unat (push_bit 8 (push_bit 8 0 OR of_char (c 24)) OR of_char (c 16) :: u32) = unat n div 2 ^ 16"
    using unat_push_bit_or_byte [of "push_bit 8 0 OR of_char (c 24)" "c 16"] v [of 16] e1 n
    by (simp add: div_mult_mod_eq div_mult2_eq [of _ "2 ^ 16" 256, simplified])
  have e3: "unat (push_bit 8 (push_bit 8 (push_bit 8 0 OR of_char (c 24)) OR of_char (c 16)) OR of_char (c 8) :: u32) = unat n div 2 ^ 8"
    using unat_push_bit_or_byte [of "push_bit 8 (push_bit 8 0 OR of_char (c 24)) OR of_char (c 16)" "c 8"]
      v [of 8] e2 n
    by (simp add: div_mult_mod_eq div_mult2_eq [of _ "2 ^ 8" 256, simplified])
  have e4: "unat (accum (frame_header n)) = unat n"
    using unat_push_bit_or_byte [of "push_bit 8 (push_bit 8 (push_bit 8 0 OR of_char (c 24)) OR of_char (c 16)) OR of_char (c 8)" "c 0"]
      v [of 0] e3 n
    by (simp add: h accum_def div_mult_mod_eq)
  then show ?thesis by (simp add: word_unat_eq_iff)
qed

section \<open>Feeding the bytes of a frame\<close>

definition valid_payload :: "string \<Rightarrow> bool" where
  "valid_payload p \<longleftrightarrow> p \<noteq> [] \<and> length p \<le> kMaxPayload"

definition frame_bytes :: "string \<Rightarrow> string" where
  "frame_bytes p = frame_header (of_nat (length p)) @ p"

lemma Frame_eq: "valid_payload p \<Longrightarrow> Frame p = Inr (frame_bytes p)"
  by (auto simp: Frame_def valid_payload_def frame_bytes_def)

lemma Frame_Inr: "Frame p = Inr f \<longleftrightarrow> valid_payload p \<and> f = frame_bytes p"
  by (auto simp: Frame_def valid_payload_def frame_bytes_def)

lemma length_frame_bytes [simp]: "length (frame_bytes p) = 4 + length p"
  by (simp add: frame_bytes_def)

lemma unat_length_payload: "valid_payload p \<Longrightarrow> unat (of_nat (length p) :: u32) = length p"
  by (simp add: valid_payload_def kMaxPayload_def unat_of_nat)

text \<open>The decoder after the first \<open>k\<close> bytes of the frame of \<open>p\<close>.\<close>

definition decoder_at :: "string \<Rightarrow> nat \<Rightarrow> FrameDecoder" where
  "decoder_at p k =
     \<lparr>expected = accum (take k (frame_header (of_nat (length p)))),
      header_bytes = min k 4, payload = take (k - 4) p\<rparr>"

lemma decoder_at_0: "decoder_at p 0 = new_decoder"
  by (simp add: decoder_at_def new_decoder_def accum_def)

lemma decoder_at_expected: "4 \<le> k \<Longrightarrow> expected (decoder_at p k) = of_nat (length p)"
  by (simp add: decoder_at_def accum_header)

lemma decoder_at_Complete:
  assumes "valid_payload p" "k \<le> length (frame_bytes p)"
  shows "Complete (decoder_at p k) \<longleftrightarrow> k = length (frame_bytes p)"
proof (cases "4 \<le> k")
  case True
  have "of_nat (length p) \<noteq> (0 :: u32)"
    using unat_length_payload [OF assms(1)] assms(1) by (auto simp: valid_payload_def)
  with True assms show ?thesis
    by (auto simp: Complete_def decoder_at_expected unat_length_payload) (auto simp: decoder_at_def)
next
  case False
  with assms show ?thesis
    by (auto simp: Complete_def decoder_at_def valid_payload_def unat_eq_zero)
qed

lemma feed_header_consumed:
  "feed_header d bs (c + n) =
     (case feed_header d bs c of (d', Inl e) \<Rightarrow> (d', Inl e) | (d', Inr (r, m)) \<Rightarrow> (d', Inr (r, m + n)))"
proof (induction d bs c arbitrary: n rule: feed_header.induct)
  case (1 d consumed)
  then show ?case by simp
next
  case (2 d b bs consumed)
  show ?case
    using 2 [OF _ refl, where n = n] by (auto simp: Let_def split: sum.splits prod.splits)
qed

text \<open>Adding to the consumed count of a \<open>Feed\<close>.\<close>

definition add_consumed :: "nat \<Rightarrow> FrameDecoder \<times> nat result \<Rightarrow> FrameDecoder \<times> nat result" where
  "add_consumed k r = (case r of (d, Inl e) \<Rightarrow> (d, Inl e) | (d, Inr n) \<Rightarrow> (d, Inr (n + k)))"

section \<open>A reference decoder that takes one byte at a time\<close>

definition push_byte :: "FrameDecoder \<Rightarrow> char \<Rightarrow> FrameDecoder \<times> unit result" where
  "push_byte d b =
     (if header_bytes d < 4 then
        let d1 = d\<lparr>expected := push_bit 8 (expected d) OR of_char b,
                   header_bytes := header_bytes d + 1\<rparr>
        in if header_bytes d1 = 4 \<and> (expected d1 = 0 \<or> unat (expected d1) > kMaxPayload)
           then (d1, Inl (Length_error ''invalid frame length''))
           else (d1, Inr ())
      else (d\<lparr>payload := payload d @ [b]\<rparr>, Inr ()))"

text \<open>
  The decoder between two bytes of a stream: the length, once known, is in range and the
  payload is shorter than it.
\<close>

definition decoder_inv :: "FrameDecoder \<Rightarrow> bool" where
  "decoder_inv d \<longleftrightarrow> header_bytes d \<le> 4 \<and>
     (header_bytes d < 4 \<longrightarrow> payload d = []) \<and>
     (header_bytes d = 4 \<longrightarrow> 0 < unat (expected d) \<and> unat (expected d) \<le> kMaxPayload \<and>
        length (payload d) \<le> unat (expected d))"

lemma decoder_inv_new: "decoder_inv new_decoder" "\<not> Complete new_decoder" "Reset d = new_decoder"
  by (simp_all add: decoder_inv_def new_decoder_def Complete_def Reset_def)

lemma decoder_inv_push_byte:
  "decoder_inv d \<Longrightarrow> \<not> Complete d \<Longrightarrow> push_byte d b = (d1, Inr u) \<Longrightarrow> decoder_inv d1"
  by (auto simp: decoder_inv_def push_byte_def Complete_def Let_def unat_gt_0 split: if_splits)

lemma feed_header_done: "header_bytes d = 4 \<Longrightarrow> feed_header d bs c = (d, Inr (bs, c))"
  by (cases bs) simp_all

lemma Feed_Nil: "decoder_inv d \<Longrightarrow> Feed d [] = (d, Inr 0)"
  by (simp add: Feed_def feed_payload_def)

lemma Feed_Complete: "decoder_inv d \<Longrightarrow> Complete d \<Longrightarrow> Feed d bs = (d, Inr 0)"
  by (cases "header_bytes d = 4")
    (auto simp: decoder_inv_def Complete_def Feed_def feed_payload_def feed_header_done unat_eq_zero)

lemma Feed_Cons:
  assumes "decoder_inv d" "\<not> Complete d"
  shows "Feed d (b # bs) =
    (case push_byte d b of (d1, Inl e) \<Rightarrow> (d1, Inl e) | (d1, Inr _) \<Rightarrow> add_consumed 1 (Feed d1 bs))"
proof (cases "header_bytes d = 4")
  case True
  then have "length (payload d) < unat (expected d)"
    using assms by (auto simp: decoder_inv_def Complete_def)
  with True show ?thesis
    by (simp add: Feed_def feed_header_done push_byte_def feed_payload_def add_consumed_def Let_def
        min_def take_Cons' Suc_diff_Suc) linarith
next
  case False
  with assms have "header_bytes d < 4" by (simp add: decoder_inv_def)
  then show ?thesis
    using feed_header_consumed [of _ bs 0 1]
    by (auto simp: Feed_def push_byte_def Let_def add_consumed_def feed_payload_def
        split: prod.splits sum.splits)
qed

text \<open>
  The client's loop over one received buffer: feed, deliver a completed payload and reset,
  until the buffer is used up. \<open>None\<close> is running out of fuel.
\<close>

fun feed_all :: "nat \<Rightarrow> FrameDecoder \<Rightarrow> string \<Rightarrow> (FrameDecoder \<times> string list \<times> exn option) option" where
  "feed_all 0 d bs = None"
| "feed_all (Suc fuel) d bs =
     (if bs = [] then Some (d, [], None)
      else case Feed d bs of
        (d1, Inl e) \<Rightarrow> Some (d1, [], Some e)
      | (d1, Inr n) \<Rightarrow>
          if Complete d1
          then map_option (\<lambda>(d2, ps, e). (d2, payload d1 # ps, e)) (feed_all fuel (Reset d1) (drop n bs))
          else feed_all fuel d1 (drop n bs))"

fun bytewise :: "FrameDecoder \<Rightarrow> string \<Rightarrow> FrameDecoder \<times> string list \<times> exn option" where
  "bytewise d [] = (d, [], None)"
| "bytewise d (b # bs) =
     (case push_byte d b of
        (d1, Inl e) \<Rightarrow> (d1, [], Some e)
      | (d1, Inr _) \<Rightarrow>
          if Complete d1 then (let (d2, ps, e) = bytewise (Reset d1) bs in (d2, payload d1 # ps, e))
          else bytewise d1 bs)"

text \<open>One \<open>Feed\<close> is a run of byte steps that stops at the end of a frame.\<close>

lemma Feed_bytewise:
  assumes "decoder_inv d" "\<not> Complete d" "Feed d bs = (d1, r)"
  shows "case r of
      Inl e \<Rightarrow> bytewise d bs = (d1, [], Some e)
    | Inr n \<Rightarrow> n \<le> length bs \<and> (bs \<noteq> [] \<longrightarrow> 0 < n) \<and> decoder_inv d1 \<and>
        bytewise d bs =
          (if Complete d1 then (let (d2, ps, e) = bytewise (Reset d1) (drop n bs) in (d2, payload d1 # ps, e))
           else bytewise d1 (drop n bs))"
  using assms
proof (induction bs arbitrary: d d1 r)
  case Nil
  then show ?case by (auto simp: Feed_Nil)
next
  case (Cons b bs)
  obtain d' p where p: "push_byte d b = (d', p)" by fastforce
  show ?case
  proof (cases p)
    case (Inl e)
    with Cons.prems p show ?thesis by (auto simp: Feed_Cons)
  next
    case (Inr u)
    with p Cons.prems have inv: "decoder_inv d'" by (auto intro: decoder_inv_push_byte)
    show ?thesis
    proof (cases "Complete d'")
      case True
      with Inr p Cons.prems inv show ?thesis
        by (auto simp: Feed_Cons Feed_Complete add_consumed_def)
    next
      case False
      obtain d2 r2 where F: "Feed d' bs = (d2, r2)" by fastforce
      with Cons.IH [OF inv False F] Inr p Cons.prems False show ?thesis
        by (auto simp: Feed_Cons add_consumed_def split: sum.splits)
    qed
  qed
qed

lemma feed_all_bytewise:
  assumes "decoder_inv d" "\<not> Complete d" "length bs < fuel"
  shows "feed_all fuel d bs = Some (bytewise d bs)"
  using assms
proof (induction fuel arbitrary: d bs)
  case 0
  then show ?case by simp
next
  case (Suc fuel)
  obtain d1 r where F: "Feed d bs = (d1, r)" by fastforce
  note step = Feed_bytewise [OF Suc.prems(1,2) F]
  show ?case
  proof (cases "bs = [] \<or> (\<exists>e. r = Inl e)")
    case True
    with step F show ?thesis by auto
  next
    case False
    then obtain n where r: "r = Inr n" by (cases r) auto
    with step False have n: "n \<le> length bs" "0 < n" and inv: "decoder_inv d1" by auto
    with Suc.prems(3) have "length (drop n bs) < fuel" by simp
    with Suc.IH inv decoder_inv_new step F r False show ?thesis
      by (auto simp: split: prod.splits)
  qed
qed

lemma bytewise_append:
  "bytewise d (xs @ ys) =
     (case bytewise d xs of
        (d1, ps, Some e) \<Rightarrow> (d1, ps, Some e)
      | (d1, ps, None) \<Rightarrow> (let (d2, qs, e) = bytewise d1 ys in (d2, ps @ qs, e)))"
  by (induction d xs rule: bytewise.induct) (auto split: prod.splits sum.splits option.splits)

lemma bytewise_inv:
  "decoder_inv d \<Longrightarrow> \<not> Complete d \<Longrightarrow> bytewise d bs = (d1, ps, None) \<Longrightarrow> decoder_inv d1 \<and> \<not> Complete d1"
proof (induction d bs arbitrary: ps rule: bytewise.induct)
  case (1 d)
  then show ?case by simp
next
  case (2 d b bs)
  then show ?case
    using decoder_inv_push_byte [OF 2(3,4)] decoder_inv_new
    by (auto split: prod.splits sum.splits if_splits)
qed

section \<open>Streams of frames\<close>

text \<open>
  What the two ends of the stream rely on: decoding is compositional, and the encoding of a
  payload decodes to that payload and leaves the decoder as it started.
\<close>

locale stream_codec =
  fixes valid :: "'p \<Rightarrow> bool"
    and enc :: "'p \<Rightarrow> string"
    and start :: 'd
    and run :: "'d \<Rightarrow> string \<Rightarrow> 'd \<times> 'p list \<times> exn option"
  assumes run_Nil: "run d [] = (d, [], None)"
    and run_append: "run d (xs @ ys) =
      (case run d xs of
         (d1, ps, Some e) \<Rightarrow> (d1, ps, Some e)
       | (d1, ps, None) \<Rightarrow> (let (d2, qs, e) = run d1 ys in (d2, ps @ qs, e)))"
    and run_enc: "valid p \<Longrightarrow> run start (enc p) = (start, [p], None)"
begin

lemma run_stream: "\<forall>p \<in> set ps. valid p \<Longrightarrow> run start (concat (map enc ps)) = (start, ps, None)"
  by (induction ps) (simp_all add: run_Nil run_append run_enc)

lemma run_stream_then:
  assumes "\<forall>p \<in> set ps. valid p" "run start rest = (d, [], e)"
  shows "run start (concat (map enc ps) @ rest) = (d, ps, e)"
  using assms by (simp add: run_append run_stream)

end

lemma push_byte_decoder_at:
  assumes "valid_payload p" "k < length (frame_bytes p)"
  shows "push_byte (decoder_at p k) (frame_bytes p ! k) = (decoder_at p (Suc k), Inr ())"
proof (cases "k < 4")
  case True
  let ?h = "frame_header (of_nat (length p))"
  have nth: "frame_bytes p ! k = ?h ! k" using True by (simp add: frame_bytes_def nth_append)
  have snoc: "take (Suc k) ?h = take k ?h @ [?h ! k]" using True by (simp add: take_Suc_conv_app_nth)
  have eq: "(decoder_at p k)\<lparr>expected := push_bit 8 (expected (decoder_at p k))
        OR of_char (frame_bytes p ! k), header_bytes := header_bytes (decoder_at p k) + 1\<rparr> =
      decoder_at p (Suc k)"
    using True by (simp add: decoder_at_def nth snoc accum_snoc)
  have fits: "expected (decoder_at p 4) \<noteq> 0 \<and> unat (expected (decoder_at p 4)) \<le> kMaxPayload"
    using assms(1) unat_length_payload [OF assms(1)]
    by (auto simp: decoder_at_expected valid_payload_def simp del: of_nat_eq_0_iff)
  have "\<not> (header_bytes (decoder_at p (Suc k)) = 4 \<and>
      (expected (decoder_at p (Suc k)) = 0 \<or> kMaxPayload < unat (expected (decoder_at p (Suc k)))))"
    using fits True by (cases "k = 3") (auto simp: decoder_at_def)
  moreover have "header_bytes (decoder_at p k) < 4" using True by (simp add: decoder_at_def)
  ultimately show ?thesis unfolding push_byte_def Let_def eq by simp
next
  case False
  then have "Suc k - 4 = Suc (k - 4)" by simp
  with False show ?thesis
    using assms
    by (simp add: push_byte_def decoder_at_def frame_bytes_def nth_append take_Suc_conv_app_nth
        del: diff_Suc_numeral)
qed

lemma bytewise_part:
  assumes "valid_payload p" "k + j < length (frame_bytes p)"
  shows "bytewise (decoder_at p k) (take j (drop k (frame_bytes p))) = (decoder_at p (k + j), [], None)"
  using assms(2)
proof (induction j arbitrary: k)
  case 0
  then show ?case by simp
next
  case (Suc j)
  then have "drop k (frame_bytes p) = frame_bytes p ! k # drop (Suc k) (frame_bytes p)"
    by (intro Cons_nth_drop_Suc [symmetric]) simp
  with Suc.IH [of "Suc k"] Suc.prems assms(1) show ?case
    by (simp add: push_byte_decoder_at decoder_at_Complete)
qed

lemma bytewise_frame:
  assumes "valid_payload p"
  shows "bytewise new_decoder (frame_bytes p) = (new_decoder, [p], None)"
proof -
  let ?n = "length p + 3"
  have split: "frame_bytes p = take ?n (frame_bytes p) @ [frame_bytes p ! ?n]"
    using take_Suc_conv_app_nth [of ?n "frame_bytes p"] by simp
  have "bytewise new_decoder (take ?n (frame_bytes p)) = (decoder_at p ?n, [], None)"
    using bytewise_part [OF assms, of 0 ?n] by (simp add: decoder_at_0)
  moreover have "bytewise (decoder_at p ?n) [frame_bytes p ! ?n] = (new_decoder, [p], None)"
    using push_byte_decoder_at [OF assms, of ?n] decoder_at_Complete [OF assms, of "Suc ?n"]
    by (simp add: decoder_inv_new) (simp add: decoder_at_def)
  ultimately show ?thesis by (subst split) (simp add: bytewise_append)
qed

interpretation fc: stream_codec valid_payload frame_bytes new_decoder bytewise
  by unfold_locales (simp_all add: bytewise_append bytewise_frame)

section \<open>Any chunking\<close>

text \<open>What successive \<^verbatim>\<open>recv\<close> calls deliver, buffer by buffer, with the fuel each needs.\<close>

fun feed_chunks :: "FrameDecoder \<Rightarrow> string list \<Rightarrow> (FrameDecoder \<times> string list \<times> exn option) option" where
  "feed_chunks d [] = Some (d, [], None)"
| "feed_chunks d (c # cs) =
     (case feed_all (Suc (length c)) d c of
        None \<Rightarrow> None
      | Some (d1, ps, Some e) \<Rightarrow> Some (d1, ps, Some e)
      | Some (d1, ps, None) \<Rightarrow> map_option (\<lambda>(d2, qs, e). (d2, ps @ qs, e)) (feed_chunks d1 cs))"

lemma feed_chunks_bytewise:
  "decoder_inv d \<Longrightarrow> \<not> Complete d \<Longrightarrow> feed_chunks d cs = Some (bytewise d (concat cs))"
proof (induction cs arbitrary: d)
  case Nil
  then show ?case by simp
next
  case (Cons c cs)
  obtain d1 ps e where B: "bytewise d c = (d1, ps, e)" by (cases "bytewise d c") auto
  with Cons show ?case
    using bytewise_inv [OF Cons.prems, of c d1 ps]
    by (cases e) (auto simp: feed_all_bytewise bytewise_append simp del: feed_all.simps split: prod.splits)
qed

lemma map_Frame_Inr:
  "map Frame ps = map Inr fs \<Longrightarrow> (\<forall>p \<in> set ps. valid_payload p) \<and> fs = map frame_bytes ps"
  by (induction ps arbitrary: fs) (auto simp: Frame_Inr Cons_eq_map_conv)

text \<open>
  C2: feeding a buffer in any pieces gives what the reference decoder computes from the
  concatenated bytes, one byte at a time: same payloads, same exception, same final state. The
  loop never runs out of fuel, for valid and invalid streams alike.
\<close>

theorem chunking_irrelevant: "feed_chunks new_decoder cs = Some (bytewise new_decoder (concat cs))"
  by (intro feed_chunks_bytewise decoder_inv_new)

text \<open>
  C3: framing round trip. However the stream of the frames of payloads \<open>ps\<close>, followed by a
  proper prefix of one more frame, is cut into pieces, the decoder delivers exactly \<open>ps\<close>, throws
  nothing and is left inside the unfinished frame.
\<close>

theorem frames_roundtrip:
  assumes "map Frame ps = map Inr fs" "Frame p = Inr f" "j < length f"
    and "concat cs = concat fs @ take j f"
  shows "feed_chunks new_decoder cs = Some (decoder_at p j, ps, None)"
proof -
  have "\<forall>p \<in> set ps. valid_payload p" and "fs = map frame_bytes ps"
    using map_Frame_Inr [OF assms(1)] by simp_all
  moreover have "valid_payload p" "f = frame_bytes p" using assms(2) by (simp_all add: Frame_Inr)
  ultimately have "bytewise new_decoder (concat cs) = (decoder_at p j, ps, None)"
    using fc.run_stream_then [of ps "take j f" "decoder_at p j" None] bytewise_part [of p 0 j] assms(3,4)
    by (simp add: decoder_at_0)
  then show ?thesis by (simp add: chunking_irrelevant)
qed

theorem frames_roundtrip_witness:
  "feed_chunks new_decoder [[CHR 0x00], [CHR 0x00, CHR 0x00, CHR 0x02, CHR ''h''], [CHR ''i'', CHR 0x00]] =
     Some (decoder_at ''yes'' 1, [''hi''], None)"
  by (rule frames_roundtrip [where fs = "[[CHR 0x00, CHR 0x00, CHR 0x00, CHR 0x02, CHR ''h'', CHR ''i'']]"
        and f = "[CHR 0x00, CHR 0x00, CHR 0x00, CHR 0x03, CHR ''y'', CHR ''e'', CHR ''s'']"])
    (simp_all add: Frame_def kMaxPayload_def frame_header_def char_of_def bit_Suc_0_iff)

end
