(* ===== verification/IEEE_Double.thy ===== *)
theory IEEE_Double
  imports WH_Prelude Complex_Main "HOL-Library.Log_Nat"
begin

text \<open>
  The C++ \<^verbatim>\<open>double\<close>: IEEE-754 binary64. A finite double is a sign and a rational
  magnitude; the operations compute the exact rational result and round it once, to nearest and
  ties to even, as the standard requires. The theory gives the facts the components need:
  rounding is exact on representable values and monotone, and a value close enough to a
  representable one rounds to it (which is what makes 17 decimal digits enough).
\<close>

section \<open>Values and rounding\<close>

datatype double = Finite bool rat | Infinity bool | NaN

text \<open>\<open>ilog2 q\<close> is the largest \<open>k\<close> with \<open>2 powi k \<le> q\<close>, computed from the bit lengths.\<close>

definition ilog2 :: "rat \<Rightarrow> int" where
  "ilog2 q =
     (let (a, b) = quotient_of q; k = bitlen a - bitlen b
      in if 2 powi k \<le> q then k else k - 1)"

text \<open>The exponent of the last place of a double near \<open>q\<close>: 53 bits, subnormals included.\<close>

definition ulp_exp :: "rat \<Rightarrow> int" where
  "ulp_exp q = max (ilog2 q - 52) (- 1074)"

definition round_half_even :: "rat \<Rightarrow> int" where
  "round_half_even x =
     (let f = \<lfloor>x\<rfloor>; r = x - of_int f
      in if r < 1 / 2 then f else if 1 / 2 < r then f + 1 else if even f then f else f + 1)"

definition round_mag :: "rat \<Rightarrow> rat" where
  "round_mag q =
     (if q = 0 then 0 else of_int (round_half_even (q / 2 powi ulp_exp q)) * 2 powi ulp_exp q)"

definition to_double :: "bool \<Rightarrow> rat \<Rightarrow> double" where
  "to_double neg q = (if 2 ^ 1024 \<le> round_mag q then Infinity neg else Finite neg (round_mag q))"

section \<open>Operations\<close>

fun dval :: "double \<Rightarrow> rat" where
  "dval (Finite s a) = (if s then - a else a)"
| "dval _ = 0"

fun isfinite :: "double \<Rightarrow> bool" where
  "isfinite (Finite _ _) = True"
| "isfinite _ = False"

abbreviation dzero :: double where
  "dzero \<equiv> Finite False 0"

definition of_signed :: "rat \<Rightarrow> double" where
  "of_signed v = to_double (v < 0) \<bar>v\<bar>"

fun dneg :: "double \<Rightarrow> double" where
  "dneg (Finite s a) = Finite (\<not> s) a"
| "dneg (Infinity s) = Infinity (\<not> s)"
| "dneg NaN = NaN"

fun dadd :: "double \<Rightarrow> double \<Rightarrow> double" where
  "dadd NaN _ = NaN"
| "dadd _ NaN = NaN"
| "dadd (Infinity s) (Infinity t) = (if s = t then Infinity s else NaN)"
| "dadd (Infinity s) _ = Infinity s"
| "dadd _ (Infinity t) = Infinity t"
| "dadd (Finite s a) (Finite t b) =
     (let v = dval (Finite s a) + dval (Finite t b)
      in if v = 0 then Finite (s \<and> t) 0 else of_signed v)"

definition dsub :: "double \<Rightarrow> double \<Rightarrow> double" where
  "dsub x y = dadd x (dneg y)"

fun dmul :: "double \<Rightarrow> double \<Rightarrow> double" where
  "dmul NaN _ = NaN"
| "dmul _ NaN = NaN"
| "dmul (Infinity s) (Infinity t) = Infinity (s \<noteq> t)"
| "dmul (Infinity s) (Finite t b) = (if b = 0 then NaN else Infinity (s \<noteq> t))"
| "dmul (Finite s a) (Infinity t) = (if a = 0 then NaN else Infinity (s \<noteq> t))"
| "dmul (Finite s a) (Finite t b) = to_double (s \<noteq> t) (a * b)"

fun ddiv :: "double \<Rightarrow> double \<Rightarrow> double" where
  "ddiv NaN _ = NaN"
| "ddiv _ NaN = NaN"
| "ddiv (Infinity s) (Infinity t) = NaN"
| "ddiv (Infinity s) (Finite t b) = Infinity (s \<noteq> t)"
| "ddiv (Finite s a) (Infinity t) = Finite (s \<noteq> t) 0"
| "ddiv (Finite s a) (Finite t b) =
     (if b = 0 then (if a = 0 then NaN else Infinity (s \<noteq> t)) else to_double (s \<noteq> t) (a / b))"

text \<open>Comparisons: every one with a NaN is false, and the two zeros are equal.\<close>

fun dless :: "double \<Rightarrow> double \<Rightarrow> bool" where
  "dless NaN _ = False"
| "dless _ NaN = False"
| "dless (Infinity s) (Infinity t) = (s \<and> \<not> t)"
| "dless (Infinity s) (Finite _ _) = s"
| "dless (Finite _ _) (Infinity t) = (\<not> t)"
| "dless (Finite s a) (Finite t b) = (dval (Finite s a) < dval (Finite t b))"

fun dle :: "double \<Rightarrow> double \<Rightarrow> bool" where
  "dle NaN _ = False"
| "dle _ NaN = False"
| "dle (Infinity s) (Infinity t) = (s \<or> \<not> t)"
| "dle (Infinity s) (Finite _ _) = s"
| "dle (Finite _ _) (Infinity t) = (\<not> t)"
| "dle (Finite s a) (Finite t b) = (dval (Finite s a) \<le> dval (Finite t b))"

fun deq :: "double \<Rightarrow> double \<Rightarrow> bool" where
  "deq NaN _ = False"
| "deq _ NaN = False"
| "deq (Infinity s) (Infinity t) = (s = t)"
| "deq (Infinity s) (Finite _ _) = False"
| "deq (Finite _ _) (Infinity t) = False"
| "deq (Finite s a) (Finite t b) = (dval (Finite s a) = dval (Finite t b))"

text \<open>\<^verbatim>\<open>static_cast<double>\<close> of an integer, and \<^verbatim>\<open>std::min\<close> and \<^verbatim>\<open>std::max\<close>.\<close>

definition of_nat_double :: "nat \<Rightarrow> double" where
  "of_nat_double n = to_double False (of_nat n)"

definition of_int_double :: "int \<Rightarrow> double" where
  "of_int_double i = of_signed (of_int i)"

definition dmin :: "double \<Rightarrow> double \<Rightarrow> double" where
  "dmin a b = (if dless b a then b else a)"

definition dmax :: "double \<Rightarrow> double \<Rightarrow> double" where
  "dmax a b = (if dless a b then b else a)"

section \<open>Representable magnitudes\<close>

definition representable :: "rat \<Rightarrow> bool" where
  "representable r \<longleftrightarrow> (\<exists>m e. r = of_int m * 2 powi e \<and> 0 \<le> m \<and> m < 2 ^ 53 \<and> - 1074 \<le> e) \<and> r < 2 ^ 1024"

text \<open>A double that the hardware can hold.\<close>

fun wf_double :: "double \<Rightarrow> bool" where
  "wf_double (Finite s a) = representable a"
| "wf_double _ = True"

lemma ilog2_bounds:
  assumes "0 < q"
  shows "2 powi ilog2 q \<le> q" "q < 2 powi (ilog2 q + 1)"
proof -
  obtain a b where ab: "quotient_of q = (a, b)" by fastforce
  have q: "q = of_int a / of_int b" and b: "0 < b"
    using quotient_of_div [OF ab] quotient_of_denom_pos [OF ab] by simp_all
  with assms have a: "0 < a" by (simp add: zero_less_divide_iff)
  define la lb where "la = bitlen a" and "lb = bitlen b"
  have pos: "1 \<le> la" "1 \<le> lb"
    using a b bitlen_eq_zero_iff [of a] bitlen_eq_zero_iff [of b] bitlen_nonneg [of a] bitlen_nonneg [of b]
    unfolding la_def lb_def by linarith+
  have up: "(of_int x :: rat) < 2 powi bitlen x" and low: "2 powi (bitlen x - 1) \<le> (of_int x :: rat)"
    if "0 < x" for x
  proof -
    have "1 \<le> bitlen x" using that bitlen_eq_zero_iff [of x] bitlen_nonneg [of x] by linarith
    moreover have "(of_int x :: rat) < of_int (2 ^ nat (bitlen x))"
      and "of_int (2 ^ nat (bitlen x - 1)) \<le> (of_int x :: rat)"
      using bitlen_bounds [OF that] by (simp_all only: of_int_less_iff of_int_le_iff)
    ultimately show "(of_int x :: rat) < 2 powi bitlen x" "2 powi (bitlen x - 1) \<le> (of_int x :: rat)"
      by (simp_all add: power_int_def)
  qed
  have "q < 2 powi la / 2 powi (lb - 1)"
    unfolding q la_def lb_def using up [OF a] low [OF b] a b
    by (intro frac_less) simp_all
  also have "\<dots> = 2 powi (la - lb + 1)" by (simp add: power_int_diff [symmetric] algebra_simps)
  finally have hi: "q < 2 powi (la - lb + 1)" .
  have "2 powi (la - lb - 1) = 2 powi (la - 1) / (2 powi lb :: rat)"
    by (simp add: power_int_diff [symmetric] algebra_simps)
  also have "\<dots> \<le> q"
    unfolding q la_def lb_def using up [OF b] low [OF a] a b by (intro frac_le) simp_all
  finally have lo: "2 powi (la - lb - 1) \<le> q" .
  show "2 powi ilog2 q \<le> q" "q < 2 powi (ilog2 q + 1)"
    using hi lo by (auto simp: ilog2_def ab la_def lb_def Let_def)
qed

lemma powi2_le_iff: "(2 powi m :: rat) \<le> 2 powi n \<longleftrightarrow> m \<le> n"
  by (metis linorder_not_le one_less_numeral_iff power_int_increasing power_int_strict_increasing
      semiring_norm(76) one_le_numeral)

lemma powi2_less_iff: "(2 powi m :: rat) < 2 powi n \<longleftrightarrow> m < n"
  using powi2_le_iff [of n m] by linarith

lemma ilog2_unique: "2 powi k \<le> q \<Longrightarrow> q < 2 powi (k + 1) \<Longrightarrow> ilog2 q = k"
proof -
  assume k: "2 powi k \<le> q" "q < 2 powi (k + 1)"
  have "0 < (2 powi k :: rat)" by simp
  with k have q: "0 < q" by linarith
  from k ilog2_bounds [OF q] have "(2 powi k :: rat) < 2 powi (ilog2 q + 1)" "(2 powi ilog2 q :: rat) < 2 powi (k + 1)"
    by linarith+
  then show ?thesis by (simp add: powi2_less_iff)
qed

lemma ilog2_mono: "0 < p \<Longrightarrow> p \<le> q \<Longrightarrow> ilog2 p \<le> ilog2 q"
  using ilog2_bounds [of p] ilog2_bounds [of q] powi2_less_iff [of "ilog2 p" "ilog2 q + 1"] by simp

section \<open>Rounding\<close>

lemma rhe_near: "\<bar>x - of_int n\<bar> < 1 / 2 \<Longrightarrow> round_half_even x = n"
proof -
  assume near: "\<bar>x - of_int n\<bar> < 1 / 2"
  have "\<lfloor>x\<rfloor> = (if of_int n \<le> x then n else n - 1)"
    using near by (auto simp: floor_eq_iff)
  then show ?thesis
    using near by (auto simp: round_half_even_def Let_def)
qed

lemma rhe_of_int [simp]: "round_half_even (of_int n) = n"
  by (rule rhe_near) simp

lemma rhe_error: "\<bar>of_int (round_half_even x) - x\<bar> \<le> 1 / 2"
  using of_int_floor_le [of x] floor_less_iff [of x "\<lfloor>x\<rfloor> + 1"]
  by (auto simp: round_half_even_def Let_def)

lemma rhe_mono: "x \<le> y \<Longrightarrow> round_half_even x \<le> round_half_even y"
proof (rule ccontr)
  assume xy: "x \<le> y" and "\<not> round_half_even x \<le> round_half_even y"
  then have lt: "round_half_even y + 1 \<le> round_half_even x" by simp
  then have "of_int (round_half_even y) + 1 \<le> (of_int (round_half_even x) :: rat)"
    by (metis of_int_1 of_int_add of_int_le_iff)
  moreover have "of_int (round_half_even x) - x \<le> 1 / 2" "y - of_int (round_half_even y) \<le> 1 / 2"
    using rhe_error [of x] rhe_error [of y] by linarith+
  ultimately have "x = y" using xy by linarith
  with lt show False by simp
qed

lemma powi2_pos [simp]: "0 < (2 powi k :: rat)"
  by simp

lemma round_mag_near:
  assumes "0 < q" "d = of_int n * 2 powi ulp_exp q" "\<bar>q - d\<bar> < 2 powi ulp_exp q / 2"
  shows "round_mag q = d"
proof -
  let ?u = "2 powi ulp_exp q :: rat"
  have "q / ?u - of_int n = (q - d) / ?u"
    using assms(2) by (simp add: field_simps)
  then have "\<bar>q / ?u - of_int n\<bar> = \<bar>q - d\<bar> / ?u"
    by (simp add: abs_divide)
  also have "\<dots> < 1 / 2" using assms(3) by (simp add: field_simps)
  finally have "round_half_even (q / ?u) = n" by (rule rhe_near)
  then show ?thesis using assms(1,2) by (simp add: round_mag_def)
qed

lemma multiple_of_smaller:
  assumes "r = of_int m * 2 powi e" "k \<le> e"
  shows "\<exists>n. r = of_int n * (2 powi k :: rat)"
proof
  have "(2 powi e :: rat) = 2 powi (e - k) * 2 powi k"
    by (simp add: power_int_add [symmetric])
  also have "2 powi (e - k) = (of_int (2 ^ nat (e - k)) :: rat)"
    using assms(2) by (simp add: power_int_def)
  finally show "r = of_int (m * 2 ^ nat (e - k)) * 2 powi k" using assms(1) by simp
qed

lemma representable_multiple:
  assumes "representable d" "0 < d"
  shows "\<exists>n. d = of_int n * 2 powi ulp_exp d"
proof -
  obtain m e where d: "d = of_int m * 2 powi e" and m: "m < 2 ^ 53" and e: "- 1074 \<le> e"
    using assms(1) by (auto simp: representable_def)
  have "2 powi ilog2 d \<le> d" by (rule ilog2_bounds [OF assms(2)])
  also have "d < 2 ^ 53 * 2 powi e"
  proof -
    have "(of_int m :: rat) < of_int (2 ^ 53)" using m by (simp only: of_int_less_iff)
    then show ?thesis unfolding d by (intro mult_strict_right_mono) simp_all
  qed
  also have "\<dots> = 2 powi (53 + e)" by (simp add: power_int_add)
  finally have "ilog2 d < 53 + e" by (simp add: powi2_less_iff)
  with e have "ulp_exp d \<le> e" by (simp add: ulp_exp_def)
  with d show ?thesis by (rule multiple_of_smaller)
qed

lemma round_mag_representable: "representable d \<Longrightarrow> 0 \<le> d \<Longrightarrow> round_mag d = d"
proof (cases "d = 0")
  case True
  then show ?thesis by (simp add: round_mag_def)
next
  case False
  assume "representable d" "0 \<le> d"
  with False representable_multiple obtain n where "d = of_int n * 2 powi ulp_exp d" by force
  then show ?thesis using False \<open>0 \<le> d\<close> by (intro round_mag_near) auto
qed

lemma round_mag_le_multiple:
  assumes "0 < p" "p \<le> of_int n * 2 powi ulp_exp p"
  shows "round_mag p \<le> of_int n * 2 powi ulp_exp p"
proof -
  have "p / 2 powi ulp_exp p \<le> of_int n" using assms(2) by (simp add: pos_divide_le_eq)
  from rhe_mono [OF this] have "round_half_even (p / 2 powi ulp_exp p) \<le> n" by simp
  then have "of_int (round_half_even (p / 2 powi ulp_exp p)) \<le> (of_int n :: rat)"
    by (simp only: of_int_le_iff)
  then show ?thesis using assms(1) by (simp add: round_mag_def)
qed

lemma round_mag_ge_multiple:
  assumes "0 < p" "of_int n * 2 powi ulp_exp p \<le> p"
  shows "of_int n * 2 powi ulp_exp p \<le> round_mag p"
proof -
  have "of_int n \<le> p / 2 powi ulp_exp p" using assms(2) by (simp add: pos_le_divide_eq)
  from rhe_mono [OF this] have "n \<le> round_half_even (p / 2 powi ulp_exp p)" by simp
  then have "of_int n \<le> (of_int (round_half_even (p / 2 powi ulp_exp p)) :: rat)"
    by (simp only: of_int_le_iff)
  then show ?thesis using assms(1) by (simp add: round_mag_def)
qed

lemma round_mag_nonneg: "0 \<le> q \<Longrightarrow> 0 \<le> round_mag q"
  using round_mag_ge_multiple [of q 0] by (cases "q = 0") (auto simp: round_mag_def)

lemma round_mag_mono: "0 \<le> p \<Longrightarrow> p \<le> q \<Longrightarrow> round_mag p \<le> round_mag q"
proof -
  assume p: "0 \<le> p" and pq: "p \<le> q"
  consider "p = 0" | "0 < p" "ulp_exp p = ulp_exp q" | "0 < p" "ulp_exp p \<noteq> ulp_exp q"
    using p by fastforce
  then show ?thesis
  proof cases
    case 1
    then show ?thesis using pq round_mag_nonneg [of q] by (simp add: round_mag_def)
  next
    case 2
    then have "p / 2 powi ulp_exp p \<le> q / 2 powi ulp_exp q" using pq by (simp add: divide_right_mono)
    from rhe_mono [OF this] 2 pq show ?thesis by (simp add: round_mag_def)
  next
    case 3
    with pq have il: "ilog2 p \<le> ilog2 q" by (intro ilog2_mono) auto
    with 3 have u: "ulp_exp p < ulp_exp q" "ulp_exp q = ilog2 q - 52" "ilog2 p < ilog2 q"
      by (auto simp: ulp_exp_def max_def split: if_splits)
    have q: "0 < q" using 3 pq by simp
    have one: "(2 powi ilog2 q :: rat) = of_int 1 * 2 powi ilog2 q" by simp
    obtain n where n: "(2 powi ilog2 q :: rat) = of_int n * 2 powi ulp_exp p"
      using multiple_of_smaller [OF one, of "ulp_exp p"] u by auto
    obtain n' where n': "(2 powi ilog2 q :: rat) = of_int n' * 2 powi ulp_exp q"
      using multiple_of_smaller [OF one, of "ulp_exp q"] u by auto
    have "p \<le> 2 powi (ilog2 p + 1)" using ilog2_bounds [OF 3(1)] by simp
    also have "\<dots> \<le> 2 powi ilog2 q" using u by (simp add: powi2_le_iff)
    finally have "round_mag p \<le> 2 powi ilog2 q"
      using round_mag_le_multiple [OF 3(1), of n] n by simp
    also have "\<dots> \<le> round_mag q"
      using round_mag_ge_multiple [OF q, of n'] ilog2_bounds [OF q] n' by simp
    finally show ?thesis .
  qed
qed

lemma powi2_half: "(2 powi k :: rat) / 2 = 2 powi (k - 1)"
  by (simp add: power_int_diff)

lemma powi2_scale: "(2 powi j :: rat) * 2 powi k = 2 powi (j + k)"
  by (simp add: power_int_add)

text \<open>Two different multiples of a unit are at least that unit apart.\<close>

lemma multiples_gap:
  fixes u :: rat
  assumes "0 < u" "of_int a * u < of_int b * u"
  shows "of_int a * u + u \<le> of_int b * u"
proof -
  have "a + 1 \<le> b" using assms by (simp add: mult_less_cancel_right_disj)
  then have "of_int (a + 1) \<le> (of_int b :: rat)" by (simp only: of_int_le_iff)
  then have "of_int (a + 1) * u \<le> of_int b * u" using assms(1) by (intro mult_right_mono) simp_all
  then show ?thesis by (simp add: algebra_simps)
qed

lemma ulp_exp_le_ilog2: "representable d \<Longrightarrow> 0 < d \<Longrightarrow> ulp_exp d \<le> ilog2 d"
proof -
  assume d: "representable d" "0 < d"
  then obtain n where n: "d = of_int n * 2 powi ulp_exp d" using representable_multiple by blast
  with d(2) have "0 < n" by (metis of_int_0_less_iff powi2_pos zero_less_mult_pos2)
  then have "2 powi ulp_exp d \<le> d" by (subst n) simp
  also have "d < 2 powi (ilog2 d + 1)" by (rule ilog2_bounds [OF d(2)])
  finally show ?thesis by (simp add: powi2_less_iff)
qed

text \<open>A representable value and a power of two above its last place are a unit apart.\<close>

lemma representable_gap:
  assumes "representable d" "0 < d" "ulp_exp d \<le> k"
  shows "d < 2 powi k \<Longrightarrow> d + 2 powi ulp_exp d \<le> 2 powi k"
    and "2 powi k < d \<Longrightarrow> 2 powi k + 2 powi ulp_exp d \<le> d"
proof -
  obtain n where n: "d = of_int n * 2 powi ulp_exp d" using representable_multiple assms(1,2) by blast
  have one: "(2 powi k :: rat) = of_int 1 * 2 powi k" by simp
  obtain m where m: "(2 powi k :: rat) = of_int m * 2 powi ulp_exp d"
    using multiple_of_smaller [OF one assms(3)] by blast
  show "d < 2 powi k \<Longrightarrow> d + 2 powi ulp_exp d \<le> 2 powi k"
    using multiples_gap [of "2 powi ulp_exp d" n m] n m by simp
  show "2 powi k < d \<Longrightarrow> 2 powi k + 2 powi ulp_exp d \<le> d"
    using multiples_gap [of "2 powi ulp_exp d" m n] n m by simp
qed

text \<open>
  A value within a relative distance \<open>2 powi - 54\<close> of a representable one rounds to it. The
  only case that needs care is a representable power of two, below which the spacing halves.
\<close>

lemma close_bounds:
  assumes "0 < d" "\<bar>q - d\<bar> < d * 2 powi - 54"
  shows "d / 2 < q" "\<bar>q - d\<bar> < 2 powi (ilog2 d - 53)"
proof -
  have "d * 2 powi - 54 \<le> d / 2" using assms(1) by (simp add: power_int_minus)
  then show "d / 2 < q" using assms(2) by linarith
  have "d * 2 powi - 54 < 2 powi (ilog2 d + 1) * 2 powi - 54"
    using ilog2_bounds(2) [OF assms(1)] by (intro mult_strict_right_mono) simp_all
  then show "\<bar>q - d\<bar> < 2 powi (ilog2 d - 53)"
    using assms(2) unfolding powi2_scale by simp
qed

lemma round_close_above:
  assumes "representable d" "0 < d" "\<bar>q - d\<bar> < d * 2 powi - 54" "2 powi ilog2 d \<le> q"
  shows "round_mag q = d"
proof -
  note near = close_bounds [OF assms(2,3)]
  have unit: "(2 powi (ilog2 d - 53) :: rat) \<le> 2 powi (ulp_exp d - 1)"
    by (simp add: powi2_le_iff ulp_exp_def)
  have "d + 2 powi ulp_exp d \<le> 2 powi (ilog2 d + 1)"
    using ulp_exp_le_ilog2 [OF assms(1,2)] ilog2_bounds [OF assms(2)]
    by (intro representable_gap assms(1,2)) simp_all
  moreover have "(2 powi (ulp_exp d - 1) :: rat) \<le> 2 powi ulp_exp d" by (simp add: powi2_le_iff)
  ultimately have "q < 2 powi (ilog2 d + 1)" using near(2) unit by linarith
  with assms(4) have u: "ulp_exp q = ulp_exp d"
    using ilog2_unique [of "ilog2 d" q] by (simp add: ulp_exp_def)
  obtain n where "d = of_int n * 2 powi ulp_exp q"
    using representable_multiple [OF assms(1,2)] u by auto
  moreover have "\<bar>q - d\<bar> < 2 powi ulp_exp q / 2"
    unfolding powi2_half u using near(2) unit by linarith
  moreover have "0 < q" using assms(2) near(1) by linarith
  ultimately show ?thesis by (intro round_mag_near)
qed

lemma round_close_below:
  assumes "representable d" "0 < d" "\<bar>q - d\<bar> < d * 2 powi - 54" "q < 2 powi ilog2 d"
  shows "round_mag q = d"
proof -
  note near = close_bounds [OF assms(2,3)]
  have "(2 powi (ilog2 d - 53) :: rat) \<le> 2 powi ulp_exp d"
    by (simp add: powi2_le_iff ulp_exp_def)
  then have d: "d = 2 powi ilog2 d"
    using representable_gap(2) [OF assms(1,2) ulp_exp_le_ilog2 [OF assms(1,2)]] near(2) assms(4)
      ilog2_bounds(1) [OF assms(2)] by linarith
  then have "2 powi (ilog2 d - 1) < q" using near(1) powi2_half [of "ilog2 d"] by simp
  with assms(4) have il: "ilog2 q = ilog2 d - 1" by (intro ilog2_unique) simp_all
  then have u: "ulp_exp q \<le> ulp_exp d" "ilog2 d - 54 \<le> ulp_exp q - 1" by (simp_all add: ulp_exp_def)
  have "d * 2 powi - 54 = 2 powi (ilog2 d - 54)"
    using d powi2_scale [of "ilog2 d" "- 54"] by simp
  also have "\<dots> \<le> 2 powi (ulp_exp q - 1)" using u by (simp add: powi2_le_iff)
  finally have "\<bar>q - d\<bar> < 2 powi ulp_exp q / 2" using assms(3) by (simp add: powi2_half)
  moreover obtain n where "d = of_int n * 2 powi ulp_exp q"
    using multiple_of_smaller [OF _ u(1)] representable_multiple [OF assms(1,2)] by blast
  moreover have "0 < q" using assms(2) near(1) by linarith
  ultimately show ?thesis by (intro round_mag_near)
qed

lemma round_close:
  "representable d \<Longrightarrow> 0 < d \<Longrightarrow> \<bar>q - d\<bar> < d * 2 powi - 54 \<Longrightarrow> round_mag q = d"
  using round_close_above round_close_below by (cases "2 powi ilog2 d \<le> q") auto

text \<open>What rounding produces is representable, unless it overflows.\<close>

lemma round_mag_is_representable:
  assumes "0 \<le> q" "round_mag q < 2 ^ 1024"
  shows "representable (round_mag q)"
proof (cases "q = 0")
  case True
  then show ?thesis
    unfolding representable_def
    by (auto simp: round_mag_def intro!: exI [of _ 0])
next
  case False
  with assms have q: "0 < q" by simp
  let ?u = "ulp_exp q" and ?n = "round_half_even (q / 2 powi ulp_exp q)"
  have "q < 2 powi (53 + ?u)"
    using ilog2_bounds(2) [OF q]
    by (rule order.strict_trans2) (simp add: powi2_le_iff ulp_exp_def)
  then have "q \<le> of_int (2 ^ 53) * 2 powi ?u" by (simp add: power_int_add)
  from round_mag_le_multiple [OF q this] q have "?n \<le> 2 ^ 53"
    by (simp add: round_mag_def mult_le_cancel_right)
  moreover have "0 \<le> ?n" using rhe_mono [of 0 "q / 2 powi ?u"] q rhe_of_int [of 0] by simp
  ultimately consider "?n < 2 ^ 53" "0 \<le> ?n" | "?n = 2 ^ 53" by linarith
  then have "\<exists>m e. round_mag q = of_int m * 2 powi e \<and> 0 \<le> m \<and> m < 2 ^ 53 \<and> - 1074 \<le> e"
  proof cases
    case 1
    then show ?thesis using q by (intro exI [of _ ?n] exI [of _ ?u]) (simp add: round_mag_def ulp_exp_def)
  next
    case 2
    then have "round_mag q = of_int 1 * 2 powi (53 + ?u)" using q by (simp add: round_mag_def power_int_add)
    then show ?thesis by (intro exI [of _ 1] exI [of _ "53 + ?u"]) (simp add: ulp_exp_def)
  qed
  with assms(2) show ?thesis by (simp add: representable_def)
qed

lemma wf_to_double: "0 \<le> q \<Longrightarrow> wf_double (to_double s q)"
  by (auto simp: to_double_def not_le intro: round_mag_is_representable)

end
