(* ===== verification/Charconv.thy ===== *)
theory Charconv
  imports IEEE_Double
begin

text \<open>
  What the code uses of the C++ library to convert numbers: \<^verbatim>\<open>std::to_string\<close>,
  \<^verbatim>\<open>std::from_chars\<close> for integers and doubles and the shortest round-trip
  \<^verbatim>\<open>std::to_chars\<close> for doubles. The main result is that \<open>from_chars\<close> reads back
  every finite double from what \<open>to_chars\<close> printed.
\<close>

section \<open>Decimal digits\<close>

definition is_digit :: "char \<Rightarrow> bool" where
  "is_digit c \<longleftrightarrow> 48 \<le> byte c \<and> byte c \<le> 57"

definition digit_char :: "nat \<Rightarrow> char" where
  "digit_char d = char_of (48 + d)"

fun show_nat :: "nat \<Rightarrow> string" where
  "show_nat n = (if n < 10 then [digit_char n] else show_nat (n div 10) @ [digit_char (n mod 10)])"

declare show_nat.simps [simp del]

definition show_int :: "int \<Rightarrow> string" where
  "show_int i = (if i < 0 then CHR ''-'' # show_nat (nat (- i)) else show_nat (nat i))"

definition digits_val :: "string \<Rightarrow> nat" where
  "digits_val ds = foldl (\<lambda>v c. v * 10 + (byte c - 48)) 0 ds"

lemma byte_digit_char [simp]: "d < 10 \<Longrightarrow> byte (digit_char d) = 48 + d"
  by (simp add: digit_char_def)

lemma is_digit_digit_char [simp]: "d < 10 \<Longrightarrow> is_digit (digit_char d)"
  by (simp add: is_digit_def)

lemma digits_val_Nil [simp]: "digits_val [] = 0"
  by (simp add: digits_val_def)

lemma digits_val_snoc [simp]: "digits_val (ds @ [c]) = digits_val ds * 10 + (byte c - 48)"
  by (simp add: digits_val_def)

lemma digits_val_append: "digits_val (xs @ ys) = digits_val xs * 10 ^ length ys + digits_val ys"
  by (induction ys rule: rev_induct) (simp_all add: algebra_simps flip: append_assoc)

lemma digits_val_zeros: "digits_val (replicate n (CHR ''0'') @ ds) = digits_val ds"
proof -
  have "digits_val (replicate n (CHR ''0'')) = 0"
    by (induction n) (simp_all add: replicate_append_same [symmetric])
  then show ?thesis by (simp add: digits_val_append)
qed

lemma digits_val_show_nat [simp]: "digits_val (show_nat n) = n"
  by (induction n rule: show_nat.induct) (subst show_nat.simps, simp add: digits_val_def)

lemma show_nat_digits [simp]: "list_all is_digit (show_nat n)"
  by (induction n rule: show_nat.induct) (subst show_nat.simps, simp)

lemma in_show_nat: "c \<in> set (show_nat n) \<Longrightarrow> is_digit c"
  using show_nat_digits [of n] by (simp add: list_all_iff)

lemma show_nat_nonempty [simp]: "show_nat n \<noteq> []"
  by (subst show_nat.simps) simp

lemma hd_show_nat: "0 < n \<Longrightarrow> hd (show_nat n) \<noteq> CHR ''0''"
proof (induction n rule: show_nat.induct)
  case (1 n)
  show ?case
  proof (cases "n < 10")
    case True
    then have "byte (digit_char n) \<noteq> byte (CHR ''0'')" using 1 by simp
    then have "digit_char n \<noteq> CHR ''0''" by metis
    then show ?thesis using True by (subst show_nat.simps) simp
  next
    case False
    then show ?thesis using 1 by (subst show_nat.simps) simp
  qed
qed

lemma show_nat_0 [simp]: "show_nat 0 = ''0''"
  by (subst show_nat.simps) (simp add: digit_char_def char_of_def bit_Suc_0_iff)

lemma length_show_nat: "0 < n \<Longrightarrow> 10 ^ (length (show_nat n) - 1) \<le> n \<and> n < 10 ^ length (show_nat n)"
proof (induction n rule: show_nat.induct)
  case (1 n)
  show ?case
  proof (cases "n < 10")
    case True
    then show ?thesis using 1 by (subst (1 2) show_nat.simps) simp
  next
    case False
    with 1 have IH: "10 ^ (length (show_nat (n div 10)) - 1) \<le> n div 10" "n div 10 < 10 ^ length (show_nat (n div 10))"
      by simp_all
    have len: "length (show_nat n) = Suc (length (show_nat (n div 10)))"
      using False by (subst show_nat.simps) simp
    have "10 ^ length (show_nat (n div 10)) = (10::nat) * 10 ^ (length (show_nat (n div 10)) - 1)"
      by (metis One_nat_def Suc_pred length_greater_0_conv power_Suc show_nat_nonempty)
    with IH len show ?thesis by simp linarith
  qed
qed

section \<open>\<open>from_chars\<close> for integers\<close>

datatype errc = invalid_argument | result_out_of_range

text \<open>
  The first component is the value or the error code, the second the unread rest
  (\<^verbatim>\<open>ptr\<close> to the end). \<open>cap\<close> is the number of values of the unsigned type.
\<close>

definition from_chars_unsigned :: "nat \<Rightarrow> string \<Rightarrow> (errc + nat) \<times> string" where
  "from_chars_unsigned cap s =
     (let ds = takeWhile is_digit s; rest = dropWhile is_digit s
      in if ds = [] then (Inl invalid_argument, s)
         else if digits_val ds < cap then (Inr (digits_val ds), rest)
         else (Inl result_out_of_range, rest))"

definition from_chars_signed :: "nat \<Rightarrow> string \<Rightarrow> (errc + int) \<times> string" where
  "from_chars_signed half s =
     (let neg = (s \<noteq> [] \<and> hd s = CHR ''-''); t = (if neg then tl s else s);
          ds = takeWhile is_digit t; rest = dropWhile is_digit t;
          v = (if neg then - int (digits_val ds) else int (digits_val ds))
      in if ds = [] then (Inl invalid_argument, s)
         else if - int half \<le> v \<and> v < int half then (Inr v, rest)
         else (Inl result_out_of_range, rest))"

text \<open>The idiom \<open>ec == std::errc{} && ptr == end\<close>.\<close>

definition parsed_whole :: "(errc + 'a) \<times> string \<Rightarrow> 'a option" where
  "parsed_whole r = (case r of (Inr v, []) \<Rightarrow> Some v | _ \<Rightarrow> None)"

lemma takeWhile_digits: "list_all is_digit ds \<Longrightarrow> (rest = [] \<or> \<not> is_digit (hd rest)) \<Longrightarrow>
    takeWhile is_digit (ds @ rest) = ds \<and> dropWhile is_digit (ds @ rest) = rest"
  by (cases rest) (simp_all add: list_all_iff takeWhile_append2)

lemma takeWhile_all_digits [simp]:
  "list_all is_digit ds \<Longrightarrow> takeWhile is_digit ds = ds" "list_all is_digit ds \<Longrightarrow> dropWhile is_digit ds = []"
  by (simp_all add: list_all_iff)

lemma takeWhile_show_nat [simp]:
  "takeWhile is_digit (show_nat n) = show_nat n" "dropWhile is_digit (show_nat n) = []"
  by simp_all

lemma from_chars_show_nat:
  "n < cap \<Longrightarrow> from_chars_unsigned cap (show_nat n) = (Inr n, [])"
  by (simp add: from_chars_unsigned_def)

lemma is_digit_minus [simp]: "\<not> is_digit (CHR ''-'')"
  by (simp add: is_digit_def)

lemma hd_show_nat_digit [simp]: "is_digit (hd (show_nat n))"
  using show_nat_digits [of n] by (cases "show_nat n") auto

lemma hd_show_nat_minus [simp]: "hd (show_nat n) \<noteq> CHR ''-''"
  using hd_show_nat_digit [of n] by (metis is_digit_minus)

lemma from_chars_show_int:
  "- int half \<le> i \<Longrightarrow> i < int half \<Longrightarrow> from_chars_signed half (show_int i) = (Inr i, [])"
  by (auto simp: from_chars_signed_def show_int_def Let_def dest: in_show_nat)

section \<open>\<open>from_chars\<close> for doubles\<close>

definition dec_value :: "nat \<Rightarrow> int \<Rightarrow> rat" where
  "dec_value n e = of_nat n * 10 powi e"

definition lower :: "string \<Rightarrow> string" where
  "lower s = map (\<lambda>c. if 65 \<le> byte c \<and> byte c \<le> 90 then char_of (byte c + 32) else c) s"

text \<open>The optional \<open>(n-char-sequence)\<close> after \<open>nan\<close>.\<close>

definition skip_nan_payload :: "string \<Rightarrow> string" where
  "skip_nan_payload s =
     (let word = (\<lambda>c. is_digit c \<or> 65 \<le> byte c \<and> byte c \<le> 90 \<or> 97 \<le> byte c \<and> byte c \<le> 122 \<or> c = CHR ''_'');
          rest = dropWhile word (tl s)
      in if s \<noteq> [] \<and> hd s = CHR ''('' \<and> rest \<noteq> [] \<and> hd rest = CHR '')'' then tl rest else s)"

text \<open>The exponent part: a malformed one is left unread, as \<^verbatim>\<open>strtod\<close> does.\<close>

definition scan_exponent :: "string \<Rightarrow> int \<times> string" where
  "scan_exponent s =
     (if s \<noteq> [] \<and> (hd s = CHR ''e'' \<or> hd s = CHR ''E'') then
        let t = tl s; signed = (t \<noteq> [] \<and> (hd t = CHR ''+'' \<or> hd t = CHR ''-''));
            u = (if signed then tl t else t); ds = takeWhile is_digit u;
            v = int (digits_val ds)
        in if ds = [] then (0, s)
           else (if signed \<and> hd t = CHR ''-'' then - v else v, dropWhile is_digit u)
      else (0, s))"

text \<open>Digits, an optional point and digits, at least one digit: mantissa and decimal exponent.\<close>

definition scan_mantissa :: "string \<Rightarrow> (nat \<times> int \<times> string) option" where
  "scan_mantissa s =
     (let ds = takeWhile is_digit s; t = dropWhile is_digit s;
          pt = (t \<noteq> [] \<and> hd t = CHR ''.'');
          fs = (if pt then takeWhile is_digit (tl t) else []);
          u = (if pt then dropWhile is_digit (tl t) else t)
      in if ds @ fs = [] then None else Some (digits_val (ds @ fs), - int (length fs), u))"

definition from_chars_double :: "string \<Rightarrow> (errc + double) \<times> string" where
  "from_chars_double s =
     (let neg = (s \<noteq> [] \<and> hd s = CHR ''-''); t = (if neg then tl s else s)
      in if take 8 (lower t) = ''infinity'' then (Inr (Infinity neg), drop 8 t)
         else if take 3 (lower t) = ''inf'' then (Inr (Infinity neg), drop 3 t)
         else if take 3 (lower t) = ''nan'' then (Inr NaN, skip_nan_payload (drop 3 t))
         else case scan_mantissa t of
             None \<Rightarrow> (Inl invalid_argument, s)
           | Some (n, e, u) \<Rightarrow>
               let (x, rest) = scan_exponent u; q = dec_value n (e + x); d = to_double neg q
               in if \<not> isfinite d \<or> (n \<noteq> 0 \<and> round_mag q = 0) then (Inl result_out_of_range, rest)
                  else (Inr d, rest))"

section \<open>The shortest decimal that reads back\<close>

definition ilog10 :: "rat \<Rightarrow> int" where
  "ilog10 q =
     (let (a, b) = quotient_of q; k = int (length (show_nat (nat a))) - int (length (show_nat (nat b)))
      in if 10 powi k \<le> q then k else k - 1)"

text \<open>Of the two neighbours with \<open>k\<close> digits, the closest one that rounds to \<open>d\<close>.\<close>

definition dec_candidate :: "rat \<Rightarrow> nat \<Rightarrow> (nat \<times> int) option" where
  "dec_candidate d k =
     (let e = ilog10 d - int k + 1; lo = nat \<lfloor>d / 10 powi e\<rfloor>; hi = lo + 1;
          ok = (\<lambda>n. round_mag (dec_value n e) = d)
      in if ok lo \<and> (\<not> ok hi \<or> d - dec_value lo e \<le> dec_value hi e - d) then Some (lo, e)
         else if ok hi then Some (hi, e) else None)"

definition strip_zeros :: "nat \<times> int \<Rightarrow> nat \<times> int" where
  "strip_zeros p = (if fst p = 10 then (1, snd p + 1) else p)"

text \<open>Smallest number of digits first; 17 are always enough.\<close>

fun first_some :: "('a \<Rightarrow> 'b option) \<Rightarrow> 'a list \<Rightarrow> 'b option" where
  "first_some f [] = None"
| "first_some f (x # xs) = (case f x of None \<Rightarrow> first_some f xs | Some y \<Rightarrow> Some y)"

definition shortest :: "rat \<Rightarrow> (nat \<times> int) option" where
  "shortest d = map_option strip_zeros (first_some (dec_candidate d) [1..<18])"

definition sci_format :: "nat \<Rightarrow> int \<Rightarrow> string" where
  "sci_format n e =
     (let ds = show_nat n; x = e + int (length ds) - 1; xs = show_nat (nat \<bar>x\<bar>)
      in hd ds # (if tl ds = [] then [] else CHR ''.'' # tl ds) @
         [CHR ''e'', if x < 0 then CHR ''-'' else CHR ''+''] @ replicate (2 - length xs) (CHR ''0'') @ xs)"

definition fixed_format :: "rat \<Rightarrow> nat \<Rightarrow> int \<Rightarrow> string" where
  "fixed_format d n e =
     (let ds = show_nat n; x = e + int (length ds) - 1
      in if 0 \<le> e then show_nat (nat \<lfloor>d\<rfloor>)
         else if 0 \<le> x then take (nat x + 1) ds @ CHR ''.'' # drop (nat x + 1) ds
         else ''0.'' @ replicate (nat (- x - 1)) (CHR ''0'') @ ds)"

definition to_chars_mag :: "rat \<Rightarrow> string" where
  "to_chars_mag d =
     (if d = 0 then ''0''
      else case shortest d of
          None \<Rightarrow> []
        | Some (n, e) \<Rightarrow>
            (if length (fixed_format d n e) \<le> length (sci_format n e) then fixed_format d n e
             else sci_format n e))"

text \<open>\<^verbatim>\<open>std::to_chars(buf, buf + 64, val)\<close> of a finite double.\<close>

fun to_chars_double :: "double \<Rightarrow> string" where
  "to_chars_double (Finite neg d) = (if neg then CHR ''-'' # to_chars_mag d else to_chars_mag d)"
| "to_chars_double (Infinity neg) = (if neg then ''-inf'' else ''inf'')"
| "to_chars_double NaN = ''nan''"

section \<open>17 digits are enough\<close>

lemma ilog10_bounds:
  assumes "0 < q"
  shows "10 powi ilog10 q \<le> q" "q < 10 powi (ilog10 q + 1)"
proof -
  obtain a b where ab: "quotient_of q = (a, b)" by fastforce
  have q: "q = of_int a / of_int b" and b: "0 < b"
    using quotient_of_div [OF ab] quotient_of_denom_pos [OF ab] by simp_all
  with assms have a: "0 < a" by (simp add: zero_less_divide_iff)
  define len where "len x = int (length (show_nat (nat x)))" for x
  have up: "(of_int x :: rat) < 10 powi len x" and low: "10 powi (len x - 1) \<le> (of_int x :: rat)"
    if "0 < x" for x
  proof -
    have pos: "1 \<le> length (show_nat (nat x))" by (simp add: Suc_le_eq)
    have "of_nat (nat x) < (of_nat (10 ^ length (show_nat (nat x))) :: rat)"
      and "of_nat (10 ^ (length (show_nat (nat x)) - 1)) \<le> (of_nat (nat x) :: rat)"
      using length_show_nat [of "nat x"] that by (simp_all only: of_nat_less_iff of_nat_le_iff)
    with that pos show "(of_int x :: rat) < 10 powi len x" "10 powi (len x - 1) \<le> (of_int x :: rat)"
      by (simp_all add: len_def power_int_def nat_diff_distrib)
  qed
  have "q < 10 powi len a / 10 powi (len b - 1)"
    unfolding q using up [OF a] low [OF b] a b by (intro frac_less) simp_all
  also have "\<dots> = 10 powi (len a - len b + 1)" by (simp add: power_int_diff [symmetric] algebra_simps)
  finally have hi: "q < 10 powi (len a - len b + 1)" .
  have "10 powi (len a - len b - 1) = 10 powi (len a - 1) / (10 powi len b :: rat)"
    by (simp add: power_int_diff [symmetric] algebra_simps)
  also have "\<dots> \<le> q" unfolding q using up [OF b] low [OF a] a b by (intro frac_le) simp_all
  finally have lo: "10 powi (len a - len b - 1) \<le> q" .
  show "10 powi ilog10 q \<le> q" "q < 10 powi (ilog10 q + 1)"
    using hi lo by (auto simp: ilog10_def ab len_def Let_def)
qed

lemma dec_candidate_rounds: "dec_candidate d k = Some (n, e) \<Longrightarrow> round_mag (dec_value n e) = d"
  by (auto simp: dec_candidate_def Let_def split: if_splits)

lemma dec_candidate_17: "representable d \<Longrightarrow> 0 < d \<Longrightarrow> dec_candidate d 17 \<noteq> None"
proof -
  assume d: "representable d" "0 < d"
  define e where "e = ilog10 d - 16"
  define u :: rat where "u = 10 powi e"
  have u: "0 < u" by (simp add: u_def)
  define lo where "lo = nat \<lfloor>d / u\<rfloor>"
  have lo_eq: "of_nat lo = (of_int \<lfloor>d / u\<rfloor> :: rat)" using d u by (simp add: lo_def)
  have "of_int \<lfloor>d / u\<rfloor> \<le> d / u" "d / u < of_int \<lfloor>d / u\<rfloor> + 1" by linarith+
  then have b: "of_nat lo * u \<le> d" "d < of_nat lo * u + u"
    unfolding lo_eq pos_le_divide_eq [OF u] pos_divide_less_eq [OF u] by (simp_all add: algebra_simps)
  have "u / 2 < d * 2 powi - 54"
  proof -
    have "u / 2 = 10 powi ilog10 d * (10 powi - 16 / 2)"
      unfolding u_def e_def by (simp add: power_int_add [symmetric] power_int_diff power_int_minus)
    also have "\<dots> \<le> d * (10 powi - 16 / 2)"
      using ilog10_bounds(1) [OF d(2)] by (intro mult_right_mono) simp_all
    also have "\<dots> < d * 2 powi - 54"
      using d(2) by (intro mult_strict_left_mono) (simp_all add: power_int_def power_one_over)
    finally show ?thesis .
  qed
  then have "\<bar>of_nat lo * u - d\<bar> < d * 2 powi - 54 \<or> \<bar>of_nat (lo + 1) * u - d\<bar> < d * 2 powi - 54"
    using b u by (auto simp: algebra_simps abs_if)
  then have "round_mag (of_nat lo * u) = d \<or> round_mag (of_nat (lo + 1) * u) = d"
    using round_close [OF d] by blast
  then show ?thesis
    by (auto simp: dec_candidate_def Let_def dec_value_def lo_def u_def e_def)
qed

lemma first_some_hit: "x \<in> set xs \<Longrightarrow> f x \<noteq> None \<Longrightarrow> \<exists>y. first_some f xs = Some y"
  by (induction xs) (auto split: option.splits)

lemma first_some_in: "first_some f xs = Some y \<Longrightarrow> \<exists>x \<in> set xs. f x = Some y"
  by (induction xs) (auto split: option.splits)

lemma dec_value_10: "dec_value 10 e = dec_value 1 (e + 1)"
  by (simp add: dec_value_def power_int_add)

lemma shortest_reads_back:
  assumes "representable d" "0 < d"
  obtains n e where "shortest d = Some (n, e)" "0 < n" "round_mag (dec_value n e) = d"
proof -
  obtain n e where ne: "first_some (dec_candidate d) [1..<18] = Some (n, e)"
    using first_some_hit [of 17 "[1..<18]" "dec_candidate d"] dec_candidate_17 [OF assms] by auto
  then have r: "round_mag (dec_value n e) = d"
    by (auto dest!: first_some_in dec_candidate_rounds)
  with assms(2) have "0 < n" by (cases n) (auto simp: dec_value_def round_mag_def)
  with ne r show thesis
    by (cases "n = 10") (auto simp: shortest_def strip_zeros_def dec_value_10 intro!: that)
qed

text \<open>Rounding a natural number gives a natural number.\<close>

lemma representable_of_nat: "N < 2 ^ 53 \<Longrightarrow> representable (of_nat N)"
proof -
  assume N: "N < 2 ^ 53"
  then have "of_nat N < (of_nat (2 ^ 53) :: rat)" by (simp only: of_nat_less_iff)
  also have "\<dots> \<le> 2 ^ 1024" by simp
  finally show ?thesis
    using N unfolding representable_def by (intro conjI exI [of _ "int N"] exI [of _ 0]) simp_all
qed

lemma round_mag_of_nat: "\<exists>M. round_mag (of_nat N) = of_nat M"
proof (cases "0 \<le> ulp_exp (of_nat N)")
  case True
  let ?u = "ulp_exp (of_nat N)" and ?r = "round_half_even (of_nat N / 2 powi ulp_exp (of_nat N))"
  have "2 powi ?u = (of_int (2 ^ nat ?u) :: rat)" using True by (simp add: power_int_def)
  then have "\<exists>i. round_mag (of_nat N) = of_int i"
    by (cases "N = 0") (auto simp: round_mag_def intro: exI [of _ 0] exI [of _ "?r * 2 ^ nat ?u"])
  then obtain i where i: "round_mag (of_nat N) = of_int i" by blast
  with round_mag_nonneg [of "of_nat N"] have "0 \<le> i" by simp
  with i show ?thesis by (intro exI [of _ "nat i"]) simp
next
  case False
  have "N < 2 ^ 53"
  proof (cases "N = 0")
    case False
    then have "of_nat N < (2 powi (ilog2 (of_nat N) + 1) :: rat)" by (intro ilog2_bounds) simp
    also have "\<dots> \<le> 2 powi 53"
      unfolding powi2_le_iff using \<open>\<not> 0 \<le> ulp_exp (of_nat N)\<close> by (simp add: ulp_exp_def)
    finally have "of_nat N < (of_nat (2 ^ 53) :: rat)" by (simp add: power_int_def)
    then show ?thesis by (simp only: of_nat_less_iff)
  qed simp
  then show ?thesis using round_mag_representable [OF representable_of_nat] by auto
qed

lemma dec_value_nat: "0 \<le> e \<Longrightarrow> dec_value n e = of_nat (n * 10 ^ nat e)"
  by (simp add: dec_value_def power_int_def)

section \<open>Reading back what was printed\<close>

text \<open>\<open>scans s n e\<close>: the whole of \<open>s\<close> is a decimal with mantissa \<open>n\<close> and exponent \<open>e\<close>.\<close>

definition scans :: "string \<Rightarrow> nat \<Rightarrow> int \<Rightarrow> bool" where
  "scans s n e \<longleftrightarrow> s \<noteq> [] \<and> is_digit (hd s) \<and>
     (\<exists>e1 u x. scan_mantissa s = Some (n, e1, u) \<and> scan_exponent u = (x, []) \<and> e = e1 + x)"

lemma digit_classes [simp]: "\<not> is_digit (CHR ''.'')" "\<not> is_digit (CHR ''e'')" "\<not> is_digit (CHR ''E'')"
  by (simp_all add: is_digit_def)

lemma scan_mantissa_int:
  "list_all is_digit ds \<Longrightarrow> ds \<noteq> [] \<Longrightarrow> u = [] \<or> \<not> is_digit (hd u) \<and> hd u \<noteq> CHR ''.'' \<Longrightarrow>
    scan_mantissa (ds @ u) = Some (digits_val ds, 0, u)"
  using takeWhile_digits [of ds u] by (auto simp: scan_mantissa_def Let_def)

lemma scan_mantissa_frac:
  assumes "list_all is_digit ds" "list_all is_digit fs" "ds @ fs \<noteq> []" "u = [] \<or> \<not> is_digit (hd u)"
  shows "scan_mantissa (ds @ CHR ''.'' # fs @ u) = Some (digits_val (ds @ fs), - int (length fs), u)"
  using takeWhile_digits [of ds "CHR ''.'' # fs @ u"] takeWhile_digits [of fs u] assms
  by (auto simp: scan_mantissa_def Let_def)

lemma scan_exponent_sci:
  "list_all is_digit xs \<Longrightarrow> xs \<noteq> [] \<Longrightarrow>
    scan_exponent (CHR ''e'' # (if neg then CHR ''-'' else CHR ''+'') # xs) =
      (if neg then - int (digits_val xs) else int (digits_val xs), [])"
  by (simp add: scan_exponent_def Let_def)

lemma scan_exponent_Nil [simp]: "scan_exponent [] = (0, [])"
  by (simp add: scan_exponent_def)

lemma zeros_digits [simp]: "list_all is_digit (replicate k (CHR ''0''))"
  by (simp add: list_all_iff is_digit_def)

lemma show_nat_split: "\<exists>c cs. show_nat n = c # cs \<and> is_digit c \<and> list_all is_digit cs"
  using show_nat_digits [of n] by (cases "show_nat n") auto

lemma scans_sci: "scans (sci_format n e) n e"
proof -
  obtain c cs where ds: "show_nat n = c # cs" and dig: "is_digit c" "list_all is_digit cs"
    using show_nat_split by blast
  define x where "x = e + int (length (show_nat n)) - 1"
  define xs where "xs = replicate (2 - length (show_nat (nat \<bar>x\<bar>))) (CHR ''0'') @ show_nat (nat \<bar>x\<bar>)"
  define u where "u = CHR ''e'' # (if x < 0 then CHR ''-'' else CHR ''+'') # xs"
  have "list_all is_digit xs" "xs \<noteq> []" "digits_val xs = nat \<bar>x\<bar>"
    by (simp_all add: xs_def digits_val_zeros)
  then have sx: "scan_exponent u = (x, [])"
    using scan_exponent_sci [of xs "x < 0"] by (auto simp: u_def)
  have fmt: "sci_format n e = [c] @ (if cs = [] then u else CHR ''.'' # cs @ u)"
    by (simp add: sci_format_def Let_def ds u_def xs_def x_def)
  have "scan_mantissa (sci_format n e) = Some (n, - int (length cs), u)"
    using scan_mantissa_int [of "[c]" u] scan_mantissa_frac [of "[c]" cs u] dig digits_val_show_nat [of n] ds
    by (auto simp: fmt u_def)
  then show ?thesis
    using sx dig ds by (auto simp: scans_def fmt x_def)
qed

lemma scans_show_nat: "scans (show_nat n) n 0"
  using scan_mantissa_int [of "show_nat n" "[]"] by (auto simp: scans_def)

lemma scans_fixed:
  assumes "e < 0"
  shows "scans (fixed_format d n e) n e"
proof -
  define x where "x = e + int (length (show_nat n)) - 1"
  have all: "list_all is_digit (take k (show_nat n))" "list_all is_digit (drop k (show_nat n))" for k
    using show_nat_digits [of n] by (auto simp: list_all_iff dest: in_set_takeD in_set_dropD)
  show ?thesis
  proof (cases "0 \<le> x")
    case True
    let ?ds = "take (nat x + 1) (show_nat n)" and ?fs = "drop (nat x + 1) (show_nat n)"
    have fmt: "fixed_format d n e = ?ds @ CHR ''.'' # ?fs @ []"
      using True assms by (simp add: fixed_format_def Let_def x_def)
    have "int (length ?fs) = - e" using True assms by (simp add: x_def)
    moreover have "hd (fixed_format d n e) = hd (show_nat n)"
      unfolding fmt by (cases "show_nat n") simp_all
    ultimately show ?thesis
      using scan_mantissa_frac [of ?ds ?fs "[]"] all unfolding scans_def by (simp add: fmt)
  next
    case False
    let ?fs = "replicate (nat (- x - 1)) (CHR ''0'') @ show_nat n"
    have fmt: "fixed_format d n e = ''0'' @ CHR ''.'' # ?fs @ []"
      using False assms by (simp add: fixed_format_def Let_def x_def)
    have "digits_val (''0'' @ ?fs) = n"
      using digits_val_zeros [of "Suc (nat (- x - 1))" "show_nat n"] by simp
    moreover have "int (length ?fs) = - e" using False by (simp add: x_def)
    moreover have "is_digit (CHR ''0'')" by (simp add: is_digit_def)
    ultimately show ?thesis
      using scan_mantissa_frac [of "''0''" ?fs "[]"] unfolding scans_def fmt by simp
  qed
qed

lemma to_chars_mag_scans:
  assumes "representable d" "0 \<le> d"
  shows "\<exists>n e. scans (to_chars_mag d) n e \<and> round_mag (dec_value n e) = d \<and> (n = 0 \<longleftrightarrow> d = 0)"
proof (cases "d = 0")
  case True
  then show ?thesis
    using scans_show_nat [of 0] by (intro exI [of _ 0]) (simp add: to_chars_mag_def dec_value_def round_mag_def)
next
  case False
  with assms obtain n e where ne: "shortest d = Some (n, e)" "0 < n" "round_mag (dec_value n e) = d"
    by (elim shortest_reads_back) simp
  have "to_chars_mag d = sci_format n e \<or> to_chars_mag d = fixed_format d n e"
    using False ne(1) by (simp add: to_chars_mag_def)
  moreover have "0 \<le> e \<Longrightarrow> fixed_format d n e = show_nat (nat \<lfloor>d\<rfloor>)"
    by (simp add: fixed_format_def Let_def)
  ultimately consider "to_chars_mag d = sci_format n e" | "to_chars_mag d = fixed_format d n e" "e < 0"
    | "to_chars_mag d = show_nat (nat \<lfloor>d\<rfloor>)" "0 \<le> e"
    by (cases "0 \<le> e") auto
  then show ?thesis
  proof cases
    case 1
    then show ?thesis using scans_sci [of n e] ne False by (intro exI [of _ n] exI [of _ e]) simp
  next
    case 2
    then show ?thesis using scans_fixed [OF 2(2), of d n] ne False by (intro exI [of _ n] exI [of _ e]) simp
  next
    case 3
    obtain M where M: "d = of_nat M" using round_mag_of_nat ne(3) dec_value_nat [OF 3(2)] by metis
    then have "to_chars_mag d = show_nat M" using 3 by simp
    then show ?thesis
      using scans_show_nat [of M] M assms False round_mag_representable [of "of_nat M"]
      by (intro exI [of _ M] exI [of _ 0]) (simp add: dec_value_def)
  qed
qed

lemma not_inf_nan:
  assumes "s \<noteq> []" "is_digit (hd s)"
  shows "take 8 (lower s) \<noteq> ''infinity''" "take 3 (lower s) \<noteq> ''inf''" "take 3 (lower s) \<noteq> ''nan''"
  using assms by (cases s; force simp: lower_def is_digit_def)+

text \<open>\<open>from_chars\<close> recovers exactly the double that \<open>to_chars\<close> printed, and reads all of it.\<close>

lemma from_chars_to_chars:
  assumes "representable d" "0 \<le> d"
  shows "from_chars_double (to_chars_double (Finite neg d)) = (Inr (Finite neg d), [])"
proof -
  obtain n e where s: "scans (to_chars_mag d) n e" "round_mag (dec_value n e) = d" "n = 0 \<longleftrightarrow> d = 0"
    using to_chars_mag_scans [OF assms] by blast
  obtain e1 u x where sc: "scan_mantissa (to_chars_mag d) = Some (n, e1, u)" "scan_exponent u = (x, [])" "e = e1 + x"
    and hd: "to_chars_mag d \<noteq> []" "is_digit (hd (to_chars_mag d))"
    using s(1) by (auto simp: scans_def)
  have "d < 2 ^ 1024" using assms(1) by (simp add: representable_def)
  then have "to_double sg (dec_value n e) = Finite sg d" for sg using s(2) by (simp add: to_double_def)
  moreover have "hd (to_chars_mag d) \<noteq> CHR ''-''" using hd by (metis is_digit_minus)
  ultimately show ?thesis
    using not_inf_nan [OF hd] sc s(2,3) hd by (cases neg) (simp_all add: from_chars_double_def Let_def)
qed

end
