(* ===== verification/Utf8.thy ===== *)
theory Utf8
  imports WH_Prelude
begin

unbundle bit_operations_syntax

text \<open>
  UTF-8 in \<^verbatim>\<open>common/utf8.hpp\<close> (\<open>Utf8Length\<close>: the length of a valid sequence at an offset, 0
  for an invalid one) and in \<^verbatim>\<open>common/json/parser.cpp\<close> (\<open>EncodeUtf8\<close>). The text at an
  offset is modelled by the suffix that starts there. The theory shows that the two agree with
  the definition of UTF-8: \<open>Utf8Length\<close> accepts exactly the encodings of Unicode scalar values.
\<close>

section \<open>The two routines\<close>

definition Utf8Length :: "string \<Rightarrow> nat" where
  "Utf8Length s =
     (case s of [] \<Rightarrow> 0
      | c # cs \<Rightarrow>
        let first = byte c in
        if first < 128 then 1
        else
          let len = (if 0xc2 \<le> first \<and> first \<le> 0xdf then 2
                     else if 0xe0 \<le> first \<and> first \<le> 0xef then 3
                     else if 0xf0 \<le> first \<and> first \<le> 0xf4 then 4 else 0)
          in if len = 0 \<or> len > length s then 0
             else if list_ex (\<lambda>b. byte b < 0x80 \<or> byte b > 0xbf) (take (len - 1) cs) then 0
             else
               let second = byte (hd cs)
               in if first = 0xe0 \<and> second < 0xa0 \<or> first = 0xed \<and> second \<ge> 0xa0 \<or>
                     first = 0xf0 \<and> second < 0x90 \<or> first = 0xf4 \<and> second \<ge> 0x90
                  then 0 else len)"

definition chr8 :: "u32 \<Rightarrow> char" where
  "chr8 w = char_of (unat w)"

definition EncodeUtf8 :: "u32 \<Rightarrow> string option" where
  "EncodeUtf8 cp =
     (if cp < 0x80 then Some [chr8 cp]
      else if cp < 0x800 then
        Some [chr8 (0xC0 OR drop_bit 6 cp), chr8 (0x80 OR (cp AND 0x3F))]
      else if cp < 0x10000 then
        Some [chr8 (0xE0 OR drop_bit 12 cp), chr8 (0x80 OR (drop_bit 6 cp AND 0x3F)),
              chr8 (0x80 OR (cp AND 0x3F))]
      else if cp \<le> 0x10FFFF then
        Some [chr8 (0xF0 OR drop_bit 18 cp), chr8 (0x80 OR (drop_bit 12 cp AND 0x3F)),
              chr8 (0x80 OR (drop_bit 6 cp AND 0x3F)), chr8 (0x80 OR (cp AND 0x3F))]
      else None)"

section \<open>Unicode scalar values and their encodings\<close>

definition scalar :: "nat \<Rightarrow> bool" where
  "scalar n \<longleftrightarrow> n < 0xD800 \<or> 0xE000 \<le> n \<and> n \<le> 0x10FFFF"

definition utf8_bytes :: "nat \<Rightarrow> nat list" where
  "utf8_bytes n =
     (if n < 0x80 then [n]
      else if n < 0x800 then [192 + n div 64, 128 + n mod 64]
      else if n < 0x10000 then [224 + n div 4096, 128 + n div 64 mod 64, 128 + n mod 64]
      else [240 + n div 262144, 128 + n div 4096 mod 64, 128 + n div 64 mod 64, 128 + n mod 64])"

definition utf8 :: "nat \<Rightarrow> string" where
  "utf8 n = map char_of (utf8_bytes n)"

lemma or_high_low: "x < 2 ^ k \<Longrightarrow> push_bit k a OR x = a * 2 ^ k + x" for x a :: nat
proof -
  assume x: "x < 2 ^ k"
  have "push_bit k a AND x = 0"
  proof (rule bit_eqI)
    fix n
    have "n < k" if "bit x n"
    proof (rule ccontr)
      assume "\<not> n < k"
      then have "x < 2 ^ n" using x by (meson not_less one_le_numeral order.strict_trans2 power_increasing)
      then show False using that by (simp add: bit_iff_odd)
    qed
    then show "bit (push_bit k a AND x) n = bit 0 n" by (auto simp: bit_simps)
  qed
  then have "push_bit k a OR x = push_bit k a + x" by (simp add: disjunctive_add_eq_or)
  then show ?thesis by (simp add: push_bit_eq_mult)
qed

lemmas or_lead = or_high_low [of _ 5 6, simplified] or_high_low [of _ 4 14, simplified]
  or_high_low [of _ 3 30, simplified] or_high_low [of _ 6 2, simplified]

lemma unat_drop_bit_u32: "unat (drop_bit k (w :: u32)) = unat w div 2 ^ k"
  by (simp only: unat_drop_bit_eq drop_bit_eq_div [of k "unat w"])

lemma unat_and_3F: "unat ((w :: u32) AND 0x3F) = unat w mod 64"
proof -
  have "w AND 0x3F = take_bit 6 w" by (simp add: take_bit_eq_mask mask_eq_exp_minus_1)
  then have "unat (w AND 0x3F) = take_bit 6 (unat w)" by (simp only: unsigned_take_bit_eq)
  then show ?thesis by (simp add: take_bit_eq_mod)
qed

lemma EncodeUtf8_eq: "unat cp \<le> 0x10FFFF \<Longrightarrow> EncodeUtf8 cp = Some (utf8 (unat cp))"
proof -
  assume le: "unat cp \<le> 0x10FFFF"
  consider "unat cp < 0x80" | "0x80 \<le> unat cp" "unat cp < 0x800" | "0x800 \<le> unat cp" "unat cp < 0x10000"
    | "0x10000 \<le> unat cp" by linarith
  then show ?thesis
    using le
    by cases (simp_all add: EncodeUtf8_def utf8_def utf8_bytes_def word_less_nat_alt word_le_nat_alt
        chr8_def unsigned_or_eq unat_drop_bit_u32 unat_and_3F or_lead)
qed

section \<open>\<open>Utf8Length\<close> accepts exactly the encodings of scalar values\<close>

lemma length_utf8: "length (utf8 n) = (if n < 0x80 then 1 else if n < 0x800 then 2 else if n < 0x10000 then 3 else 4)"
  by (simp add: utf8_def utf8_bytes_def)

text \<open>Base-64 digits of a code point.\<close>

lemma base64_digits:
  "n = n div 4096 * 4096 + n div 64 mod 64 * 64 + n mod 64"
  "n div 4096 = n div 262144 * 64 + n div 4096 mod 64" for n :: nat
proof -
  have "n div 4096 = n div 64 div 64" "n div 262144 = n div 4096 div 64" by (simp_all flip: div_mult2_eq)
  then show "n = n div 4096 * 4096 + n div 64 mod 64 * 64 + n mod 64"
    "n div 4096 = n div 262144 * 64 + n div 4096 mod 64"
    using div_mult_mod_eq [of n 64] div_mult_mod_eq [of "n div 64" 64] div_mult_mod_eq [of "n div 4096" 64]
    by linarith+
qed

lemma Utf8Length_2:
  "0xc2 \<le> a \<Longrightarrow> a \<le> 0xdf \<Longrightarrow> 0x80 \<le> b \<Longrightarrow> b \<le> 0xbf \<Longrightarrow>
    Utf8Length (char_of a # char_of b # rest) = 2" for a b :: nat
  by (simp add: Utf8Length_def)

lemma Utf8Length_3:
  "0xe0 \<le> a \<Longrightarrow> a \<le> 0xef \<Longrightarrow> 0x80 \<le> b \<Longrightarrow> b \<le> 0xbf \<Longrightarrow> 0x80 \<le> c \<Longrightarrow> c \<le> 0xbf \<Longrightarrow>
    (a = 0xe0 \<longrightarrow> 0xa0 \<le> b) \<Longrightarrow> (a = 0xed \<longrightarrow> b < 0xa0) \<Longrightarrow>
    Utf8Length (char_of a # char_of b # char_of c # rest) = 3" for a b c :: nat
  by (simp add: Utf8Length_def) linarith

lemma Utf8Length_4:
  "0xf0 \<le> a \<Longrightarrow> a \<le> 0xf4 \<Longrightarrow> 0x80 \<le> b \<Longrightarrow> b \<le> 0xbf \<Longrightarrow> 0x80 \<le> c \<Longrightarrow> c \<le> 0xbf \<Longrightarrow>
    0x80 \<le> d \<Longrightarrow> d \<le> 0xbf \<Longrightarrow> (a = 0xf0 \<longrightarrow> 0x90 \<le> b) \<Longrightarrow> (a = 0xf4 \<longrightarrow> b < 0x90) \<Longrightarrow>
    Utf8Length (char_of a # char_of b # char_of c # char_of d # rest) = 4" for a b c d :: nat
  by (simp add: Utf8Length_def) linarith

lemma Utf8Length_utf8:
  assumes "scalar n"
  shows "Utf8Length (utf8 n @ rest) = length (utf8 n)"
proof -
  have le: "n \<le> 0x10FFFF" and sur: "n < 0xD800 \<or> 0xE000 \<le> n" using assms by (auto simp: scalar_def)
  have low: "n div 64 mod 64 \<le> 63" "n mod 64 \<le> 63" "n div 4096 mod 64 \<le> 63" by simp_all
  consider "n < 0x80" | "0x80 \<le> n" "n < 0x800" | "0x800 \<le> n" "n < 0x10000" | "0x10000 \<le> n" by linarith
  then show ?thesis
  proof cases
    case 1
    then show ?thesis by (simp add: utf8_def utf8_bytes_def Utf8Length_def)
  next
    case 2
    then have "Utf8Length (char_of (192 + n div 64) # char_of (128 + n mod 64) # rest) = 2"
      using low by (intro Utf8Length_2) linarith+
    with 2 show ?thesis by (simp add: utf8_def utf8_bytes_def)
  next
    case 3
    then have "Utf8Length (char_of (224 + n div 4096) # char_of (128 + n div 64 mod 64) # char_of (128 + n mod 64) # rest) = 3"
      using low base64_digits(1) [of n] sur by (intro Utf8Length_3) linarith+
    with 3 show ?thesis by (simp add: utf8_def utf8_bytes_def)
  next
    case 4
    then have "Utf8Length (char_of (240 + n div 262144) # char_of (128 + n div 4096 mod 64) #
        char_of (128 + n div 64 mod 64) # char_of (128 + n mod 64) # rest) = 4"
      using low base64_digits [of n] le by (intro Utf8Length_4) linarith+
    with 4 show ?thesis by (simp add: utf8_def utf8_bytes_def)
  qed
qed

text \<open>Reassembling the code point from the payload bits of a sequence.\<close>

lemma digits_64:
  "y < 64 \<Longrightarrow> (x * 64 + y) div 64 = x" "y < 64 \<Longrightarrow> (x * 64 + y) mod 64 = y" for x y :: nat
  by simp_all

lemma utf8_2:
  assumes "2 \<le> x" "x < 32" "y < 64"
  shows "scalar (x * 64 + y) \<and> utf8_bytes (x * 64 + y) = [192 + x, 128 + y]"
  using assms digits_64 [OF assms(3)] by (simp add: scalar_def utf8_bytes_def)

lemma utf8_3:
  assumes "x < 16" "y < 64" "z < 64" "x = 0 \<longrightarrow> 32 \<le> y" "x = 13 \<longrightarrow> y < 32"
  shows "scalar ((x * 64 + y) * 64 + z) \<and> utf8_bytes ((x * 64 + y) * 64 + z) = [224 + x, 128 + y, 128 + z]"
proof -
  let ?n = "(x * 64 + y) * 64 + z"
  have d: "?n div 64 = x * 64 + y" "?n mod 64 = z" "(x * 64 + y) div 64 = x" "(x * 64 + y) mod 64 = y"
    using digits_64 assms(2,3) by blast+
  then have "?n div 4096 = x" using div_mult2_eq [of ?n 64 64] by simp
  moreover have "0x800 \<le> ?n" using assms by (cases "x = 0") simp_all
  moreover have "?n < 0x10000" using assms by simp
  moreover have "?n < 0xD800 \<or> 0xE000 \<le> ?n"
    using assms by (cases "x < 13"; cases "x = 13") simp_all
  ultimately show ?thesis using d by (auto simp: utf8_bytes_def scalar_def)
qed

lemma utf8_4_digits:
  assumes "n div 262144 = x" "n div 4096 mod 64 = y" "n div 64 mod 64 = z" "n mod 64 = w" "0x10000 \<le> n" "n \<le> 0x10FFFF"
  shows "scalar n \<and> utf8_bytes n = [240 + x, 128 + y, 128 + z, 128 + w]"
  using assms by (simp add: utf8_bytes_def scalar_def)

lemma utf8_4:
  assumes "x < 5" "y < 64" "z < 64" "w < 64" "x = 0 \<longrightarrow> 16 \<le> y" "x = 4 \<longrightarrow> y < 16"
  shows "scalar (((x * 64 + y) * 64 + z) * 64 + w) \<and>
    utf8_bytes (((x * 64 + y) * 64 + z) * 64 + w) = [240 + x, 128 + y, 128 + z, 128 + w]"
proof -
  let ?m = "(x * 64 + y) * 64 + z"
  let ?n = "?m * 64 + w"
  have d: "?n div 64 = ?m" "?n mod 64 = w" "?m div 64 = x * 64 + y" "?m mod 64 = z"
      "(x * 64 + y) div 64 = x" "(x * 64 + y) mod 64 = y"
    using digits_64 assms(2,3,4) by blast+
  have n3: "?n div 4096 = x * 64 + y" using div_mult2_eq [of ?n 64 64] unfolding d(1,3) by simp
  have n4: "?n div 262144 = x" using div_mult2_eq [of ?n 4096 64] unfolding n3 d(5) by simp
  have eq: "?n = x * 262144 + y * 4096 + z * 64 + w" by (simp add: add_mult_distrib)
  have low: "0x10000 \<le> x * 262144 + y * 4096 + z * 64 + w"
  proof (cases "x = 0")
    case True
    with assms(5) have "16 \<le> y" by blast
    then show ?thesis by linarith
  next
    case False
    then have "1 \<le> x" by linarith
    then show ?thesis by linarith
  qed
  have high: "x * 262144 + y * 4096 + z * 64 + w \<le> 0x10FFFF"
  proof (cases "x = 4")
    case True
    with assms(6) have "y < 16" by blast
    with True assms(3,4) show ?thesis by linarith
  next
    case False
    with assms(1) have "x \<le> 3" by linarith
    with assms(2-4) show ?thesis by linarith
  qed
  show ?thesis
  proof (rule utf8_4_digits)
    show "?n div 4096 mod 64 = y" unfolding n3 by (rule d(6))
    show "?n div 64 mod 64 = z" unfolding d(1) by (rule d(4))
    show "0x10000 \<le> ?n" "?n \<le> 0x10FFFF" unfolding eq by (rule low, rule high)
  qed (rule n4, rule d(2))
qed

lemma map_byte_utf8: "map byte cs = utf8_bytes n \<Longrightarrow> cs = utf8 n"
  unfolding utf8_def by (metis char_of_comp_of_char list.map_comp list.map_id)

lemma Utf8Length_pos_2:
  assumes "0 < Utf8Length (c # cs)" "0xc2 \<le> byte c" "byte c \<le> 0xdf"
  shows "\<exists>b cs'. cs = b # cs' \<and> Utf8Length (c # cs) = 2 \<and> 0x80 \<le> byte b \<and> byte b \<le> 0xbf"
  using assms by (cases cs) (auto simp: Utf8Length_def Let_def split: if_splits)

lemma Utf8Length_pos_3:
  assumes "0 < Utf8Length (c # cs)" "0xe0 \<le> byte c" "byte c \<le> 0xef"
  shows "\<exists>b d cs'. cs = b # d # cs' \<and> Utf8Length (c # cs) = 3 \<and> 0x80 \<le> byte b \<and> byte b \<le> 0xbf \<and> 0x80 \<le> byte d \<and> byte d \<le> 0xbf \<and>
    (byte c = 0xe0 \<longrightarrow> 0xa0 \<le> byte b) \<and> (byte c = 0xed \<longrightarrow> byte b < 0xa0)"
  using assms by (cases cs; cases "tl cs") (auto simp: Utf8Length_def Let_def split: if_splits)

lemma Utf8Length_pos_4:
  assumes "0 < Utf8Length (c # cs)" "0xf0 \<le> byte c" "byte c \<le> 0xf4"
  shows "\<exists>b d e cs'. cs = b # d # e # cs' \<and> Utf8Length (c # cs) = 4 \<and> 0x80 \<le> byte b \<and> byte b \<le> 0xbf \<and>
    0x80 \<le> byte d \<and> byte d \<le> 0xbf \<and> 0x80 \<le> byte e \<and> byte e \<le> 0xbf \<and>
    (byte c = 0xf0 \<longrightarrow> 0x90 \<le> byte b) \<and> (byte c = 0xf4 \<longrightarrow> byte b < 0x90)"
  using assms by (cases cs; cases "tl cs"; cases "tl (tl cs)") (auto simp: Utf8Length_def Let_def split: if_splits)

lemma Utf8Length_cases:
  assumes "Utf8Length s = k" "0 < k"
  shows "\<exists>n. scalar n \<and> map byte (take k s) = utf8_bytes n"
proof -
  obtain c cs where s: "s = c # cs" using assms by (cases s) (auto simp: Utf8Length_def)
  have pos: "0 < Utf8Length (c # cs)" using assms s by simp
  have lead: "byte c < 128 \<or> (0xc2 \<le> byte c \<and> byte c \<le> 0xdf) \<or> (0xe0 \<le> byte c \<and> byte c \<le> 0xef) \<or> (0xf0 \<le> byte c \<and> byte c \<le> 0xf4)"
    using pos by (auto simp: Utf8Length_def Let_def split: if_splits)
  consider "byte c < 128" "k = 1"
    | b cs' where "cs = b # cs'" "k = 2" "0xc2 \<le> byte c" "byte c \<le> 0xdf" "0x80 \<le> byte b" "byte b \<le> 0xbf"
    | b d cs' where "cs = b # d # cs'" "k = 3" "0xe0 \<le> byte c" "byte c \<le> 0xef" "0x80 \<le> byte b" "byte b \<le> 0xbf"
      "0x80 \<le> byte d" "byte d \<le> 0xbf" "byte c = 0xe0 \<longrightarrow> 0xa0 \<le> byte b" "byte c = 0xed \<longrightarrow> byte b < 0xa0"
    | b d e cs' where "cs = b # d # e # cs'" "k = 4" "0xf0 \<le> byte c" "byte c \<le> 0xf4" "0x80 \<le> byte b" "byte b \<le> 0xbf"
      "0x80 \<le> byte d" "byte d \<le> 0xbf" "0x80 \<le> byte e" "byte e \<le> 0xbf"
      "byte c = 0xf0 \<longrightarrow> 0x90 \<le> byte b" "byte c = 0xf4 \<longrightarrow> byte b < 0x90"
  proof -
    have k: "Utf8Length (c # cs) = k" using assms(1) s by simp
    from lead show thesis
    proof (elim disjE conjE)
      assume "byte c < 128"
      then show thesis using that(1) k by (simp add: Utf8Length_def)
    next
      assume "0xc2 \<le> byte c" "byte c \<le> 0xdf"
      with Utf8Length_pos_2 [OF pos this] show thesis unfolding k by (metis that(2))
    next
      assume "0xe0 \<le> byte c" "byte c \<le> 0xef"
      with Utf8Length_pos_3 [OF pos this] show thesis unfolding k by (elim exE conjE) (rule that(3))
    next
      assume "0xf0 \<le> byte c" "byte c \<le> 0xf4"
      with Utf8Length_pos_4 [OF pos this] show thesis unfolding k by (elim exE conjE) (rule that(4))
    qed
  qed
  then show ?thesis
  proof cases
    case 1
    then have "scalar (byte c) \<and> map byte (take k s) = utf8_bytes (byte c)"
      using s by (simp add: scalar_def utf8_bytes_def)
    then show ?thesis ..
  next
    case 2
    then show ?thesis using utf8_2 [of "byte c - 192" "byte b - 128"] s by (force simp: take_Cons_numeral)
  next
    case 3
    then show ?thesis using utf8_3 [of "byte c - 224" "byte b - 128" "byte d - 128"] s by (force simp: take_Cons_numeral)
  next
    case 4
    then show ?thesis
      using utf8_4 [of "byte c - 240" "byte b - 128" "byte d - 128" "byte e - 128"] s by (force simp: take_Cons_numeral)
  qed
qed

lemma Utf8Length_sound:
  assumes "Utf8Length s = k" "0 < k"
  shows "\<exists>n. scalar n \<and> take k s = utf8 n"
  using Utf8Length_cases [OF assms] map_byte_utf8 by blast

text \<open>
  C4: \<open>Utf8Length\<close> returns a positive length exactly where the text starts with the UTF-8
  encoding of a Unicode scalar value (no overlong forms, no surrogates, nothing above 10FFFF),
  and then the length of that encoding.
\<close>

theorem Utf8Length_exact:
  "(Utf8Length s = k \<and> 0 < k) \<longleftrightarrow> (\<exists>n rest. scalar n \<and> s = utf8 n @ rest \<and> k = length (utf8 n))"
proof
  assume "Utf8Length s = k \<and> 0 < k"
  then obtain n where n: "scalar n" "take k s = utf8 n" and k: "Utf8Length s = k"
    using Utf8Length_sound by blast
  have "s = utf8 n @ drop k s" using n(2) append_take_drop_id by metis
  moreover from this n(1) k have "k = length (utf8 n)" using Utf8Length_utf8 by metis
  ultimately show "\<exists>n rest. scalar n \<and> s = utf8 n @ rest \<and> k = length (utf8 n)" using n(1) by blast
next
  assume "\<exists>n rest. scalar n \<and> s = utf8 n @ rest \<and> k = length (utf8 n)"
  then show "Utf8Length s = k \<and> 0 < k"
    using Utf8Length_utf8 by (auto simp: length_utf8)
qed

end
