(* ===== verification/Json_Value.thy ===== *)
theory Json_Value
  imports Charconv Utf8
begin

text \<open>
  The JSON value model of \<^verbatim>\<open>common/json/utils.hpp\<close> and \<^verbatim>\<open>utils.cpp\<close> (the variant, its
  typed accessors and its serializer) and the access helpers of \<^verbatim>\<open>common/json/access.hpp\<close>.
  Moved-from values, whose container pointer is null, do not occur.
\<close>

section \<open>Values and accessors\<close>

datatype JSONValue =
    JNull
  | JBool bool
  | JInt64 u64 \<comment> \<open>\<^verbatim>\<open>std::int64_t\<close>, read with \<^const>\<open>sint\<close>\<close>
  | JUInt64 u64
  | JDouble double
  | JString string
  | JArray "JSONValue list"
  | JObject "(string \<times> JSONValue) list"

fun IsNull :: "JSONValue \<Rightarrow> bool" where
  "IsNull JNull = True" | "IsNull _ = False"

fun IsBool :: "JSONValue \<Rightarrow> bool" where
  "IsBool (JBool _) = True" | "IsBool _ = False"

fun IsInteger :: "JSONValue \<Rightarrow> bool" where
  "IsInteger (JInt64 _) = True" | "IsInteger (JUInt64 _) = True" | "IsInteger _ = False"

fun IsFloatingPoint :: "JSONValue \<Rightarrow> bool" where
  "IsFloatingPoint (JDouble _) = True" | "IsFloatingPoint _ = False"

fun IsString :: "JSONValue \<Rightarrow> bool" where
  "IsString (JString _) = True" | "IsString _ = False"

fun IsArray :: "JSONValue \<Rightarrow> bool" where
  "IsArray (JArray _) = True" | "IsArray _ = False"

fun IsObject :: "JSONValue \<Rightarrow> bool" where
  "IsObject (JObject _) = True" | "IsObject _ = False"

fun AsBool :: "JSONValue \<Rightarrow> bool option" where
  "AsBool (JBool b) = Some b" | "AsBool _ = None"

fun AsInt64 :: "JSONValue \<Rightarrow> u64 option" where
  "AsInt64 (JInt64 v) = Some v"
| "AsInt64 (JUInt64 v) = (if unat v \<le> 2 ^ 63 - 1 then Some v else None)"
| "AsInt64 _ = None"

fun AsUInt64 :: "JSONValue \<Rightarrow> u64 option" where
  "AsUInt64 (JUInt64 v) = Some v"
| "AsUInt64 (JInt64 v) = (if 0 \<le> sint v then Some v else None)"
| "AsUInt64 _ = None"

fun AsDouble :: "JSONValue \<Rightarrow> double option" where
  "AsDouble (JDouble d) = Some d"
| "AsDouble (JInt64 v) = Some (of_int_double (sint v))"
| "AsDouble (JUInt64 v) = Some (of_nat_double (unat v))"
| "AsDouble _ = None"

fun AsString :: "JSONValue \<Rightarrow> string option" where
  "AsString (JString s) = Some s" | "AsString _ = None"

fun AsArray :: "JSONValue \<Rightarrow> JSONValue list option" where
  "AsArray (JArray a) = Some a" | "AsArray _ = None"

fun AsObject :: "JSONValue \<Rightarrow> (string \<times> JSONValue) list option" where
  "AsObject (JObject obj) = Some obj" | "AsObject _ = None"

text \<open>\<^verbatim>\<open>operator[]\<close> by key (the first match) and by index, \<open>HasField\<close> and \<open>size\<close>.\<close>

definition at_key :: "JSONValue \<Rightarrow> string \<Rightarrow> JSONValue option" where
  "at_key v key =
     (case AsObject v of Some obj \<Rightarrow> map_option snd (find (\<lambda>p. fst p = key) obj) | None \<Rightarrow> None)"

definition at_index :: "JSONValue \<Rightarrow> nat \<Rightarrow> JSONValue option" where
  "at_index v i =
     (case AsArray v of Some arr \<Rightarrow> if i < length arr then Some (arr ! i) else None | None \<Rightarrow> None)"

definition HasField :: "JSONValue \<Rightarrow> string \<Rightarrow> bool" where
  "HasField v key =
     (case AsObject v of Some obj \<Rightarrow> list_ex (\<lambda>p. fst p = key) obj | None \<Rightarrow> False)"

definition json_size :: "JSONValue \<Rightarrow> nat" where
  "json_size v =
     (case AsArray v of Some arr \<Rightarrow> length arr
      | None \<Rightarrow> (case AsObject v of Some obj \<Rightarrow> length obj | None \<Rightarrow> 0))"

section \<open>Typed access helpers\<close>

definition Field :: "JSONValue \<Rightarrow> string \<Rightarrow> JSONValue option" where
  "Field v key = at_key v key"

definition UInt :: "JSONValue \<Rightarrow> string \<Rightarrow> u64 option" where
  "UInt v key = Option.bind (Field v key) AsUInt64"

definition Number :: "JSONValue \<Rightarrow> string \<Rightarrow> double option" where
  "Number v key =
     (case Option.bind (Field v key) AsDouble of
        Some n \<Rightarrow> if isfinite n then Some n else None
      | None \<Rightarrow> None)"

definition Text :: "JSONValue \<Rightarrow> string \<Rightarrow> string" where
  "Text v key = (case Option.bind (Field v key) AsString of Some s \<Rightarrow> s | None \<Rightarrow> [])"

definition Boolean :: "JSONValue \<Rightarrow> string \<Rightarrow> bool" where
  "Boolean v key =
     (case Field v key of Some f \<Rightarrow> (case AsBool f of Some b \<Rightarrow> b | None \<Rightarrow> False) | None \<Rightarrow> False)"

text \<open>\<open>Make\<close> of an optional: null when absent. \<open>Add\<close> appends a member.\<close>

definition make_opt :: "('a \<Rightarrow> JSONValue) \<Rightarrow> 'a option \<Rightarrow> JSONValue" where
  "make_opt mk v = (case v of Some x \<Rightarrow> mk x | None \<Rightarrow> JNull)"

definition Add :: "(string \<times> JSONValue) list \<Rightarrow> string \<Rightarrow> JSONValue \<Rightarrow> (string \<times> JSONValue) list" where
  "Add obj key v = obj @ [(key, v)]"

definition List_of :: "('a \<Rightarrow> JSONValue) \<Rightarrow> 'a list \<Rightarrow> JSONValue" where
  "List_of to_json xs = JArray (map to_json xs)"

section \<open>Serialization\<close>

definition hex_char :: "nat \<Rightarrow> char" where
  "hex_char d = (if d < 10 then char_of (48 + d) else char_of (87 + d))"

text \<open>\<^verbatim>\<open>snprintf("\\u%04x", c)\<close> of a byte.\<close>

definition u_escape :: "nat \<Rightarrow> string" where
  "u_escape c = [CHR 0x5C, CHR ''u'', CHR ''0'', CHR ''0'', hex_char (c div 16 mod 16), hex_char (c mod 16)]"

definition escape_ascii :: "char \<Rightarrow> string" where
  "escape_ascii c =
     (if c = CHR 0x22 then [CHR 0x5C, CHR 0x22]
      else if c = CHR 0x5C then [CHR 0x5C, CHR 0x5C]
      else if c = CHR 0x08 then [CHR 0x5C, CHR ''b'']
      else if c = CHR 0x0C then [CHR 0x5C, CHR ''f'']
      else if c = CHR 0x0A then [CHR 0x5C, CHR ''n'']
      else if c = CHR 0x0D then [CHR 0x5C, CHR ''r'']
      else if c = CHR 0x09 then [CHR 0x5C, CHR ''t'']
      else if byte c < 0x20 then u_escape (byte c)
      else [c])"

function escape_body :: "string \<Rightarrow> string" where
  "escape_body [] = []"
| "escape_body (c # cs) =
     (if 128 \<le> byte c then
        (let len = Utf8Length (c # cs)
         in if len \<noteq> 0 then take len (c # cs) @ escape_body (drop len (c # cs))
            else u_escape (byte c) @ escape_body cs)
      else escape_ascii c @ escape_body cs)"
  by pat_completeness auto
termination
  by (relation "measure length") auto

definition AppendEscapedString :: "string \<Rightarrow> string" where
  "AppendEscapedString s = [CHR 0x22] @ escape_body s @ [CHR 0x22]"

definition AppendIndent :: "int \<Rightarrow> int \<Rightarrow> string" where
  "AppendIndent indent level =
     (if 0 \<le> indent then CHR 0x0A # replicate (nat (indent * level)) (CHR '' '') else [])"

text \<open>What \<open>SerializeTo_\<close> appends to the output, or the exception it throws.\<close>

fun SerializeTo :: "int \<Rightarrow> int \<Rightarrow> JSONValue \<Rightarrow> string result"
  and serialize_items :: "int \<Rightarrow> int \<Rightarrow> JSONValue list \<Rightarrow> string result"
  and serialize_members :: "int \<Rightarrow> int \<Rightarrow> (string \<times> JSONValue) list \<Rightarrow> string result"
where
  "SerializeTo indent level JNull = Inr ''null''"
| "SerializeTo indent level (JBool b) = Inr (if b then ''true'' else ''false'')"
| "SerializeTo indent level (JInt64 v) = Inr (show_int (sint v))"
| "SerializeTo indent level (JUInt64 v) = Inr (show_nat (unat v))"
| "SerializeTo indent level (JDouble d) =
     (if isfinite d then Inr (to_chars_double d) else Inl (Domain_error ''non-finite JSON number''))"
| "SerializeTo indent level (JString s) = Inr (AppendEscapedString s)"
| "SerializeTo indent level (JArray arr) =
     (if arr = [] then Inr ''[]''
      else rbind (serialize_items indent level arr)
             (\<lambda>body. Inr (''['' @ body @ AppendIndent indent level @ '']'')))"
| "SerializeTo indent level (JObject obj) =
     (if obj = [] then Inr ''{}''
      else rbind (serialize_members indent level obj)
             (\<lambda>body. Inr (''{'' @ body @ AppendIndent indent level @ ''}'')))"
| "serialize_items indent level [] = Inr []"
| "serialize_items indent level (v # vs) =
     rbind (SerializeTo indent (level + 1) v) (\<lambda>s.
     rbind (serialize_items indent level vs) (\<lambda>r.
       Inr (AppendIndent indent (level + 1) @ s @ (if vs = [] then [] else '','') @ r)))"
| "serialize_members indent level [] = Inr []"
| "serialize_members indent level ((k, v) # ms) =
     rbind (SerializeTo indent (level + 1) v) (\<lambda>s.
     rbind (serialize_members indent level ms) (\<lambda>r.
       Inr (AppendIndent indent (level + 1) @ AppendEscapedString k @
            (if 0 \<le> indent then '': '' else '':'') @ s @ (if ms = [] then [] else '','') @ r)))"

definition ToString :: "JSONValue \<Rightarrow> int \<Rightarrow> string result" where
  "ToString v indent = SerializeTo indent 0 v"

end
