(* ===== verification/Json_Parser.thy ===== *)
theory Json_Parser
  imports Json_Value
begin

unbundle bit_operations_syntax

text \<open>
  The bounded JSON parser of \<^verbatim>\<open>common/json/parser.cpp\<close>. \<open>ParserState\<close> keeps the nesting
  depth and the node count; the cursor \<open>pos\<close> into the borrowed input is modelled by the unread
  suffix \<open>rest\<close>, so that \<open>input.substr(pos, n)\<close> is \<open>take n rest\<close> and advancing is \<open>drop\<close>.
  \<open>std::nullopt\<close> is \<open>None\<close>. Running out of memory is not modelled.
\<close>

section \<open>Hexadecimal escapes\<close>

definition HexDigit :: "char \<Rightarrow> u32 option" where
  "HexDigit c =
     (if 48 \<le> byte c \<and> byte c \<le> 57 then Some (of_nat (byte c - 48))
      else if 97 \<le> byte c \<and> byte c \<le> 102 then Some (of_nat (byte c - 97 + 10))
      else if 65 \<le> byte c \<and> byte c \<le> 70 then Some (of_nat (byte c - 65 + 10))
      else None)"

fun hex_loop :: "u32 \<Rightarrow> string \<Rightarrow> u32 option" where
  "hex_loop res [] = Some res"
| "hex_loop res (c # cs) =
     (case HexDigit c of None \<Rightarrow> None | Some d \<Rightarrow> hex_loop (push_bit 4 res OR d) cs)"

definition ParseHex4 :: "string \<Rightarrow> u32 option" where
  "ParseHex4 s = (if length s < 4 then None else hex_loop 0 (take 4 s))"

section \<open>Strings\<close>

text \<open>
  The first loop of \<open>ParseString\<close>, from behind the opening quote: the raw text up to the closing
  quote, whether it has escapes, and what follows the closing quote.
\<close>

function scan_string :: "string \<Rightarrow> (string \<times> bool \<times> string) option" where
  "scan_string [] = None"
| "scan_string (c # cs) =
     (if c = CHR 0x22 then Some ([], False, cs)
      else if c = CHR 0x5C then
        (case cs of
           [] \<Rightarrow> None
         | esc # cs' \<Rightarrow>
             if esc = CHR ''u'' then
               (if length cs' < 4 \<or> \<not> list_all (\<lambda>h. HexDigit h \<noteq> None) (take 4 cs') then None
                else map_option (\<lambda>(raw, _, r). (c # esc # take 4 cs' @ raw, True, r)) (scan_string (drop 4 cs')))
             else map_option (\<lambda>(raw, _, r). (c # esc # raw, True, r)) (scan_string cs'))
      else if byte c < 0x20 then None
      else if 128 \<le> byte c then
        (let len = Utf8Length (c # cs)
         in if len = 0 then None
            else map_option (\<lambda>(raw, d, r). (take len (c # cs) @ raw, d, r)) (scan_string (drop len (c # cs))))
      else map_option (\<lambda>(raw, d, r). (c # raw, d, r)) (scan_string cs))"
  by pat_completeness auto
termination
  by (relation "measure length") auto

definition simple_escape :: "char \<Rightarrow> char option" where
  "simple_escape esc =
     (if esc = CHR 0x22 then Some (CHR 0x22)
      else if esc = CHR 0x5C then Some (CHR 0x5C)
      else if esc = CHR ''/'' then Some (CHR ''/'')
      else if esc = CHR ''b'' then Some (CHR 0x08)
      else if esc = CHR ''f'' then Some (CHR 0x0C)
      else if esc = CHR ''n'' then Some (CHR 0x0A)
      else if esc = CHR ''r'' then Some (CHR 0x0D)
      else if esc = CHR ''t'' then Some (CHR 0x09)
      else None)"

text \<open>
  The body of the \<open>u\<close> case: the code point of \<open>XXXX\<close> or of \<open>XXXX\uXXXX\<close> (a surrogate pair)
  and the number of characters used.
\<close>

definition unicode_escape :: "string \<Rightarrow> (u32 \<times> nat) option" where
  "unicode_escape s =
     (case ParseHex4 s of
        None \<Rightarrow> None
      | Some cp \<Rightarrow>
          if 0xD800 \<le> cp \<and> cp \<le> 0xDBFF then
            (let t = drop 4 s
             in if 6 \<le> length t \<and> t ! 0 = CHR 0x5C \<and> t ! 1 = CHR ''u'' then
                  (case ParseHex4 (drop 2 t) of
                     None \<Rightarrow> None
                   | Some low \<Rightarrow>
                       if low < 0xDC00 \<or> low > 0xDFFF then None
                       else Some (0x10000 + push_bit 10 (cp - 0xD800) + (low - 0xDC00), 10))
                else None)
          else if 0xDC00 \<le> cp \<and> cp \<le> 0xDFFF then None
          else Some (cp, 4))"

text \<open>
  The second loop of \<open>ParseString\<close>. A lone backslash at the end cannot reach it: the first loop
  takes a backslash only together with the character behind it.
\<close>

function decode_string :: "string \<Rightarrow> string option" where
  "decode_string [] = Some []"
| "decode_string (c # cs) =
     (if c \<noteq> CHR 0x5C then map_option ((#) c) (decode_string cs)
      else case cs of
          [] \<Rightarrow> None
        | esc # cs' \<Rightarrow>
            if esc = CHR ''u'' then
              (case unicode_escape cs' of
                 None \<Rightarrow> None
               | Some (cp, used) \<Rightarrow>
                   (case EncodeUtf8 cp of
                      None \<Rightarrow> None
                    | Some bs \<Rightarrow> map_option ((@) bs) (decode_string (drop used cs'))))
            else (case simple_escape esc of
                    None \<Rightarrow> None
                  | Some d \<Rightarrow> map_option ((#) d) (decode_string cs')))"
  by pat_completeness auto
termination
  by (relation "measure length") auto

definition ParseString :: "string \<Rightarrow> (string \<times> string) option" where
  "ParseString s =
     (case s of
        [] \<Rightarrow> None
      | q # cs \<Rightarrow>
          if q \<noteq> CHR 0x22 then None
          else case scan_string cs of
              None \<Rightarrow> None
            | Some (raw, needs_decode, r) \<Rightarrow>
                if \<not> needs_decode then Some (raw, r)
                else map_option (\<lambda>d. (d, r)) (decode_string raw))"

section \<open>Numbers\<close>

definition scan_integer :: "string \<Rightarrow> (string \<times> string) option" where
  "scan_integer s =
     (if s = [] \<or> \<not> is_digit (hd s) then None
      else if hd s = CHR ''0'' then
        (if tl s \<noteq> [] \<and> is_digit (hd (tl s)) then None else Some (''0'', tl s))
      else Some (takeWhile is_digit s, dropWhile is_digit s))"

definition scan_fraction :: "string \<Rightarrow> (string \<times> string) option" where
  "scan_fraction s =
     (if s \<noteq> [] \<and> hd s = CHR ''.'' then
        (if tl s = [] \<or> \<not> is_digit (hd (tl s)) then None
         else Some (CHR ''.'' # takeWhile is_digit (tl s), dropWhile is_digit (tl s)))
      else Some ([], s))"

definition scan_exp :: "string \<Rightarrow> (string \<times> string) option" where
  "scan_exp s =
     (if s \<noteq> [] \<and> (hd s = CHR ''e'' \<or> hd s = CHR ''E'') then
        let t = tl s; sg = (if t \<noteq> [] \<and> (hd t = CHR ''+'' \<or> hd t = CHR ''-'') then [hd t] else []);
            u = drop (length sg) t
        in if u = [] \<or> \<not> is_digit (hd u) then None
           else Some (hd s # sg @ takeWhile is_digit u, dropWhile is_digit u)
      else Some ([], s))"

text \<open>The token \<open>num_str\<close>, whether it is floating point, and the rest.\<close>

definition scan_number :: "string \<Rightarrow> (string \<times> bool \<times> string) option" where
  "scan_number s =
     (let sg = (if s \<noteq> [] \<and> hd s = CHR ''-'' then ''-'' else [])
      in case scan_integer (drop (length sg) s) of
           None \<Rightarrow> None
         | Some (ds, s1) \<Rightarrow>
             (case scan_fraction s1 of
                None \<Rightarrow> None
              | Some (fs, s2) \<Rightarrow>
                  (case scan_exp s2 of
                     None \<Rightarrow> None
                   | Some (es, s3) \<Rightarrow> Some (sg @ ds @ fs @ es, fs \<noteq> [] \<or> es \<noteq> [], s3))))"

definition convert_number :: "string \<Rightarrow> bool \<Rightarrow> JSONValue option" where
  "convert_number num_str is_float =
     (if is_float then
        (case parsed_whole (from_chars_double num_str) of
           Some d \<Rightarrow> if isfinite d then Some (JDouble d) else None
         | None \<Rightarrow> None)
      else if hd num_str = CHR ''-'' then
        (case fst (from_chars_signed (2 ^ 63) num_str) of
           Inr i \<Rightarrow> Some (JInt64 (of_int i))
         | Inl _ \<Rightarrow> None)
      else (case fst (from_chars_unsigned (2 ^ 64) num_str) of
              Inr n \<Rightarrow> Some (JUInt64 (of_nat n))
            | Inl _ \<Rightarrow> None))"

definition ParseNumber :: "string \<Rightarrow> (JSONValue \<times> string) option" where
  "ParseNumber s =
     (case scan_number s of
        None \<Rightarrow> None
      | Some (num_str, is_float, r) \<Rightarrow> map_option (\<lambda>v. (v, r)) (convert_number num_str is_float))"

section \<open>Values\<close>

record ParserState =
  rest :: string
  depth :: nat
  nodes :: nat

definition is_ws :: "char \<Rightarrow> bool" where
  "is_ws c \<longleftrightarrow> c = CHR '' '' \<or> c = CHR 0x09 \<or> c = CHR 0x0A \<or> c = CHR 0x0D"

definition SkipWhitespace :: "ParserState \<Rightarrow> ParserState" where
  "SkipWhitespace st = st\<lparr>rest := dropWhile is_ws (rest st)\<rparr>"

definition Peek :: "ParserState \<Rightarrow> char" where
  "Peek st = (case rest st of [] \<Rightarrow> CHR 0x00 | c # _ \<Rightarrow> c)"

definition Expect :: "char \<Rightarrow> ParserState \<Rightarrow> ParserState option" where
  "Expect c st =
     (case rest st of [] \<Rightarrow> None | d # ds \<Rightarrow> if d = c then Some (st\<lparr>rest := ds\<rparr>) else None)"

definition advance :: "nat \<Rightarrow> ParserState \<Rightarrow> ParserState" where
  "advance n st = st\<lparr>rest := drop n (rest st)\<rparr>"

text \<open>Running one of the token parsers on the state.\<close>

definition on_rest :: "(string \<Rightarrow> ('a \<times> string) option) \<Rightarrow> ParserState \<Rightarrow> ('a \<times> ParserState) option" where
  "on_rest p st = (case p (rest st) of None \<Rightarrow> None | Some (x, r) \<Rightarrow> Some (x, st\<lparr>rest := r\<rparr>))"

definition literal :: "string \<Rightarrow> JSONValue \<Rightarrow> ParserState \<Rightarrow> (JSONValue \<times> ParserState) option" where
  "literal word v st =
     (if take (length word) (rest st) = word then Some (v, advance (length word) st) else None)"

definition is_number_start :: "char \<Rightarrow> bool" where
  "is_number_start c \<longleftrightarrow> c = CHR ''-'' \<or> is_digit c"

text \<open>What leaving a value does: the depth guard's destructor.\<close>

definition leave :: "(JSONValue \<times> ParserState) option \<Rightarrow> (JSONValue \<times> ParserState) option" where
  "leave r = map_option (\<lambda>(v, st). (v, st\<lparr>depth := depth st - 1\<rparr>)) r"

function (sequential)
  ParseValue :: "ParserState \<Rightarrow> (JSONValue \<times> ParserState) option"
  and ParseArray :: "ParserState \<Rightarrow> (JSONValue \<times> ParserState) option"
  and array_loop :: "ParserState \<Rightarrow> JSONValue list \<Rightarrow> (JSONValue \<times> ParserState) option"
  and ParseObject :: "ParserState \<Rightarrow> (JSONValue \<times> ParserState) option"
  and object_loop :: "ParserState \<Rightarrow> (string \<times> JSONValue) list \<Rightarrow> string list \<Rightarrow> (JSONValue \<times> ParserState) option"
where
  "ParseValue st0 =
     (if depth st0 \<ge> 64 \<or> nodes st0 + 1 > 1000000 then None
      else
        let st = SkipWhitespace (st0\<lparr>nodes := nodes st0 + 1, depth := depth st0 + 1\<rparr>); c = Peek st
        in leave
            (if c = CHR ''n'' then literal ''null'' JNull st
             else if c = CHR ''t'' then literal ''true'' (JBool True) st
             else if c = CHR ''f'' then literal ''false'' (JBool False) st
             else if c = CHR 0x22 then map_option (\<lambda>(s, st'). (JString s, st')) (on_rest ParseString st)
             else if c = CHR ''['' then ParseArray st
             else if c = CHR ''{'' then ParseObject st
             else if is_number_start c then on_rest ParseNumber st
             else None))"
| "ParseArray st0 =
     (case Expect (CHR ''['') st0 of
        None \<Rightarrow> None
      | Some st1 \<Rightarrow>
          let st = SkipWhitespace st1
          in if Peek st = CHR '']'' then Some (JArray [], advance 1 st) else array_loop st [])"
| "array_loop st0 arr =
     (case ParseValue st0 of
        None \<Rightarrow> None
      | Some (v, st1) \<Rightarrow>
          let st = SkipWhitespace st1; c = Peek st
          in if c = CHR '']'' then Some (JArray (arr @ [v]), advance 1 st)
             else if c = CHR '','' then
               (let st2 = SkipWhitespace (advance 1 st)
                in if Peek st2 = CHR '']'' then None else array_loop st2 (arr @ [v]))
             else None)"
| "ParseObject st0 =
     (case Expect (CHR ''{'') st0 of
        None \<Rightarrow> None
      | Some st1 \<Rightarrow>
          let st = SkipWhitespace st1
          in if Peek st = CHR ''}'' then Some (JObject [], advance 1 st) else object_loop st [] [])"
| "object_loop st0 obj keys =
     (case on_rest ParseString (SkipWhitespace st0) of
        None \<Rightarrow> None
      | Some (key, st1) \<Rightarrow>
          if length keys \<ge> 4096 \<or> key \<in> set keys then None
          else (case Expect (CHR '':'') (SkipWhitespace st1) of
              None \<Rightarrow> None
            | Some st2 \<Rightarrow>
                (case ParseValue (SkipWhitespace st2) of
                   None \<Rightarrow> None
                 | Some (v, st3) \<Rightarrow>
                     let st = SkipWhitespace st3; c = Peek st
                     in if c = CHR ''}'' then Some (JObject (obj @ [(key, v)]), advance 1 st)
                        else if c = CHR '','' then
                          (let st4 = SkipWhitespace (advance 1 st)
                           in if Peek st4 = CHR ''}'' then None
                              else object_loop st4 (obj @ [(key, v)]) (key # keys))
                        else None)))"
  by pat_completeness auto

subsection \<open>Termination\<close>

lemma length_SkipWhitespace: "length (rest (SkipWhitespace st)) \<le> length (rest st)"
  by (simp add: SkipWhitespace_def length_dropWhile_le)

lemma length_Expect: "Expect c st = Some st' \<Longrightarrow> length (rest st') < length (rest st)"
  by (auto simp: Expect_def split: list.splits if_splits)

lemma length_advance: "length (rest (advance n st)) \<le> length (rest st)"
  by (simp add: advance_def)

lemma length_advance_Peek: "Peek st = c \<Longrightarrow> c \<noteq> CHR 0x00 \<Longrightarrow> length (rest (advance 1 st)) < length (rest st)"
  by (cases "rest st") (auto simp: advance_def Peek_def)

lemma scan_string_split: "scan_string s = Some (raw, d, r) \<Longrightarrow> s = raw @ CHR 0x22 # r"
proof (induction "length s" arbitrary: s raw d r rule: less_induct)
  case less
  have IH: "scan_string t = Some (raw', d', r') \<Longrightarrow> length t < length s \<Longrightarrow> t = raw' @ CHR 0x22 # r'" for t raw' d' r'
    using less.hyps by blast
  from less.prems obtain c cs where s: "s = c # cs" by (cases s) auto
  show ?case
  proof (cases "c = CHR 0x5C")
    case True
    with less.prems s obtain esc cs' raw' where *: "cs = esc # cs'"
      "(\<exists>d'. scan_string (drop 4 cs') = Some (raw', d', r)) \<and> raw = c # esc # take 4 cs' @ raw' \<or>
       (\<exists>d'. scan_string cs' = Some (raw', d', r)) \<and> raw = c # esc # raw'"
      by (auto split: list.splits if_splits)
    then have "drop 4 cs' = raw' @ CHR 0x22 # r \<and> raw = c # esc # take 4 cs' @ raw' \<or>
      cs' = raw' @ CHR 0x22 # r \<and> raw = c # esc # raw'"
      using IH [of "drop 4 cs'"] IH [of cs'] s by (simp add: le_imp_less_Suc le_SucI) blast
    moreover have "cs' = take 4 cs' @ drop 4 cs'" by simp
    ultimately show ?thesis using s * by (metis append.assoc append_Cons)
  next
    case False
    define len where "len = (if 128 \<le> byte c then Utf8Length (c # cs) else 1)"
    from False less.prems s consider "c = CHR 0x22" "raw = []" "r = cs"
      | raw' where "len \<noteq> 0" "scan_string (drop len s) = Some (raw', d, r)" "raw = take len s @ raw'"
      by (auto simp: len_def Let_def split: if_splits)
    then show ?thesis
    proof cases
      case 2
      then have "drop len s = raw' @ CHR 0x22 # r" using IH s by simp
      then show ?thesis using 2 append_take_drop_id [of len s] by simp
    qed (simp add: s)
  qed
qed

lemma length_ParseString: "ParseString s = Some (x, r) \<Longrightarrow> length r < length s"
  using scan_string_split by (fastforce simp: ParseString_def split: list.splits if_splits option.splits)

lemma scan_integer_split: "scan_integer s = Some (t, r) \<Longrightarrow> s = t @ r"
  by (cases s) (auto simp: scan_integer_def split: if_splits)

lemma scan_fraction_split: "scan_fraction s = Some (t, r) \<Longrightarrow> s = t @ r"
  by (cases s) (auto simp: scan_fraction_def split: if_splits)

lemma scan_exp_split: "scan_exp s = Some (t, r) \<Longrightarrow> s = t @ r"
  by (cases s; cases "tl s") (auto simp: scan_exp_def Let_def split: if_splits)

lemma scan_number_split: "scan_number s = Some (t, b, r) \<Longrightarrow> s = t @ r"
  by (cases s) (auto simp: scan_number_def Let_def dest!: scan_integer_split scan_fraction_split scan_exp_split
      split: if_splits option.splits)

lemma length_ParseNumber: "ParseNumber s = Some (x, r) \<Longrightarrow> length r \<le> length s"
  using scan_number_split by (fastforce simp: ParseNumber_def split: option.splits)

lemma length_on_rest:
  "on_rest p st = Some (x, st') \<Longrightarrow> (\<And>s x r. p s = Some (x, r) \<Longrightarrow> length r \<le> length s) \<Longrightarrow>
   length (rest st') \<le> length (rest st)"
  by (auto simp: on_rest_def split: option.splits)

lemma length_literal: "literal w v st = Some (x, st') \<Longrightarrow> length (rest st') \<le> length (rest st)"
  by (auto simp: literal_def length_advance split: if_splits)

lemma leave_Some: "leave r = Some (v, st) \<longleftrightarrow> (\<exists>st'. r = Some (v, st') \<and> st = st'\<lparr>depth := depth st' - 1\<rparr>)"
  by (cases r) (auto simp: leave_def)


lemma rest_shrinks:
  "ParseValue_ParseArray_array_loop_ParseObject_object_loop_dom (Inl (Inl st)) \<Longrightarrow>
     (\<forall>v st'. ParseValue st = Some (v, st') \<longrightarrow> length (rest st') \<le> length (rest st))"
  "ParseValue_ParseArray_array_loop_ParseObject_object_loop_dom (Inl (Inr st)) \<Longrightarrow>
     (\<forall>v st'. ParseArray st = Some (v, st') \<longrightarrow> length (rest st') \<le> length (rest st))"
  "ParseValue_ParseArray_array_loop_ParseObject_object_loop_dom (Inr (Inl (st, arr))) \<Longrightarrow>
     (\<forall>v st'. array_loop st arr = Some (v, st') \<longrightarrow> length (rest st') \<le> length (rest st))"
  "ParseValue_ParseArray_array_loop_ParseObject_object_loop_dom (Inr (Inr (Inl st))) \<Longrightarrow>
     (\<forall>v st'. ParseObject st = Some (v, st') \<longrightarrow> length (rest st') \<le> length (rest st))"
  "ParseValue_ParseArray_array_loop_ParseObject_object_loop_dom (Inr (Inr (Inr (st, obj, keys)))) \<Longrightarrow>
     (\<forall>v st'. object_loop st obj keys = Some (v, st') \<longrightarrow> length (rest st') \<le> length (rest st))"
proof (induction st and st and st arr and st and st obj keys
    rule: ParseValue_ParseArray_array_loop_ParseObject_object_loop.pinduct)
  case (1 st0)
  define st where "st = SkipWhitespace (st0\<lparr>nodes := nodes st0 + 1, depth := depth st0 + 1\<rparr>)"
  have "length (rest st) \<le> length (rest st0)"
    unfolding st_def using length_SkipWhitespace [of "st0\<lparr>nodes := nodes st0 + 1, depth := depth st0 + 1\<rparr>"] by simp
  note le = order_trans [OF _ this]
  have "length (rest st') \<le> length (rest st)" if "ParseValue st0 = Some (v, st')" for v st'
  proof -
    from that have guard: "\<not> (depth st0 \<ge> 64 \<or> nodes st0 + 1 > 1000000)"
      by (auto simp: ParseValue.psimps [OF 1(1)] split: if_splits)
    with that obtain st2 where st2: "st' = st2\<lparr>depth := depth st2 - 1\<rparr>" and
      r: "(if Peek st = CHR ''n'' then literal ''null'' JNull st
             else if Peek st = CHR ''t'' then literal ''true'' (JBool True) st
             else if Peek st = CHR ''f'' then literal ''false'' (JBool False) st
             else if Peek st = CHR 0x22 then map_option (\<lambda>(s, st'). (JString s, st')) (on_rest ParseString st)
             else if Peek st = CHR ''['' then ParseArray st
             else if Peek st = CHR ''{'' then ParseObject st
             else if is_number_start (Peek st) then on_rest ParseNumber st
             else None) = Some (v, st2)"
      by (simp only: ParseValue.psimps [OF 1(1)] if_False st_def Let_def leave_Some) blast
    have "length (rest st2) \<le> length (rest st)"
    proof -
      consider w x where "literal w x st = Some (v, st2)" | x where "on_rest ParseString st = Some (x, st2)"
        | "on_rest ParseNumber st = Some (v, st2)" | "Peek st = CHR ''[''" "ParseArray st = Some (v, st2)"
        | "Peek st = CHR ''{''" "ParseObject st = Some (v, st2)"
        using r by (auto split: if_splits)
      then show ?thesis
      proof cases
        case 1
        then show ?thesis by (rule length_literal)
      next
        case 2
        then show ?thesis by (rule length_on_rest) (rule less_imp_le [OF length_ParseString])
      next
        case 3
        then show ?thesis by (rule length_on_rest) (rule length_ParseNumber)
      next
        case 4
        then show ?thesis using 1(2) [OF guard st_def refl] by simp
      next
        case 5
        then show ?thesis using 1(3) [OF guard st_def refl] by simp
      qed
    qed
    then show ?thesis by (simp add: st2)
  qed
  then show ?case using le by blast
next
  case (2 st0)
  then show ?case
    using length_Expect [of _ st0] length_SkipWhitespace length_advance [of 1]
    by (auto simp: ParseArray.psimps Let_def split: option.splits if_splits) (meson le_trans less_imp_le)+
next
  case (3 st0 arr)
  have "length (rest st') \<le> length (rest st0)" if r: "array_loop st0 arr = Some (v, st')" for v st'
  proof -
    from r obtain x st1 where p: "ParseValue st0 = Some (x, st1)"
      by (auto simp: array_loop.psimps [OF 3(1)] split: option.splits)
    note IH = 3(3) [OF p refl refl refl]
    have "length (rest st1) \<le> length (rest st0)" using 3(2) p by simp
    moreover have "length (rest st') \<le> length (rest st1)"
      using r p IH length_SkipWhitespace [of st1] length_SkipWhitespace [of "advance 1 (SkipWhitespace st1)"]
        length_advance [of 1 "SkipWhitespace st1"]
      by (auto simp: array_loop.psimps [OF 3(1)] Let_def split: if_splits)
    ultimately show ?thesis by simp
  qed
  then show ?case by blast
next
  case (4 st0)
  then show ?case
    using length_Expect [of _ st0] length_SkipWhitespace length_advance [of 1]
    by (auto simp: ParseObject.psimps Let_def split: option.splits if_splits) (meson le_trans less_imp_le)+
next
  case (5 st0 obj keys)
  have "length (rest st') \<le> length (rest st0)" if r: "object_loop st0 obj keys = Some (v, st')" for v st'
  proof -
    from r obtain key x st1 st2 st3 where p: "on_rest ParseString (SkipWhitespace st0) = Some (key, st1)"
      "\<not> (length keys \<ge> 4096 \<or> key \<in> set keys)" "Expect (CHR '':'') (SkipWhitespace st1) = Some st2"
      "ParseValue (SkipWhitespace st2) = Some (x, st3)"
      by (auto simp: object_loop.psimps [OF 5(1)] split: option.splits if_splits)
    note IH = 5(3) [OF p(1) refl p(2,3,4) refl refl refl]
    have "length (rest st3) \<le> length (rest (SkipWhitespace st2))" using 5(2) p by simp
    also have "\<dots> \<le> length (rest st2)" by (rule length_SkipWhitespace)
    also have "\<dots> \<le> length (rest (SkipWhitespace st1))" using length_Expect [OF p(3)] by simp
    also have "\<dots> \<le> length (rest st1)" by (rule length_SkipWhitespace)
    also have "\<dots> \<le> length (rest (SkipWhitespace st0))"
      using length_on_rest [OF p(1)] length_ParseString less_imp_le by blast
    also have "\<dots> \<le> length (rest st0)" by (rule length_SkipWhitespace)
    finally have "length (rest st3) \<le> length (rest st0)" .
    moreover have "length (rest st') \<le> length (rest st3)"
      using r p IH length_SkipWhitespace [of st3] length_SkipWhitespace [of "advance 1 (SkipWhitespace st3)"]
        length_advance [of 1 "SkipWhitespace st3"]
      by (auto simp: object_loop.psimps [OF 5(1)] Let_def split: if_splits)
    ultimately show ?thesis by simp
  qed
  then show ?case by blast
qed

lemma loop_shrinks:
  assumes "ParseValue_ParseArray_array_loop_ParseObject_object_loop_dom (Inl (Inl st0))"
    and "ParseValue st0 = Some (v, st1)" "Peek (SkipWhitespace st1) = CHR '',''"
  shows "length (rest (SkipWhitespace (advance 1 (SkipWhitespace st1)))) < length (rest st0)"
proof -
  have "length (rest st1) \<le> length (rest st0)" using rest_shrinks(1) assms by blast
  then show ?thesis
    using length_SkipWhitespace [of "advance 1 (SkipWhitespace st1)"] length_SkipWhitespace [of st1]
      length_advance_Peek [OF assms(3)] by simp
qed

lemma enter_shrinks:
  "length (rest (SkipWhitespace (st0\<lparr>nodes := n, depth := d\<rparr>))) \<le> length (rest st0)"
  using length_SkipWhitespace [of "st0\<lparr>nodes := n, depth := d\<rparr>"] by simp

lemma open_shrinks: "Expect c st0 = Some st1 \<Longrightarrow> length (rest (SkipWhitespace st1)) < length (rest st0)"
  using length_Expect length_SkipWhitespace le_less_trans by blast

lemma key_shrinks:
  assumes "on_rest ParseString (SkipWhitespace st0) = Some (key, st1)" "Expect c (SkipWhitespace st1) = Some st2"
  shows "length (rest (SkipWhitespace st2)) < length (rest st0)"
proof -
  have "length (rest (SkipWhitespace st2)) < length (rest (SkipWhitespace st1))"
    using assms(2) by (rule open_shrinks)
  also have "\<dots> \<le> length (rest st1)" by (rule length_SkipWhitespace)
  also have "\<dots> \<le> length (rest (SkipWhitespace st0))"
    using length_on_rest [OF assms(1)] length_ParseString less_imp_le by blast
  also have "\<dots> \<le> length (rest st0)" by (rule length_SkipWhitespace)
  finally show ?thesis .
qed

lemma object_shrinks:
  assumes "on_rest ParseString (SkipWhitespace st0) = Some (key, st1)" "Expect c (SkipWhitespace st1) = Some st2"
    and "ParseValue_ParseArray_array_loop_ParseObject_object_loop_dom (Inl (Inl (SkipWhitespace st2)))"
    and "ParseValue (SkipWhitespace st2) = Some (v, st3)" "Peek (SkipWhitespace st3) = CHR '',''"
  shows "length (rest (SkipWhitespace (advance 1 (SkipWhitespace st3)))) < length (rest st0)"
  using key_shrinks [OF assms(1,2)] loop_shrinks [OF assms(3-5)] by (rule less_trans [rotated])

termination ParseValue
  apply (relation "measure (\<lambda>x. case x of Inl (Inl st) \<Rightarrow> 3 * length (rest st) + 1
     | Inl (Inr st) \<Rightarrow> 3 * length (rest st) | Inr (Inl (st, _)) \<Rightarrow> 3 * length (rest st) + 2
     | Inr (Inr (Inl st)) \<Rightarrow> 3 * length (rest st) | Inr (Inr (Inr (st, _))) \<Rightarrow> 3 * length (rest st) + 2)")
  apply (simp_all only: in_measure wf_measure sum.case prod.case)
  subgoal for st0 using enter_shrinks [of "depth st0 + 1" "nodes st0 + 1" st0] by simp
  subgoal for st0 using enter_shrinks [of "depth st0 + 1" "nodes st0 + 1" st0] by simp
  subgoal for st0 using open_shrinks [of _ st0] by fastforce
  subgoal by clarsimp (metis loop_shrinks One_nat_def)
  subgoal for st0 using open_shrinks [of _ st0] by fastforce
  subgoal for st0 using key_shrinks [of st0] by fastforce
  subgoal by clarsimp (frule (3) object_shrinks, rule sym, assumption, simp)
  done

declare ParseValue.simps [simp del] ParseArray.simps [simp del] array_loop.simps [simp del]
  ParseObject.simps [simp del] object_loop.simps [simp del]

section \<open>Documents\<close>

definition Parse :: "string \<Rightarrow> JSONValue option" where
  "Parse input =
     (if length input > 8 * 1024 * 1024 then None
      else case ParseValue \<lparr>rest = input, depth = 0, nodes = 0\<rparr> of
          None \<Rightarrow> None
        | Some (v, st) \<Rightarrow> if rest (SkipWhitespace st) = [] then Some v else None)"

end
