(* ===== verification/Json_Roundtrip.thy ===== *)
theory Json_Roundtrip
  imports Json_Parser
begin

text \<open>
  The serializer against the parser: what \<open>ToString\<close> prints, with any indentation, \<open>Parse\<close> reads
  back as the same value up to the normal form \<open>norm\<close> (a nonnegative integer is unsigned, a
  double printed without point and exponent is an integer, bytes that are not UTF-8 become the
  code points of the same number).
\<close>

section \<open>Strings\<close>

text \<open>What a string is after printing and parsing.\<close>

function repair :: "string \<Rightarrow> string" where
  "repair [] = []"
| "repair (c # cs) =
     (if 128 \<le> byte c then
        (let len = Utf8Length (c # cs)
         in if len \<noteq> 0 then take len (c # cs) @ repair (drop len (c # cs))
            else utf8 (byte c) @ repair cs)
      else c # repair cs)"
  by pat_completeness auto
termination
  by (relation "measure length") auto

definition valid_utf8 :: "string \<Rightarrow> bool" where
  "valid_utf8 s \<longleftrightarrow> (\<exists>ns. list_all scalar ns \<and> s = concat (map utf8 ns))"

lemma HexDigit_hex_char: "d < 16 \<Longrightarrow> HexDigit (hex_char d) = Some (of_nat d)"
  by (auto simp: HexDigit_def hex_char_def)

lemma hex_low: "unat (push_bit 4 (of_nat d :: u32) OR of_nat e) = d * 16 + e" if "d < 16" "e < 16"
proof -
  have e: "(of_nat (d * 16 + e) :: u32) = push_bit 4 (of_nat d) OR of_nat e"
  proof -
    have "push_bit 4 d OR e = d * 16 + e" using or_high_low [of e 4 d] that by simp
    then have "(of_nat (d * 16 + e) :: u32) = of_nat (push_bit 4 d OR e)" by simp
    also have "\<dots> = push_bit 4 (of_nat d) OR of_nat e" by (simp add: of_nat_or_eq of_nat_push_bit)
    finally show ?thesis .
  qed
  then show ?thesis using that by (simp add: unat_of_nat del: of_nat_add of_nat_mult flip: e)
qed

lemma unicode_escape_u: "b < 256 \<Longrightarrow> \<exists>cp. unat cp = b \<and> unicode_escape (drop 2 (u_escape b) @ t) = Some (cp, 4)"
proof -
  assume b: "b < 256"
  let ?cp = "push_bit 4 (of_nat (b div 16) :: u32) OR of_nat (b mod 16)"
  have h0: "HexDigit (CHR ''0'') = Some 0" by (simp add: HexDigit_def)
  have u: "unat ?cp = b" using hex_low [of "b div 16" "b mod 16"] b by simp
  have "ParseHex4 (drop 2 (u_escape b) @ t) = Some ?cp"
    using b h0 HexDigit_hex_char [of "b div 16"] HexDigit_hex_char [of "b mod 16"]
    by (simp add: ParseHex4_def u_escape_def)
  then have "unicode_escape (drop 2 (u_escape b) @ t) = Some (?cp, 4)"
    using u b by (simp add: unicode_escape_def word_le_nat_alt)
  with u show ?thesis by blast
qed

lemma scalar_byte: "b < 256 \<Longrightarrow> scalar b" by (simp add: scalar_def)

lemma decode_u_escape:
  assumes "b < 256"
  shows "decode_string (u_escape b @ t) = map_option ((@) (utf8 b)) (decode_string t)"
proof -
  obtain cp where cp: "unat cp = b" "unicode_escape (drop 2 (u_escape b) @ t) = Some (cp, 4)"
    using unicode_escape_u [OF assms] by blast
  have "EncodeUtf8 cp = Some (utf8 b)" using EncodeUtf8_eq [of cp] cp(1) assms by simp
  with cp(2) show ?thesis by (simp add: u_escape_def)
qed

lemma scan_u_escape:
  assumes "b < 256"
  shows "scan_string (u_escape b @ t) = map_option (\<lambda>(raw, _, r). (u_escape b @ raw, True, r)) (scan_string t)"
  using HexDigit_hex_char [of "b div 16"] HexDigit_hex_char [of "b mod 16"] assms
  by (simp add: u_escape_def HexDigit_def take_Cons_numeral)

lemma utf8_low: "byte c < 128 \<Longrightarrow> utf8 (byte c) = [c]"
  by (simp add: utf8_def utf8_bytes_def)

lemma decode_escape_ascii:
  assumes "byte c < 128"
  shows "decode_string (escape_ascii c @ t) = map_option ((#) c) (decode_string t)"
proof (cases "escape_ascii c = u_escape (byte c)")
  case True
  then show ?thesis using decode_u_escape [of "byte c" t] assms utf8_low [OF assms]
    by (cases "decode_string t") simp_all
next
  case False
  then show ?thesis by (auto simp: escape_ascii_def simple_escape_def split: if_splits)
qed

lemma scan_escape_ascii:
  assumes "byte c < 128" "scan_string t = Some (raw, d, r)"
  shows "\<exists>d'. scan_string (escape_ascii c @ t) = Some (escape_ascii c @ raw, d', r) \<and>
    (\<not> d' \<longrightarrow> \<not> d \<and> escape_ascii c = [c])"
proof (cases "escape_ascii c = u_escape (byte c)")
  case True
  then show ?thesis using scan_u_escape [of "byte c" t] assms by (intro exI [of _ True]) simp
next
  case False
  then show ?thesis using assms by (auto simp: escape_ascii_def split: if_splits)
qed

lemma decode_high:
  "list_all (\<lambda>b. 128 \<le> byte b) bs \<Longrightarrow> decode_string (bs @ t) = map_option ((@) bs) (decode_string t)"
proof (induction bs)
  case Nil
  then show ?case by (cases "decode_string t") simp_all
next
  case (Cons b bs)
  then have "b \<noteq> CHR 0x5C" by auto
  with Cons show ?case by (cases "decode_string t") simp_all
qed

lemma utf8_high:
  assumes "utf8 n = c # cs" "128 \<le> byte c"
  shows "list_all (\<lambda>b. 128 \<le> byte b) (utf8 n)"
  using assms by (auto simp: utf8_def utf8_bytes_def list_all_iff of_char_of split: if_splits)

lemma Utf8Length_high:
  assumes "128 \<le> byte c" "Utf8Length (c # cs) \<noteq> 0"
  obtains n where "scalar n" "take (Utf8Length (c # cs)) (c # cs) = utf8 n"
    "list_all (\<lambda>b. 128 \<le> byte b) (utf8 n)" "\<And>t. Utf8Length (utf8 n @ t) = length (utf8 n)"
    "utf8 n = c # tl (utf8 n)"
proof -
  obtain n where n: "scalar n" "take (Utf8Length (c # cs)) (c # cs) = utf8 n"
    using Utf8Length_sound [OF refl] assms(2) by blast
  from n(2) assms(2) have hd: "utf8 n = c # tl (utf8 n)"
    by (cases "Utf8Length (c # cs)") (auto simp flip: n(2))
  show thesis
    by (rule that [OF n utf8_high [OF hd assms(1)] _ hd]) (rule Utf8Length_utf8 [OF n(1)])
qed

lemma scan_utf8:
  assumes "128 \<le> byte c" "utf8 n = c # cs" "Utf8Length (utf8 n @ t) = length (utf8 n)"
  shows "scan_string (utf8 n @ t) = map_option (\<lambda>(raw, d, r). (utf8 n @ raw, d, r)) (scan_string t)"
proof -
  have "c \<noteq> CHR 0x22" "c \<noteq> CHR 0x5C" "\<not> byte c < 0x20" using assms(1) by auto
  moreover have "take (length (utf8 n)) (c # cs @ t) = utf8 n" "drop (length (utf8 n)) (c # cs @ t) = t"
    using assms(2) by simp_all
  ultimately show ?thesis using assms by (simp del: utf8_def)
qed

lemma escape_body_scans:
  "\<exists>d. scan_string (escape_body s @ CHR 0x22 # t) = Some (escape_body s, d, t) \<and> (\<not> d \<longrightarrow> escape_body s = repair s)"
proof (induction s rule: escape_body.induct)
  case (2 c cs)
  consider "byte c < 128" | "128 \<le> byte c" "Utf8Length (c # cs) = 0" | "128 \<le> byte c" "Utf8Length (c # cs) \<noteq> 0"
    by linarith
  then show ?case
  proof cases
    case 1
    then show ?thesis using "2.IH"(3) scan_escape_ascii [OF 1, of "escape_body cs @ CHR 0x22 # t"] by fastforce
  next
    case 2
    then show ?thesis using "2.IH"(2) [OF _ refl] scan_u_escape [of "byte c" "escape_body cs @ CHR 0x22 # t"]
      by (auto simp: Let_def)
  next
    case 3
    then obtain n where n: "take (Utf8Length (c # cs)) (c # cs) = utf8 n"
      "\<And>t. Utf8Length (utf8 n @ t) = length (utf8 n)" "utf8 n = c # tl (utf8 n)"
      using Utf8Length_high by metis
    then show ?thesis
      using "2.IH"(1) [OF 3(1) refl 3(2)] scan_utf8 [OF 3(1) n(3,2)] 3 by (auto simp: Let_def)
  qed
qed auto

lemma decode_escape_body: "decode_string (escape_body s) = Some (repair s)"
proof (induction s rule: escape_body.induct)
  case (2 c cs)
  consider "byte c < 128" | "128 \<le> byte c" "Utf8Length (c # cs) = 0" | "128 \<le> byte c" "Utf8Length (c # cs) \<noteq> 0"
    by linarith
  then show ?case
  proof cases
    case 1
    then show ?thesis using "2.IH"(3) decode_escape_ascii [OF 1] by simp
  next
    case 2
    then show ?thesis using "2.IH"(2) [OF _ refl] decode_u_escape [of "byte c"] by (simp add: Let_def)
  next
    case 3
    then obtain n where n: "take (Utf8Length (c # cs)) (c # cs) = utf8 n" "list_all (\<lambda>b. 128 \<le> byte b) (utf8 n)"
      using Utf8Length_high by metis
    then show ?thesis using "2.IH"(1) [OF 3(1) refl 3(2)] decode_high [OF n(2)] 3 by (simp add: Let_def)
  qed
qed simp

lemma ParseString_escaped: "ParseString (AppendEscapedString s @ t) = Some (repair s, t)"
  using escape_body_scans [of s t] decode_escape_body [of s]
  by (auto simp: ParseString_def AppendEscapedString_def)

section \<open>Parsed strings are UTF-8\<close>

lemma valid_utf8_Nil [simp, intro]: "valid_utf8 []"
  unfolding valid_utf8_def by (rule exI [of _ "[]"]) simp

lemma valid_utf8_app [intro]: "scalar n \<Longrightarrow> valid_utf8 s \<Longrightarrow> valid_utf8 (utf8 n @ s)"
  unfolding valid_utf8_def by (metis concat.simps(2) list.pred_inject(2) list.simps(9))

lemma valid_utf8_Cons [intro]: "byte c < 128 \<Longrightarrow> valid_utf8 s \<Longrightarrow> valid_utf8 (c # s)"
  using valid_utf8_app [of "byte c" s] utf8_low [of c] by (simp add: scalar_def)

text \<open>The raw text between the quotes, as the first loop accepts it.\<close>

inductive raw_text :: "string \<Rightarrow> bool" where
  "raw_text []"
| "raw_text s \<Longrightarrow> byte c < 128 \<Longrightarrow> c \<noteq> CHR 0x5C \<Longrightarrow> raw_text (c # s)"
| "raw_text s \<Longrightarrow> scalar n \<Longrightarrow> list_all (\<lambda>b. 128 \<le> byte b) (utf8 n) \<Longrightarrow> raw_text (utf8 n @ s)"
| "raw_text s \<Longrightarrow> e \<noteq> CHR ''u'' \<Longrightarrow> raw_text (CHR 0x5C # e # s)"
| "raw_text s \<Longrightarrow> length hs = 4 \<Longrightarrow> raw_text (CHR 0x5C # CHR ''u'' # hs @ s)"

lemma utf8_nonempty [simp]: "utf8 n \<noteq> []"
  by (simp add: utf8_def utf8_bytes_def)

inductive_cases raw_text_escape: "raw_text (CHR 0x5C # e # s)"

lemma high_not_escape: "list_all (\<lambda>b. 128 \<le> byte b) (utf8 n) \<Longrightarrow> CHR 0x5C # x \<noteq> utf8 n"
  by (cases "utf8 n") auto

lemma raw_text_u: "raw_text (CHR 0x5C # CHR ''u'' # s) \<Longrightarrow> raw_text (drop 4 s)"
  by (erule raw_text_escape) (auto simp: Cons_eq_append_conv dest: high_not_escape)

lemma raw_text_e: "raw_text (CHR 0x5C # e # s) \<Longrightarrow> e \<noteq> CHR ''u'' \<Longrightarrow> raw_text s"
  by (erule raw_text_escape) (auto simp: Cons_eq_append_conv dest: high_not_escape)

lemma scan_string_raw: "scan_string s = Some (raw, d, r) \<Longrightarrow> raw_text raw \<and> (\<not> d \<longrightarrow> valid_utf8 raw)"
proof (induction s arbitrary: raw d r rule: scan_string.induct)
  case (2 c cs)
  consider "c = CHR 0x22" | "c = CHR 0x5C" | "c \<noteq> CHR 0x22" "c \<noteq> CHR 0x5C" "byte c < 128"
    | "c \<noteq> CHR 0x22" "c \<noteq> CHR 0x5C" "128 \<le> byte c" by linarith
  then show ?case
  proof cases
    case 1
    then show ?thesis using "2.prems" by (auto intro: raw_text.intros)
  next
    case 2
    then show ?thesis using "2.prems" "2.IH"(1,2)
      by (auto split: list.splits if_splits intro: raw_text.intros)
  next
    case 3
    then show ?thesis using "2.prems" "2.IH"(4) by (auto split: if_splits intro: raw_text.intros)
  next
    case 4
    then have z: "Utf8Length (c # cs) \<noteq> 0" using "2.prems" by (auto simp: Let_def split: if_splits)
    with 4 obtain n where n: "scalar n" "take (Utf8Length (c # cs)) (c # cs) = utf8 n"
      "list_all (\<lambda>b. 128 \<le> byte b) (utf8 n)"
      using Utf8Length_high by metis
    then show ?thesis using "2.prems" "2.IH"(3) [OF 4(1,2) _ 4(3) refl z] 4 z
      by (auto simp: Let_def split: if_splits intro: raw_text.intros)
  qed
qed simp

lemma HexDigit_bound:
  assumes "HexDigit c = Some d"
  obtains n where "d = of_nat n" "n < 16"
proof -
  have "\<exists>n. d = of_nat n \<and> n < 16"
  proof (cases "byte c \<le> 57")
    case True
    with assms show ?thesis
      by (intro exI [of _ "byte c - 48"]) (auto simp add: HexDigit_def simp del: of_nat_diff of_nat_add split: if_splits)
  next
    case False
    with assms show ?thesis
      by (intro exI [of _ "if byte c \<le> 70 then byte c - 65 + 10 else byte c - 97 + 10"])
        (simp add: HexDigit_def del: of_nat_diff of_nat_add split: if_splits)
  qed
  then show thesis using that by blast
qed

lemma hex_loop_bound:
  "hex_loop (of_nat m) cs = Some v \<Longrightarrow> m < 16 ^ k \<Longrightarrow> k + length cs \<le> 7 \<Longrightarrow>
   \<exists>n. v = of_nat n \<and> n < 16 ^ (k + length cs)"
proof (induction cs arbitrary: k m)
  case Nil
  then show ?case by auto
next
  case (Cons c cs)
  then obtain d where d: "HexDigit c = Some d" "hex_loop (push_bit 4 (of_nat m) OR d) cs = Some v"
    by (auto split: option.splits)
  obtain n where n: "d = of_nat n" "n < 16" using HexDigit_bound [OF d(1)] .
  have "push_bit 4 (of_nat m) OR d = of_nat (push_bit 4 m OR n)"
    by (simp add: n of_nat_or_eq of_nat_push_bit)
  also have "push_bit 4 m OR n = m * 16 + n" using or_high_low [of n 4 m] n by simp
  finally have "hex_loop (of_nat (m * 16 + n)) cs = Some v" using d(2) by simp
  moreover have "m * 16 + n < 16 ^ Suc k" using Cons.prems(2) n by simp
  ultimately show ?case using Cons.IH [of "m * 16 + n" "Suc k"] Cons.prems(3) by simp
qed

lemma ParseHex4_bound: "ParseHex4 s = Some v \<Longrightarrow> \<exists>n. v = of_nat n \<and> n < 65536"
  using hex_loop_bound [of 0 "take 4 s" v 0] by (auto simp: ParseHex4_def split: if_splits)

lemma surrogate_pair:
  fixes a b :: u32
  assumes "0xD800 \<le> a" "a \<le> 0xDBFF" "0xDC00 \<le> b" "b \<le> 0xDFFF"
  shows "unat (0x10000 + push_bit 10 (a - 0xD800) + (b - 0xDC00)) =
    0x10000 + (unat a - 0xD800) * 1024 + (unat b - 0xDC00)"
proof -
  define m where "m = unat a - 0xD800"
  define n where "n = unat b - 0xDC00"
  have ab: "a = of_nat (m + 0xD800)" "b = of_nat (n + 0xDC00)" and mn: "m < 1024" "n < 1024"
    using assms by (simp_all add: m_def n_def word_le_nat_alt)
  have "0x10000 + push_bit 10 (a - 0xD800) + (b - 0xDC00) = (of_nat (0x10000 + m * 1024 + n) :: u32)"
    by (simp add: ab push_bit_eq_mult)
  then show ?thesis using mn by (simp add: unat_of_nat m_def n_def del: of_nat_add of_nat_mult)
qed

lemma unicode_escape_scalar: "unicode_escape s = Some (cp, k) \<Longrightarrow> scalar (unat cp)"
proof -
  assume u: "unicode_escape s = Some (cp, k)"
  then obtain a where a: "ParseHex4 s = Some a" by (auto simp: unicode_escape_def split: option.splits)
  then have a16: "unat a < 65536" using ParseHex4_bound [OF a] by (auto simp: unat_of_nat)
  consider b where "0xD800 \<le> a" "a \<le> 0xDBFF" "0xDC00 \<le> b" "b \<le> 0xDFFF"
      "cp = 0x10000 + push_bit 10 (a - 0xD800) + (b - 0xDC00)"
    | "cp = a" "\<not> (0xD800 \<le> a \<and> a \<le> 0xDFFF)"
  proof (cases "0xD800 \<le> a \<and> a \<le> 0xDBFF")
    case True
    with u a obtain b where "cp = 0x10000 + push_bit 10 (a - 0xD800) + (b - 0xDC00)" "\<not> (b < 0xDC00 \<or> b > 0xDFFF)"
      by (auto simp: unicode_escape_def Let_def simp del: push_bit_of_nat split: option.splits if_splits)
    with True show ?thesis by (intro that(1)) (auto simp: not_less)
  next
    case False
    with u a have "cp = a" "\<not> (0xDC00 \<le> a \<and> a \<le> 0xDFFF)"
      by (auto simp: unicode_escape_def split: if_splits)
    with False show ?thesis
      by (intro that(2)) (auto simp: word_le_nat_alt)
  qed
  then show ?thesis
  proof cases
    case 1
    then show ?thesis using surrogate_pair [OF 1(1-4)] by (simp add: scalar_def word_le_nat_alt)
  next
    case 2
    then show ?thesis using a16 by (auto simp: scalar_def word_le_nat_alt)
  qed
qed

lemma decode_string_valid: "raw_text raw \<Longrightarrow> decode_string raw = Some x \<Longrightarrow> valid_utf8 x"
proof (induction "length raw" arbitrary: raw x rule: less_induct)
  case less
  show ?case
    using less.prems(1)
  proof cases
    case 1
    then show ?thesis using less.prems by simp
  next
    case (2 s c)
    then show ?thesis using less.prems less.hyps [of s] by auto
  next
    case (3 s n)
    then show ?thesis using less.prems less.hyps [of s] decode_high [of "utf8 n" s] by auto
  next
    case (4 s e)
    then obtain d y where "simple_escape e = Some d" "decode_string s = Some y" "x = d # y"
      using less.prems by (auto split: option.splits)
    moreover from this(1) have "byte d < 128" by (auto simp: simple_escape_def split: if_splits)
    ultimately show ?thesis using less.hyps [of s] 4 by auto
  next
    case (5 s hs)
    then obtain cp k bs y where u: "unicode_escape (hs @ s) = Some (cp, k)" "EncodeUtf8 cp = Some bs"
      "decode_string (drop k (hs @ s)) = Some y" "x = bs @ y"
      using less.prems by (auto split: option.splits)
    have "scalar (unat cp)" using unicode_escape_scalar [OF u(1)] .
    moreover from this have "bs = utf8 (unat cp)" using u(2) EncodeUtf8_eq [of cp] by (auto simp: scalar_def)
    moreover have "raw_text (drop k (hs @ s))"
    proof (cases "k = 4")
      case False
      with u(1) have "k = 10" and s: "2 \<le> length s" "s ! 0 = CHR 0x5C" "s ! 1 = CHR ''u''"
        using 5 by (auto simp: unicode_escape_def Let_def split: option.splits if_splits)
      from s have "s = CHR 0x5C # CHR ''u'' # drop 2 s" by (cases s; cases "tl s") auto
      with 5 have "raw_text (drop 4 (drop 2 s))" using raw_text_u by metis
      then show ?thesis using \<open>k = 10\<close> 5 by simp
    qed (use 5 in simp)
    ultimately show ?thesis using less.hyps [of "drop k (hs @ s)"] u 5 by auto
  qed
qed

lemma ParseString_valid: "ParseString s = Some (x, r) \<Longrightarrow> valid_utf8 x"
  using scan_string_raw decode_string_valid
  by (fastforce simp: ParseString_def split: list.splits if_splits option.splits)

section \<open>Numbers\<close>

text \<open>What may follow a number: the end, white space or punctuation.\<close>

definition ends_number :: "string \<Rightarrow> bool" where
  "ends_number t \<longleftrightarrow> t = [] \<or> \<not> is_digit (hd t) \<and> hd t \<notin> {CHR ''.'', CHR ''e'', CHR ''E''}"

definition int_part :: "string \<Rightarrow> bool" where
  "int_part ds \<longleftrightarrow> ds = ''0'' \<or> ds \<noteq> [] \<and> list_all is_digit ds \<and> hd ds \<noteq> CHR ''0''"

definition frac_part :: "string \<Rightarrow> bool" where
  "frac_part s \<longleftrightarrow> s = [] \<or> (\<exists>ds. s = CHR ''.'' # ds \<and> ds \<noteq> [] \<and> list_all is_digit ds)"

definition exp_part :: "string \<Rightarrow> bool" where
  "exp_part s \<longleftrightarrow> s = [] \<or> (\<exists>sg ds. s = CHR ''e'' # sg # ds \<and> sg \<in> {CHR ''+'', CHR ''-''} \<and> ds \<noteq> [] \<and> list_all is_digit ds)"

lemma is_digit_0 [simp]: "is_digit (CHR ''0'')"
  by (simp add: is_digit_def)

lemma scan_integer_part:
  assumes "int_part ds" "t = [] \<or> \<not> is_digit (hd t)"
  shows "scan_integer (ds @ t) = Some (ds, t)"
  using assms takeWhile_digits [of ds t]
  by (cases ds) (auto simp: int_part_def scan_integer_def)

lemma scan_fraction_part:
  assumes "frac_part fs" "t = [] \<or> \<not> is_digit (hd t) \<and> hd t \<noteq> CHR ''.''"
  shows "scan_fraction (fs @ t) = Some (fs, t)"
  using assms takeWhile_digits [of "tl fs" t]
  by (cases "tl fs") (auto simp: frac_part_def scan_fraction_def)

lemma scan_exp_part:
  assumes "exp_part es" "ends_number t"
  shows "scan_exp (es @ t) = Some (es, t)"
proof (cases "es = []")
  case True
  then show ?thesis using assms(2) by (auto simp: scan_exp_def ends_number_def)
next
  case False
  then obtain sg ds where es: "es = CHR ''e'' # sg # ds" "sg \<in> {CHR ''+'', CHR ''-''}" "ds \<noteq> []" "list_all is_digit ds"
    using assms(1) by (auto simp: exp_part_def)
  moreover have "is_digit (hd (ds @ t))" using es(3,4) by (cases ds) simp_all
  moreover have "takeWhile is_digit (ds @ t) = ds" "dropWhile is_digit (ds @ t) = t"
    using takeWhile_digits [OF es(4), of t] assms(2) by (auto simp: ends_number_def)
  ultimately show ?thesis by (simp add: scan_exp_def Let_def)
qed

lemma scan_number_parts:
  assumes "int_part ds" "frac_part fs" "exp_part es" "ends_number t" "sg = [] \<or> sg = ''-''"
  shows "scan_number (sg @ ds @ fs @ es @ t) = Some (sg @ ds @ fs @ es, fs \<noteq> [] \<or> es \<noteq> [], t)"
proof -
  have 1: "es @ t = [] \<or> \<not> is_digit (hd (es @ t)) \<and> hd (es @ t) \<noteq> CHR ''.''"
    using assms(3,4) by (auto simp: exp_part_def ends_number_def)
  have 2: "fs @ es @ t = [] \<or> \<not> is_digit (hd (fs @ es @ t))"
    using 1 assms(2) by (auto simp: frac_part_def)
  have 3: "ds \<noteq> [] \<and> hd ds \<noteq> CHR ''-''"
    using assms(1) by (cases ds) (auto simp: int_part_def is_digit_def)
  show ?thesis
    using assms(5) 3 scan_integer_part [OF assms(1) 2] scan_fraction_part [OF assms(2) 1] scan_exp_part [OF assms(3,4)]
    by (auto simp: scan_number_def Let_def)
qed

lemma int_part_show_nat: "int_part (show_nat n)"
  using hd_show_nat [of n] by (cases "n = 0") (simp_all add: int_part_def)

lemma all_digits_sub: "list_all is_digit (take k (show_nat n))" "list_all is_digit (drop k (show_nat n))"
  using show_nat_digits [of n] by (auto simp: list_all_iff dest: in_set_takeD in_set_dropD)

lemma sci_format_parts:
  assumes "0 < n"
  obtains ds fs es where "int_part ds" "frac_part fs" "exp_part es" "fs \<noteq> [] \<or> es \<noteq> []" "sci_format n e = ds @ fs @ es"
proof -
  obtain c cs where ds: "show_nat n = c # cs" and dig: "is_digit c" "list_all is_digit cs"
    using show_nat_split by blast
  define x where "x = e + int (length (show_nat n)) - 1"
  define xs where "xs = replicate (2 - length (show_nat (nat \<bar>x\<bar>))) (CHR ''0'') @ show_nat (nat \<bar>x\<bar>)"
  show thesis
  proof (rule that [of "[c]" "if cs = [] then [] else CHR ''.'' # cs" "[CHR ''e'', if x < 0 then CHR ''-'' else CHR ''+''] @ xs"])
    show "int_part [c]" using dig hd_show_nat [OF assms] ds by (simp add: int_part_def)
    show "frac_part (if cs = [] then [] else CHR ''.'' # cs)" using dig by (simp add: frac_part_def)
    show "exp_part ([CHR ''e'', if x < 0 then CHR ''-'' else CHR ''+''] @ xs)" by (simp add: exp_part_def xs_def)
  qed (simp_all add: sci_format_def Let_def ds xs_def x_def)
qed

lemma fixed_format_parts:
  assumes "0 < n" "e < 0"
  obtains ds fs es where "int_part ds" "frac_part fs" "exp_part es" "fs \<noteq> [] \<or> es \<noteq> []" "fixed_format d n e = ds @ fs @ es"
proof -
  define x where "x = e + int (length (show_nat n)) - 1"
  have exp0: "exp_part []" by (simp add: exp_part_def)
  show thesis
  proof (cases "0 \<le> x")
    case True
    let ?ds = "take (nat x + 1) (show_nat n)" and ?fs = "drop (nat x + 1) (show_nat n)"
    have "hd ?ds = hd (show_nat n)" "?ds \<noteq> []" by (cases "show_nat n"; simp)+
    then have "int_part ?ds" using all_digits_sub hd_show_nat [OF assms(1)] by (simp add: int_part_def)
    moreover have "?fs \<noteq> []" using True assms(2) by (simp add: x_def)
    then have "frac_part (CHR ''.'' # ?fs)" using all_digits_sub by (simp add: frac_part_def)
    ultimately show thesis
      using True assms(2) by (intro that [OF _ _ exp0]) (simp_all add: fixed_format_def Let_def x_def)
  next
    case False
    let ?fs = "CHR ''.'' # replicate (nat (- x - 1)) (CHR ''0'') @ show_nat n"
    have "int_part ''0''" by (simp add: int_part_def)
    moreover have "frac_part ?fs" by (simp add: frac_part_def)
    ultimately show thesis
      using False assms(2) by (intro that [of "''0''" ?fs "[]"] exp0) (simp_all add: fixed_format_def Let_def x_def)
  qed
qed

lemma to_chars_mag_parts:
  assumes "representable d" "0 \<le> d"
  obtains (integer) M where "d = of_nat M" "to_chars_mag d = show_nat M"
  | (float) ds fs es where "int_part ds" "frac_part fs" "exp_part es" "fs \<noteq> [] \<or> es \<noteq> []"
      "to_chars_mag d = ds @ fs @ es"
proof (cases "d = 0")
  case True
  then show thesis using integer [of 0] by (simp add: to_chars_mag_def)
next
  case False
  with assms obtain n e where ne: "shortest d = Some (n, e)" "0 < n" "round_mag (dec_value n e) = d"
    by (elim shortest_reads_back) simp
  consider "to_chars_mag d = sci_format n e" | "to_chars_mag d = fixed_format d n e" "e < 0"
    | "to_chars_mag d = fixed_format d n e" "0 \<le> e"
    using False ne(1) by (cases "0 \<le> e"; cases "length (fixed_format d n e) \<le> length (sci_format n e)")
      (simp_all add: to_chars_mag_def)
  then show thesis
  proof cases
    case 1
    then show ?thesis using sci_format_parts [OF ne(2), of e] float by metis
  next
    case 2
    then show ?thesis using fixed_format_parts [OF ne(2) 2(2), of d] float by metis
  next
    case 3
    obtain M where M: "d = of_nat M" using round_mag_of_nat ne(3) dec_value_nat [OF 3(2)] by metis
    then show ?thesis using 3 integer [of M] by (simp add: fixed_format_def Let_def)
  qed
qed

lemma int_part_start: "int_part ds \<Longrightarrow> \<exists>c cs. ds = c # cs \<and> is_digit c"
  by (cases ds) (auto simp: int_part_def)

lemma ParseNumber_show_nat:
  "n < 2 ^ 64 \<Longrightarrow> ends_number t \<Longrightarrow> ParseNumber (show_nat n @ t) = Some (JUInt64 (of_nat n), t)"
  using scan_number_parts [of "show_nat n" "[]" "[]" t "[]"] int_part_show_nat [of n]
  by (simp add: ParseNumber_def convert_number_def frac_part_def exp_part_def from_chars_show_nat)

lemma ParseNumber_negative:
  "n \<le> 2 ^ 63 \<Longrightarrow> ends_number t \<Longrightarrow> ParseNumber (CHR ''-'' # show_nat n @ t) = Some (JInt64 (of_int (- int n)), t)"
  using scan_number_parts [of "show_nat n" "[]" "[]" t "''-''"] int_part_show_nat [of n]
  by (simp add: ParseNumber_def convert_number_def frac_part_def exp_part_def from_chars_signed_def Let_def)

lemma ParseNumber_float:
  assumes "representable d" "0 \<le> d" "to_chars_mag d = ds @ fs @ es" "int_part ds" "frac_part fs" "exp_part es"
    "fs \<noteq> [] \<or> es \<noteq> []" "ends_number t"
  shows "ParseNumber (to_chars_double (Finite neg d) @ t) = Some (JDouble (Finite neg d), t)"
proof -
  let ?sg = "if neg then ''-'' else []"
  have "scan_number (to_chars_double (Finite neg d) @ t) = Some (to_chars_double (Finite neg d), True, t)"
    using scan_number_parts [OF assms(4-6,8), of ?sg] assms(3,7) by (cases neg) auto
  then show ?thesis
    using from_chars_to_chars [OF assms(1,2), of neg]
    by (simp add: ParseNumber_def convert_number_def parsed_whole_def del: to_chars_double.simps)
qed

section \<open>The normal form\<close>

fun norm_double :: "double \<Rightarrow> JSONValue" where
  "norm_double (Finite neg d) =
     (let s = to_chars_mag d
      in if \<not> list_all is_digit s then JDouble (Finite neg d)
         else if neg then JInt64 (of_int (- int (digits_val s))) else JUInt64 (of_nat (digits_val s)))"
| "norm_double d = JDouble d"

fun norm :: "JSONValue \<Rightarrow> JSONValue" where
  "norm (JInt64 v) = (if 0 \<le> sint v then JUInt64 v else JInt64 v)"
| "norm (JDouble d) = norm_double d"
| "norm (JString s) = JString (repair s)"
| "norm (JArray vs) = JArray (map norm vs)"
| "norm (JObject ms) = JObject (map (\<lambda>(k, v). (repair k, norm v)) ms)"
| "norm v = v"

text \<open>
  The doubles whose printed form the parser takes: finite ones, except those that print as an
  integer outside the 64-bit types.
\<close>

fun fits :: "double \<Rightarrow> bool" where
  "fits (Finite neg d) =
     (let s = to_chars_mag d
      in list_all is_digit s \<longrightarrow> (if neg then digits_val s \<le> 2 ^ 63 else digits_val s < 2 ^ 64))"
| "fits _ = False"

fun wf_doubles :: "JSONValue \<Rightarrow> bool" where
  "wf_doubles (JDouble d) = wf_double d"
| "wf_doubles (JArray vs) = list_all wf_doubles vs"
| "wf_doubles (JObject ms) = list_all (\<lambda>(k, v). wf_doubles v) ms"
| "wf_doubles _ = True"

fun printable :: "JSONValue \<Rightarrow> bool" where
  "printable (JDouble d) = fits d"
| "printable (JArray vs) = list_all printable vs"
| "printable (JObject ms) =
     (length ms \<le> 4096 \<and> distinct (map (repair \<circ> fst) ms) \<and> list_all (\<lambda>(k, v). printable v) ms)"
| "printable _ = True"

fun json_depth :: "JSONValue \<Rightarrow> nat" where
  "json_depth (JArray vs) = Suc (foldr (\<lambda>v. max (json_depth v)) vs 0)"
| "json_depth (JObject ms) = Suc (foldr (\<lambda>(k, v). max (json_depth v)) ms 0)"
| "json_depth _ = 1"

fun json_nodes :: "JSONValue \<Rightarrow> nat" where
  "json_nodes (JArray vs) = Suc (sum_list (map json_nodes vs))"
| "json_nodes (JObject ms) = Suc (sum_list (map (\<lambda>(k, v). json_nodes v) ms))"
| "json_nodes _ = 1"

lemma ParseNumber_double:
  assumes "representable d" "0 \<le> d" "fits (Finite neg d)" "ends_number t"
  shows "ParseNumber (to_chars_double (Finite neg d) @ t) = Some (norm_double (Finite neg d), t)"
  using assms(1,2)
proof (cases rule: to_chars_mag_parts)
  case (integer M)
  then show ?thesis using assms(3,4) ParseNumber_show_nat [of M t] ParseNumber_negative [of M t]
    by (cases neg) (simp_all add: Let_def)
next
  case (float ds fs es)
  then have "\<not> list_all is_digit (to_chars_mag d)" by (auto simp: frac_part_def exp_part_def)
  then show ?thesis using ParseNumber_float [OF assms(1,2) float(5,1-4) assms(4)] by (simp add: Let_def)
qed

section \<open>Parsing what was printed\<close>

lemma representable_nonneg: "representable r \<Longrightarrow> 0 \<le> r"
  by (auto simp: representable_def)

definition value_start :: "char \<Rightarrow> bool" where
  "value_start c \<longleftrightarrow> is_digit c \<or> c \<in> {CHR ''n'', CHR ''t'', CHR ''f'', CHR 0x22, CHR ''['', CHR ''{'', CHR ''-''}"

lemma value_start_simps:
  "value_start c \<Longrightarrow> \<not> is_ws c" "value_start c \<Longrightarrow> c \<noteq> CHR '']''" "value_start c \<Longrightarrow> c \<noteq> CHR ''}''"
  by (auto simp: value_start_def is_ws_def is_digit_def)

lemma starts_show_nat: "\<exists>c cs. show_nat n = c # cs \<and> value_start c"
  using show_nat_split [of n] by (auto simp: value_start_def)

lemma starts_mag:
  assumes "representable a"
  shows "\<exists>c cs. to_chars_mag a = c # cs \<and> is_digit c"
  using assms representable_nonneg [OF assms]
  by (cases rule: to_chars_mag_parts) (use show_nat_split int_part_start in fastforce)+

lemma starts_value:
  assumes "SerializeTo indent level v = Inr out" "wf_doubles v"
  shows "\<exists>c cs. out = c # cs \<and> value_start c"
proof (cases v)
  case (JDouble d)
  then obtain neg a where d: "d = Finite neg a" "representable a" using assms by (cases d) (auto split: if_splits)
  then show ?thesis using assms JDouble starts_mag [OF d(2)] by (cases neg) (auto simp: value_start_def)
next
  case (JInt64 x)
  then show ?thesis using assms starts_show_nat by (cases "sint x < 0") (auto simp: show_int_def value_start_def)
next
  case (JUInt64 x)
  then show ?thesis using assms starts_show_nat by auto
qed (use assms in \<open>auto simp: value_start_def AppendEscapedString_def rbind_Inr split: if_splits\<close>)

lemma ws_indent [simp]: "dropWhile is_ws (AppendIndent indent level @ t) = dropWhile is_ws t"
  by (auto simp: AppendIndent_def is_ws_def dropWhile_append)

lemma dropWhile_ws_value [simp]: "value_start c \<Longrightarrow> dropWhile is_ws (c # t) = c # t"
  by (simp add: value_start_simps)

lemma punctuation [simp]: "\<not> is_ws (CHR '']'')" "\<not> is_ws (CHR ''}'')" "\<not> is_ws (CHR '','')" "\<not> is_ws (CHR '':'')" "\<not> is_ws (CHR 0x22)"
  "is_ws (CHR '' '')"
  by (simp_all add: is_ws_def)

lemma ends_number_tail:
  "ends_number (CHR '','' # t)" "ends_number (AppendIndent indent level @ CHR '']'' # t)"
  "ends_number (AppendIndent indent level @ CHR ''}'' # t)" "ends_number []"
  by (auto simp: ends_number_def AppendIndent_def is_digit_def)

definition parses_to :: "string \<Rightarrow> JSONValue \<Rightarrow> bool" where
  "parses_to out v \<longleftrightarrow>
     (\<forall>st t. dropWhile is_ws (rest st) = out @ t \<and> ends_number t \<and> depth st + json_depth v \<le> 64 \<and>
        nodes st + json_nodes v \<le> 1000000 \<longrightarrow>
        ParseValue st = Some (norm v, st\<lparr>rest := t, nodes := nodes st + json_nodes v\<rparr>))"

lemma parses_toD:
  "parses_to out v \<Longrightarrow> dropWhile is_ws (rest st) = out @ t \<Longrightarrow> ends_number t \<Longrightarrow> depth st + json_depth v \<le> 64 \<Longrightarrow>
   nodes st + json_nodes v \<le> 1000000 \<Longrightarrow>
   ParseValue st = Some (norm v, st\<lparr>rest := t, nodes := nodes st + json_nodes v\<rparr>)"
  unfolding parses_to_def by blast

lemma number_start: "is_number_start (CHR ''-'')" "is_digit c \<Longrightarrow> is_number_start c"
  by (simp_all add: is_number_start_def)

lemma parses_to_number:
  assumes p: "\<And>t. ends_number t \<Longrightarrow> ParseNumber (out @ t) = Some (w, t)" and w: "w = norm v"
    and out: "out = c # cs" "is_number_start c" and n: "json_depth v = 1" "json_nodes v = 1"
  shows "parses_to out v"
proof -
  have c: "c \<noteq> CHR ''n''" "c \<noteq> CHR ''t''" "c \<noteq> CHR ''f''" "c \<noteq> CHR 0x22" "c \<noteq> CHR ''[''" "c \<noteq> CHR ''{''"
    using out(2) by (auto simp: is_number_start_def is_digit_def)
  show ?thesis
    unfolding parses_to_def
    using p c out n w by (auto simp: ParseValue.simps SkipWhitespace_def Peek_def on_rest_def leave_def)
qed

lemma parses_to_string: "parses_to (AppendEscapedString s) (JString s)"
proof -
  obtain b where b: "AppendEscapedString s = CHR 0x22 # b" by (simp add: AppendEscapedString_def)
  show ?thesis
    unfolding parses_to_def
    using ParseString_escaped [of s] b by (auto simp: ParseValue.simps SkipWhitespace_def Peek_def on_rest_def leave_def)
qed

lemma parses_to_literal:
  "parses_to ''null'' JNull" "parses_to ''true'' (JBool True)" "parses_to ''false'' (JBool False)"
  unfolding parses_to_def
  by (auto simp: ParseValue.simps SkipWhitespace_def Peek_def leave_def literal_def advance_def)

lemma parses_to_int: "parses_to (show_int (sint v)) (JInt64 v)"
proof (cases "sint v < 0")
  case True
  have b: "nat (- sint v) \<le> 2 ^ 63" using sint_ge [of v] by simp
  have "of_int (- int (nat (- sint v))) = v" using True by simp
  then show ?thesis
    using parses_to_number [of "show_int (sint v)" "JInt64 v" "JInt64 v" "CHR ''-''" "show_nat (nat (- sint v))"]
      ParseNumber_negative [OF b] True
    by (simp add: show_int_def number_start)
next
  case False
  have b: "nat (sint v) < 2 ^ 64" using sint_less [of v] by simp
  have "of_nat (nat (sint v)) = v" using False by simp
  moreover obtain c cs where cs: "show_nat (nat (sint v)) = c # cs" "is_digit c" using show_nat_split by blast
  ultimately have "parses_to (show_nat (nat (sint v))) (JInt64 v)"
    using ParseNumber_show_nat [OF b] False
    by (intro parses_to_number [OF _ _ cs(1) number_start(2) [OF cs(2)], of "JUInt64 v"]) simp_all
  then show ?thesis using False by (simp add: show_int_def)
qed

lemma parses_to_uint: "parses_to (show_nat (unat v)) (JUInt64 v)"
proof -
  obtain c cs where "show_nat (unat v) = c # cs" "is_digit c" using show_nat_split by blast
  moreover have "unat v < 2 ^ 64" using unsigned_less [of v] by simp
  ultimately show ?thesis
    using parses_to_number [of "show_nat (unat v)" "JUInt64 v" "JUInt64 v" c cs] ParseNumber_show_nat [of "unat v"]
    by (simp add: number_start)
qed

lemma norm_double_leaf: "json_depth (norm_double d) = 1" "json_nodes (norm_double d) = 1"
  by (cases d; simp add: Let_def)+

lemma parses_to_double:
  assumes "wf_double d" "fits d"
  shows "parses_to (to_chars_double d) (JDouble d)"
proof -
  obtain neg a where d: "d = Finite neg a" "representable a" "0 \<le> a"
    using assms representable_nonneg by (cases d) auto
  have "\<exists>c cs. to_chars_double d = c # cs \<and> is_number_start c"
    using starts_mag [OF d(2)] d(1) by (cases neg) (auto simp: is_number_start_def)
  moreover have "ends_number t \<Longrightarrow> ParseNumber (to_chars_double d @ t) = Some (norm_double d, t)" for t
    using ParseNumber_double [OF d(2,3), of neg t] assms(2) d(1) by simp
  ultimately show ?thesis by (elim exE conjE) (rule parses_to_number [of "to_chars_double d" "norm_double d"], simp_all)
qed

text \<open>The loops. \<open>items\<close> is the printed list with its separators.\<close>

lemma foldr_max_le: "foldr (\<lambda>v. max (f v)) vs (0::nat) \<le> b \<longleftrightarrow> (\<forall>v \<in> set vs. f v \<le> b)"
  by (induction vs) auto

lemma array_loop_items:
  assumes "serialize_items indent level vs = Inr body" "vs \<noteq> []"
    and "\<And>v out. v \<in> set vs \<Longrightarrow> SerializeTo indent (level + 1) v = Inr out \<Longrightarrow> parses_to out v"
    and "list_all wf_doubles vs"
    and "dropWhile is_ws (rest st) = dropWhile is_ws (body @ AppendIndent indent level @ CHR '']'' # t)"
    and "\<forall>v \<in> set vs. depth st + json_depth v \<le> 64" "nodes st + sum_list (map json_nodes vs) \<le> 1000000"
  shows "array_loop st arr =
    Some (JArray (arr @ map norm vs), st\<lparr>rest := t, nodes := nodes st + sum_list (map json_nodes vs)\<rparr>)"
  using assms
proof (induction vs arbitrary: st arr body)
  case (Cons v vs)
  from Cons.prems(1) obtain s r where s: "SerializeTo indent (level + 1) v = Inr s"
    and r: "serialize_items indent level vs = Inr r"
    and body: "body = AppendIndent indent (level + 1) @ s @ (if vs = [] then [] else '','') @ r"
    by (auto simp: rbind_Inr)
  obtain c cs where c: "s = c # cs" "value_start c"
    using starts_value [OF s] Cons.prems(4) by auto
  let ?t = "(if vs = [] then [] else '','') @ r @ AppendIndent indent level @ CHR '']'' # t"
  let ?st = "st\<lparr>rest := ?t, nodes := nodes st + json_nodes v\<rparr>"
  have "dropWhile is_ws (rest st) = s @ ?t"
    using Cons.prems(5) c value_start_simps(1) [OF c(2)] by (simp add: body)
  moreover have "ends_number ?t" using r ends_number_tail by auto
  ultimately have pv: "ParseValue st = Some (norm v, ?st)"
    using Cons.prems(3) [OF _ s] Cons.prems(6,7) by (simp add: parses_to_def)
  show ?case
  proof (cases "vs = []")
    case True
    then show ?thesis using pv r
      by (simp add: array_loop.simps SkipWhitespace_def Peek_def advance_def)
  next
    case False
    let ?st2 = "SkipWhitespace (st\<lparr>rest := r @ AppendIndent indent level @ CHR '']'' # t, nodes := nodes st + json_nodes v\<rparr>)"
    obtain v' vs' where vs: "vs = v' # vs'" using False by (cases vs) auto
    have pk: "Peek ?st2 \<noteq> CHR '']''"
    proof -
      from r vs obtain s' r' where s': "SerializeTo indent (level + 1) v' = Inr s'"
        "r = AppendIndent indent (level + 1) @ s' @ r'"
        by (auto simp: rbind_Inr)
      moreover obtain c' cs' where "s' = c' # cs'" "value_start c'"
        using starts_value [OF s'(1)] Cons.prems(4) vs by auto
      ultimately show ?thesis by (simp add: SkipWhitespace_def Peek_def value_start_simps)
    qed
    have "array_loop ?st2 (arr @ [norm v]) =
      Some (JArray ((arr @ [norm v]) @ map norm vs), ?st2\<lparr>rest := t, nodes := nodes ?st2 + sum_list (map json_nodes vs)\<rparr>)"
      using Cons.prems by (intro Cons.IH [OF r False]) (auto simp: SkipWhitespace_def)
    moreover have "array_loop st arr = array_loop ?st2 (arr @ [norm v])"
      using pv False pk by (subst array_loop.simps) (simp add: SkipWhitespace_def Peek_def advance_def)
    ultimately show ?thesis by (simp add: SkipWhitespace_def add.assoc)
  qed
qed simp

lemma object_loop_members:
  assumes "serialize_members indent level ms = Inr body" "ms \<noteq> []"
    and "\<And>k v out. (k, v) \<in> set ms \<Longrightarrow> SerializeTo indent (level + 1) v = Inr out \<Longrightarrow> parses_to out v"
    and "list_all (\<lambda>(k, v). wf_doubles v) ms"
    and "dropWhile is_ws (rest st) = dropWhile is_ws (body @ AppendIndent indent level @ CHR ''}'' # t)"
    and "\<forall>(k, v) \<in> set ms. depth st + json_depth v \<le> 64"
    and "nodes st + sum_list (map (\<lambda>(k, v). json_nodes v) ms) \<le> 1000000"
    and "length keys + length ms \<le> 4096" "distinct (map (repair \<circ> fst) ms)"
    and "set keys \<inter> (repair \<circ> fst) ` set ms = {}"
  shows "object_loop st obj keys =
    Some (JObject (obj @ map (\<lambda>(k, v). (repair k, norm v)) ms),
      st\<lparr>rest := t, nodes := nodes st + sum_list (map (\<lambda>(k, v). json_nodes v) ms)\<rparr>)"
  using assms
proof (induction ms arbitrary: st obj keys body)
  case (Cons m ms)
  obtain k v where m: "m = (k, v)" by (cases m)
  from Cons.prems(1) obtain s r where s: "SerializeTo indent (level + 1) v = Inr s"
    and r: "serialize_members indent level ms = Inr r"
    and body: "body = AppendIndent indent (level + 1) @ AppendEscapedString k @
      (if 0 \<le> indent then '': '' else '':'') @ s @ (if ms = [] then [] else '','') @ r"
    by (auto simp: rbind_Inr m)
  obtain c cs where c: "s = c # cs" "value_start c"
    using starts_value [OF s] Cons.prems(4) m by auto
  obtain kq where kq: "AppendEscapedString k = CHR 0x22 # kq" by (simp add: AppendEscapedString_def)
  let ?t = "(if ms = [] then [] else '','') @ r @ AppendIndent indent level @ CHR ''}'' # t"
  let ?sp = "if 0 \<le> indent then '' '' else []"
  let ?st = "st\<lparr>rest := ?t, nodes := nodes st + json_nodes v\<rparr>"
  let ?st1 = "st\<lparr>rest := CHR '':'' # ?sp @ s @ ?t\<rparr>"
  have key: "on_rest ParseString (SkipWhitespace st) = Some (repair k, ?st1)"
    using Cons.prems(5) kq ParseString_escaped [of k "CHR '':'' # ?sp @ s @ ?t"]
    by (simp add: body SkipWhitespace_def on_rest_def split: if_splits)
  have colon: "Expect (CHR '':'') (SkipWhitespace ?st1) = Some (st\<lparr>rest := ?sp @ s @ ?t\<rparr>)"
    by (simp add: SkipWhitespace_def Expect_def)
  have fresh: "\<not> (length keys \<ge> 4096 \<or> repair k \<in> set keys)"
    using Cons.prems(8,10) m by auto
  have "ends_number ?t" using r ends_number_tail by auto
  moreover have ws: "dropWhile is_ws (s @ T) = s @ T" for T
    using c value_start_simps(1) [OF c(2)] by simp
  ultimately have pv': "ParseValue (st\<lparr>rest := s @ ?t\<rparr>) = Some (norm v, ?st)"
    using parses_toD [OF Cons.prems(3) [of k v, OF _ s], of "st\<lparr>rest := s @ ?t\<rparr>" ?t] Cons.prems(6,7) m
    by (simp del: ParseValue.simps if_split)
  have skip: "SkipWhitespace (st\<lparr>rest := ?sp @ s @ T\<rparr>) = st\<lparr>rest := s @ T\<rparr>" for T
    using ws by (simp add: SkipWhitespace_def)
  have pv: "ParseValue (SkipWhitespace (st\<lparr>rest := ?sp @ s @ ?t\<rparr>)) = Some (norm v, ?st)"
    unfolding skip by (rule pv')
  have step: "object_loop st obj keys =
    (let st' = SkipWhitespace ?st; c = Peek st'
     in if c = CHR ''}'' then Some (JObject (obj @ [(repair k, norm v)]), advance 1 st')
        else if c = CHR '','' then
          (let st4 = SkipWhitespace (advance 1 st')
           in if Peek st4 = CHR ''}'' then None
              else object_loop st4 (obj @ [(repair k, norm v)]) (repair k # keys))
        else None)"
    by (subst object_loop.simps) (simp only: key fresh colon pv option.case prod.case if_False)
  show ?case
  proof (cases "ms = []")
    case True
    then show ?thesis using r m
      by (simp add: step SkipWhitespace_def Peek_def advance_def)
  next
    case False
    let ?st2 = "SkipWhitespace (st\<lparr>rest := r @ AppendIndent indent level @ CHR ''}'' # t, nodes := nodes st + json_nodes v\<rparr>)"
    obtain k' v' ms' where ms: "ms = (k', v') # ms'" using False by (cases ms) auto
    have pk: "Peek ?st2 \<noteq> CHR ''}''"
      using r ms by (auto simp: rbind_Inr AppendEscapedString_def SkipWhitespace_def Peek_def)
    have "object_loop ?st2 (obj @ [(repair k, norm v)]) (repair k # keys) =
      Some (JObject ((obj @ [(repair k, norm v)]) @ map (\<lambda>(k, v). (repair k, norm v)) ms),
        ?st2\<lparr>rest := t, nodes := nodes ?st2 + sum_list (map (\<lambda>(k, v). json_nodes v) ms)\<rparr>)"
      using Cons.prems m by (intro Cons.IH [OF r False]) (auto simp: SkipWhitespace_def image_iff)
    moreover have "object_loop st obj keys = object_loop ?st2 (obj @ [(repair k, norm v)]) (repair k # keys)"
      using False pk by (simp add: step SkipWhitespace_def Peek_def advance_def)
    ultimately show ?thesis by (simp add: SkipWhitespace_def add.assoc m)
  qed
qed simp

lemma parses_to_array:
  assumes "SerializeTo indent level (JArray vs) = Inr out" "list_all wf_doubles vs"
    and "\<And>v out. v \<in> set vs \<Longrightarrow> SerializeTo indent (level + 1) v = Inr out \<Longrightarrow> parses_to out v"
  shows "parses_to out (JArray vs)"
proof (cases "vs = []")
  case True
  then show ?thesis using assms(1) unfolding parses_to_def
    by (auto simp: ParseValue.simps ParseArray.simps SkipWhitespace_def Peek_def Expect_def advance_def leave_def)
next
  case False
  then obtain body where body: "serialize_items indent level vs = Inr body"
    "out = ''['' @ body @ AppendIndent indent level @ '']''"
    using assms(1) by (auto simp: rbind_Inr split: if_splits)
  obtain v' vs' where vs: "vs = v' # vs'" using False by (cases vs) auto
  from body(1) vs obtain s r where s: "SerializeTo indent (level + 1) v' = Inr s"
    "body = AppendIndent indent (level + 1) @ s @ r" by (auto simp: rbind_Inr)
  obtain c cs where c: "s = c # cs" "value_start c" using starts_value [OF s(1)] assms(2) vs by auto
  show ?thesis
    unfolding parses_to_def
  proof (intro allI impI, elim conjE)
    fix st :: ParserState and t
    assume st: "dropWhile is_ws (rest st) = out @ t" "depth st + json_depth (JArray vs) \<le> 64"
      "nodes st + json_nodes (JArray vs) \<le> 1000000"
    let ?st = "st\<lparr>nodes := nodes st + 1, depth := depth st + 1, rest := c # cs @ r @ AppendIndent indent level @ CHR '']'' # t\<rparr>"
    have d: "\<forall>v \<in> set vs. depth st + 1 + json_depth v \<le> 64"
      using st(2) foldr_max_le [of json_depth vs "63 - depth st"] by fastforce
    have "array_loop ?st [] = Some (JArray ([] @ map norm vs), ?st\<lparr>rest := t, nodes := nodes ?st + sum_list (map json_nodes vs)\<rparr>)"
      using st d c s by (intro array_loop_items [OF body(1) False assms(3) assms(2)]) simp_all
    then show "ParseValue st = Some (norm (JArray vs), st\<lparr>rest := t, nodes := nodes st + json_nodes (JArray vs)\<rparr>)"
      using st body c s value_start_simps [OF c(2)]
      by (simp add: ParseValue.simps ParseArray.simps SkipWhitespace_def Peek_def Expect_def leave_def)
  qed
qed

lemma foldr_max_members: "foldr (\<lambda>(k, v). max (f v)) ms (0::nat) \<le> b \<longleftrightarrow> (\<forall>(k, v) \<in> set ms. f v \<le> b)"
  by (induction ms) auto

lemma parses_to_object:
  assumes "SerializeTo indent level (JObject ms) = Inr out" "list_all (\<lambda>(k, v). wf_doubles v) ms"
    and "length ms \<le> 4096" "distinct (map (repair \<circ> fst) ms)"
    and "\<And>k v out. (k, v) \<in> set ms \<Longrightarrow> SerializeTo indent (level + 1) v = Inr out \<Longrightarrow> parses_to out v"
  shows "parses_to out (JObject ms)"
proof (cases "ms = []")
  case True
  then show ?thesis using assms(1) unfolding parses_to_def
    by (auto simp: ParseValue.simps ParseObject.simps SkipWhitespace_def Peek_def Expect_def advance_def leave_def)
next
  case False
  then obtain body where body: "serialize_members indent level ms = Inr body"
    "out = ''{'' @ body @ AppendIndent indent level @ ''}''"
    using assms(1) by (auto simp: rbind_Inr split: if_splits)
  obtain k v ms' where ms: "ms = (k, v) # ms'" using False by (cases ms) auto
  from body(1) ms obtain r where r: "body = AppendIndent indent (level + 1) @ CHR 0x22 # r"
    by (auto simp: rbind_Inr AppendEscapedString_def)
  show ?thesis
    unfolding parses_to_def
  proof (intro allI impI, elim conjE)
    fix st :: ParserState and t
    assume st: "dropWhile is_ws (rest st) = out @ t" "depth st + json_depth (JObject ms) \<le> 64"
      "nodes st + json_nodes (JObject ms) \<le> 1000000"
    let ?st = "st\<lparr>nodes := nodes st + 1, depth := depth st + 1, rest := CHR 0x22 # r @ AppendIndent indent level @ CHR ''}'' # t\<rparr>"
    have d: "\<forall>(k, v) \<in> set ms. depth st + 1 + json_depth v \<le> 64"
      using st(2) foldr_max_members [of json_depth ms "63 - depth st"] by fastforce
    have "object_loop ?st [] [] =
      Some (JObject ([] @ map (\<lambda>(k, v). (repair k, norm v)) ms), ?st\<lparr>rest := t, nodes := nodes ?st + sum_list (map (\<lambda>(k, v). json_nodes v) ms)\<rparr>)"
      using st d r assms(3,4) by (intro object_loop_members [OF body(1) False assms(5) assms(2)]) simp_all
    then show "ParseValue st = Some (norm (JObject ms), st\<lparr>rest := t, nodes := nodes st + json_nodes (JObject ms)\<rparr>)"
      using st body r
      by (simp add: ParseValue.simps ParseObject.simps SkipWhitespace_def Peek_def Expect_def leave_def)
  qed
qed

lemma serialized_parses:
  "SerializeTo indent level v = Inr out \<Longrightarrow> wf_doubles v \<Longrightarrow> printable v \<Longrightarrow> parses_to out v"
proof (induction v arbitrary: level out)
  case (JBool b)
  then show ?case using parses_to_literal by (cases b) auto
next
  case (JDouble d)
  then show ?case using parses_to_double by (auto split: if_splits)
next
  case (JArray vs)
  then show ?case by (intro parses_to_array) (auto simp: list_all_iff)
next
  case (JObject ms)
  show ?case
  proof (rule parses_to_object [OF JObject.prems(1)])
    fix k v out'
    assume "(k, v) \<in> set ms" "SerializeTo indent (level + 1) v = Inr out'"
    then show "parses_to out' v"
      using JObject.IH [of "(k, v)" v "level + 1" out'] JObject.prems by (auto simp: list_all_iff)
  qed (use JObject.prems in \<open>auto simp: list_all_iff\<close>)
qed (use parses_to_literal parses_to_int parses_to_uint parses_to_string in auto)

lemma Parse_printed:
  assumes "ToString v indent = Inr out" "wf_doubles v" "printable v"
    and "json_depth v \<le> 64" "json_nodes v \<le> 1000000" "length out \<le> 8 * 1024 * 1024"
  shows "Parse out = Some (norm v)"
proof -
  have out: "SerializeTo indent 0 v = Inr out" using assms(1) by (simp add: ToString_def)
  obtain c cs where c: "out = c # cs" "value_start c" using starts_value [OF out assms(2)] by blast
  have "ParseValue \<lparr>rest = out, depth = 0, nodes = 0\<rparr> = Some (norm v, \<lparr>rest = [], depth = 0, nodes = json_nodes v\<rparr>)"
    using parses_toD [OF serialized_parses [OF out assms(2,3)], of "\<lparr>rest = out, depth = 0, nodes = 0\<rparr>" "[]"]
      assms(4,5) c value_start_simps(1) [OF c(2)] ends_number_tail(4) by simp
  then show ?thesis using assms(6) by (simp add: Parse_def SkipWhitespace_def)
qed

section \<open>Properties\<close>

text \<open>
  C5: every value the serializer prints, with any indentation, is read back by the parser as its
  normal form, as long as the document stays within the parser's limits (8 MiB, 64 levels, a
  million nodes, 4096 distinct keys per object, no integer-looking number beyond 64 bits).
\<close>

theorem json_roundtrip:
  assumes "ToString v indent = Inr out" "wf_doubles v" "printable v"
    and "json_depth v \<le> 64" "json_nodes v \<le> 1000000" "length out \<le> 8 * 1024 * 1024"
  shows "Parse out = Some (norm v)"
  using assms by (rule Parse_printed)

lemma representable_half: "representable (1 / 2)"
  unfolding representable_def by (intro conjI exI [of _ 1] exI [of _ "- 1"]) simp_all

theorem json_roundtrip_witness:
  "let v = JObject [(''pid'', JInt64 7), (''load'', JArray [JDouble (Finite False (1 / 2)), JInt64 (- 3)]), (''a'', JString [CHR 0x0A])];
       q = [CHR 0x22];
       out = ''{'' @ q @ ''pid'' @ q @ '':7,'' @ q @ ''load'' @ q @ '':[0.5,-3],'' @ q @ ''a'' @ q @ '':'' @ q @ [CHR 0x5C, CHR ''n''] @ q @ ''}''
   in ToString v (- 1) = Inr out \<and>
      Parse out = Some (JObject [(''pid'', JUInt64 7), (''load'', JArray [JDouble (Finite False (1 / 2)), JInt64 (- 3)]), (''a'', JString [CHR 0x0A])])"
proof -
  let ?v = "JObject [(''pid'', JInt64 7), (''load'', JArray [JDouble (Finite False (1 / 2)), JInt64 (- 3)]), (''a'', JString [CHR 0x0A])]"
  let ?q = "[CHR 0x22]"
  let ?out = "''{'' @ ?q @ ''pid'' @ ?q @ '':7,'' @ ?q @ ''load'' @ ?q @ '':[0.5,-3],'' @ ?q @ ''a'' @ ?q @ '':'' @ ?q @ [CHR 0x5C, CHR ''n''] @ ?q @ ''}''"
  have 1: "ToString ?v (- 1) = Inr ?out" by code_simp
  have 2: "wf_doubles ?v" using representable_half by simp
  have half: "to_chars_mag (1 / 2) = ''0.5''" by code_simp
  have 3: "printable ?v" "json_depth ?v \<le> 64" "json_nodes ?v \<le> 1000000" "length ?out \<le> 8 * 1024 * 1024"
    by (simp_all add: half Let_def)
  have "norm ?v = JObject [(''pid'', JUInt64 7), (''load'', JArray [JDouble (Finite False (1 / 2)), JInt64 (- 3)]), (''a'', JString [CHR 0x0A])]"
    by (simp add: half Let_def)
  then show ?thesis using json_roundtrip [OF 1 2 3] 1 by simp
qed

end
