(* ===== verification/Json_Accepted.thy ===== *)
theory Json_Accepted
  imports Json_Roundtrip
begin

text \<open>
  What the parser guarantees of every document it accepts: strings and keys are UTF-8, doubles are
  finite, keys are unique, and nesting, size and key count are within the limits the code states.
\<close>

section \<open>Accepted values\<close>

text \<open>What every value that comes out of the parser satisfies.\<close>

fun json_ok :: "JSONValue \<Rightarrow> bool" where
  "json_ok (JDouble d) = (isfinite d \<and> wf_double d)"
| "json_ok (JString s) = valid_utf8 s"
| "json_ok (JArray vs) = list_all json_ok vs"
| "json_ok (JObject ms) =
     (length ms \<le> 4096 \<and> distinct (map fst ms) \<and> list_all (\<lambda>(k, v). valid_utf8 k \<and> json_ok v) ms)"
| "json_ok _ = True"

lemma from_chars_double_wf: "fst (from_chars_double s) = Inr d \<Longrightarrow> wf_double d"
  by (auto simp: from_chars_double_def Let_def dec_value_def intro!: wf_to_double split: if_splits option.splits prod.splits)

lemma parsed_whole_Some: "parsed_whole r = Some x \<longleftrightarrow> r = (Inr x, [])"
  by (auto simp: parsed_whole_def split: prod.splits sum.splits list.splits)

lemma convert_number_ok:
  "convert_number s f = Some v \<Longrightarrow> json_ok v \<and> json_depth v = 1 \<and> json_nodes v = 1"
  using from_chars_double_wf [of s]
  by (auto simp: convert_number_def parsed_whole_Some split: option.splits if_splits sum.splits)

lemma ParseNumber_ok:
  "ParseNumber s = Some (v, r) \<Longrightarrow> json_ok v \<and> json_depth v = 1 \<and> json_nodes v = 1"
  by (auto simp: ParseNumber_def dest!: convert_number_ok split: option.splits)

text \<open>A step of the parser from \<open>st\<close> to \<open>st'\<close> that produced nodes for \<open>n\<close> values.\<close>

definition counted :: "ParserState \<Rightarrow> nat \<Rightarrow> ParserState \<Rightarrow> bool" where
  "counted st n st' \<longleftrightarrow> depth st' = depth st \<and> nodes st' = nodes st + n \<and> (nodes st \<le> 1000000 \<longrightarrow> nodes st' \<le> 1000000)"

lemma counted_frame [simp]:
  "depth (SkipWhitespace st) = depth st" "nodes (SkipWhitespace st) = nodes st"
  "depth (advance n st) = depth st" "nodes (advance n st) = nodes st"
  by (simp_all add: SkipWhitespace_def advance_def)

lemma on_rest_frame: "on_rest p st = Some (x, st') \<Longrightarrow> depth st' = depth st \<and> nodes st' = nodes st \<and> (\<exists>r. p (rest st) = Some (x, r))"
  by (auto simp: on_rest_def split: option.splits)

lemma Expect_frame: "Expect c st = Some st' \<Longrightarrow> depth st' = depth st \<and> nodes st' = nodes st"
  by (auto simp: Expect_def split: list.splits if_splits)

lemma literal_frame: "literal w x st = Some (v, st') \<Longrightarrow> v = x \<and> depth st' = depth st \<and> nodes st' = nodes st"
  by (auto simp: literal_def split: if_splits)

lemma ParseValue_cases:
  assumes "ParseValue st0 = Some (v, st')"
  obtains st st2 where "st = SkipWhitespace (st0\<lparr>nodes := nodes st0 + 1, depth := depth st0 + 1\<rparr>)"
    "depth st0 < 64" "nodes st0 < 1000000" "st' = st2\<lparr>depth := depth st2 - 1\<rparr>"
    "depth st2 = depth st \<and> nodes st2 = nodes st \<and> json_ok v \<and> json_depth v = 1 \<and> json_nodes v = 1 \<or>
     Peek st = CHR ''['' \<and> ParseArray st = Some (v, st2) \<or> Peek st = CHR ''{'' \<and> ParseObject st = Some (v, st2)"
proof -
  define st where "st = SkipWhitespace (st0\<lparr>nodes := nodes st0 + 1, depth := depth st0 + 1\<rparr>)"
  from assms have guard: "depth st0 < 64" "nodes st0 < 1000000"
    by (auto simp: ParseValue.simps split: if_splits)
  with assms obtain st2 where st2: "st' = st2\<lparr>depth := depth st2 - 1\<rparr>" and
    r: "(if Peek st = CHR ''n'' then literal ''null'' JNull st
           else if Peek st = CHR ''t'' then literal ''true'' (JBool True) st
           else if Peek st = CHR ''f'' then literal ''false'' (JBool False) st
           else if Peek st = CHR 0x22 then map_option (\<lambda>(s, st'). (JString s, st')) (on_rest ParseString st)
           else if Peek st = CHR ''['' then ParseArray st
           else if Peek st = CHR ''{'' then ParseObject st
           else if is_number_start (Peek st) then on_rest ParseNumber st
           else None) = Some (v, st2)"
    by (auto simp: ParseValue.simps st_def Let_def leave_Some split: if_splits)
  have "depth st2 = depth st \<and> nodes st2 = nodes st \<and> json_ok v \<and> json_depth v = 1 \<and> json_nodes v = 1 \<or>
     Peek st = CHR ''['' \<and> ParseArray st = Some (v, st2) \<or> Peek st = CHR ''{'' \<and> ParseObject st = Some (v, st2)"
    using r ParseNumber_ok ParseString_valid
    by (fastforce split: if_splits dest!: literal_frame on_rest_frame)
  with guard st2 show thesis by (intro that [OF st_def]) auto
qed

text \<open>What the loops maintain about the values they have collected.\<close>

definition collected :: "nat \<Rightarrow> JSONValue list \<Rightarrow> bool" where
  "collected d vs \<longleftrightarrow> (\<forall>v \<in> set vs. json_ok v \<and> d + json_depth v \<le> 64)"

definition collected_members :: "nat \<Rightarrow> (string \<times> JSONValue) list \<Rightarrow> string list \<Rightarrow> bool" where
  "collected_members d ms keys \<longleftrightarrow>
     collected d (map snd ms) \<and> list_all valid_utf8 keys \<and> keys = rev (map fst ms) \<and> distinct keys \<and> length keys \<le> 4096"

lemma members_ok:
  assumes "collected_members d ms keys" "d \<le> 64"
  shows "json_ok (JObject ms)" "d + json_depth (JObject ms) \<le> 65"
    "json_nodes (JObject ms) = Suc (sum_list (map (\<lambda>m. json_nodes (snd m)) ms))"
proof -
  have m: "\<forall>(k, v) \<in> set ms. valid_utf8 k \<and> json_ok v \<and> d + json_depth v \<le> 64"
    using assms(1) by (fastforce simp: collected_members_def collected_def list_all_iff)
  with assms(1) show "json_ok (JObject ms)"
    by (fastforce simp: collected_members_def list_all_iff)
  have "foldr (\<lambda>(k, v). max (json_depth v)) ms 0 \<le> 64 - d"
    unfolding foldr_max_members using m by fastforce
  with assms(2) show "d + json_depth (JObject ms) \<le> 65" by simp
  show "json_nodes (JObject ms) = Suc (sum_list (map (\<lambda>m. json_nodes (snd m)) ms))"
    by (simp add: case_prod_beta')
qed

lemma accepted_values:
  "\<forall>v st'. ParseValue st = Some (v, st') \<longrightarrow>
     json_ok v \<and> depth st + json_depth v \<le> 64 \<and> counted st (json_nodes v) st'"
  "\<forall>v st'. ParseArray st = Some (v, st') \<longrightarrow> depth st \<le> 64 \<longrightarrow>
     json_ok v \<and> depth st + json_depth v \<le> 65 \<and> counted st (json_nodes v - 1) st'"
  "\<forall>v st'. array_loop st arr = Some (v, st') \<longrightarrow> collected (depth st) arr \<longrightarrow>
     (\<exists>vs. v = JArray (arr @ vs) \<and> collected (depth st) (arr @ vs) \<and> counted st (sum_list (map json_nodes vs)) st')"
  "\<forall>v st'. ParseObject st = Some (v, st') \<longrightarrow> depth st \<le> 64 \<longrightarrow>
     json_ok v \<and> depth st + json_depth v \<le> 65 \<and> counted st (json_nodes v - 1) st'"
  "\<forall>v st'. object_loop st obj keys = Some (v, st') \<longrightarrow> collected_members (depth st) obj keys \<longrightarrow>
     (\<exists>ms keys'. v = JObject (obj @ ms) \<and> collected_members (depth st) (obj @ ms) keys' \<and>
        counted st (sum_list (map (\<lambda>m. json_nodes (snd m)) ms)) st')"
proof (induction st and st and st arr and st and st obj keys
    rule: ParseValue_ParseArray_array_loop_ParseObject_object_loop.induct)
  case (1 st0)
  show ?case
  proof (intro allI impI)
    fix v st'
    assume "ParseValue st0 = Some (v, st')"
    then obtain st st2 where c: "st = SkipWhitespace (st0\<lparr>nodes := nodes st0 + 1, depth := depth st0 + 1\<rparr>)"
      "depth st0 < 64" "nodes st0 < 1000000" "st' = st2\<lparr>depth := depth st2 - 1\<rparr>"
      "depth st2 = depth st \<and> nodes st2 = nodes st \<and> json_ok v \<and> json_depth v = 1 \<and> json_nodes v = 1 \<or>
       Peek st = CHR ''['' \<and> ParseArray st = Some (v, st2) \<or> Peek st = CHR ''{'' \<and> ParseObject st = Some (v, st2)"
      by (rule ParseValue_cases)
    then have g: "\<not> (depth st0 \<ge> 64 \<or> nodes st0 + 1 > 1000000)" by simp
    have nz: "json_nodes v > 0" by (cases v) simp_all
    show "json_ok v \<and> depth st0 + json_depth v \<le> 64 \<and> counted st0 (json_nodes v) st'"
      using c(5)
    proof (elim disjE conjE)
      assume "Peek st = CHR ''[''" "ParseArray st = Some (v, st2)"
      then show ?thesis using 1(1) [OF g c(1) refl] c(1-4) nz by (auto simp: counted_def)
    next
      assume "Peek st = CHR ''{''" "ParseObject st = Some (v, st2)"
      then show ?thesis using 1(2) [OF g c(1) refl] c(1-4) nz by (auto simp: counted_def)
    qed (use c in \<open>auto simp: counted_def\<close>)
  qed
next
  case (2 st0)
  show ?case
  proof (intro allI impI)
    fix v st'
    assume p: "ParseArray st0 = Some (v, st')" and d: "depth st0 \<le> 64"
    then obtain st1 where st1: "Expect (CHR ''['') st0 = Some st1" by (auto simp: ParseArray.simps split: option.splits)
    note fr = Expect_frame [OF st1]
    show "json_ok v \<and> depth st0 + json_depth v \<le> 65 \<and> counted st0 (json_nodes v - 1) st'"
    proof (cases "Peek (SkipWhitespace st1) = CHR '']''")
      case True
      then show ?thesis using p st1 fr d by (auto simp: ParseArray.simps counted_def)
    next
      case False
      with p st1 have "array_loop (SkipWhitespace st1) [] = Some (v, st')" by (simp add: ParseArray.simps Let_def)
      then obtain vs where "v = JArray vs" "collected (depth st0) vs" "counted st0 (sum_list (map json_nodes vs)) st'"
        using 2 [OF st1 refl False] fr by (auto simp: collected_def counted_def)
      then show ?thesis using foldr_max_le [of json_depth vs "64 - depth st0"] d
        by (fastforce simp: collected_def list_all_iff)
    qed
  qed
next
  case (3 st0 arr)
  show ?case
  proof (intro allI impI)
    fix v st'
    assume p: "array_loop st0 arr = Some (v, st')" and c: "collected (depth st0) arr"
    then obtain x st1 where x: "ParseValue st0 = Some (x, st1)" by (auto simp: array_loop.simps split: option.splits)
    then have x': "json_ok x" "depth st0 + json_depth x \<le> 64" "counted st0 (json_nodes x) st1" using 3(1) by auto
    have c': "collected (depth st0) (arr @ [x])" using c x' by (auto simp: collected_def)
    show "\<exists>vs. v = JArray (arr @ vs) \<and> collected (depth st0) (arr @ vs) \<and> counted st0 (sum_list (map json_nodes vs)) st'"
    proof (cases "Peek (SkipWhitespace st1) = CHR '']''")
      case True
      then show ?thesis using p x x' c' by (intro exI [of _ "[x]"]) (auto simp: array_loop.simps counted_def)
    next
      case False
      let ?st2 = "SkipWhitespace (advance 1 (SkipWhitespace st1))"
      from p x False have comma: "Peek (SkipWhitespace st1) = CHR '',''" and no: "Peek ?st2 \<noteq> CHR '']''"
        and l: "array_loop ?st2 (arr @ [x]) = Some (v, st')"
        by (auto simp: array_loop.simps Let_def split: if_splits)
      have "collected (depth ?st2) (arr @ [x])" using c' x'(3) by (simp add: counted_def)
      then obtain vs where "v = JArray ((arr @ [x]) @ vs)" "collected (depth ?st2) ((arr @ [x]) @ vs)"
        "counted ?st2 (sum_list (map json_nodes vs)) st'"
        using 3(2) [OF x refl refl refl False comma refl no] l by blast
      then show ?thesis using x'(3) by (intro exI [of _ "x # vs"]) (auto simp: counted_def)
    qed
  qed
next
  case (4 st0)
  show ?case
  proof (intro allI impI)
    fix v st'
    assume p: "ParseObject st0 = Some (v, st')" and d: "depth st0 \<le> 64"
    then obtain st1 where st1: "Expect (CHR ''{'') st0 = Some st1" by (auto simp: ParseObject.simps split: option.splits)
    note fr = Expect_frame [OF st1]
    show "json_ok v \<and> depth st0 + json_depth v \<le> 65 \<and> counted st0 (json_nodes v - 1) st'"
    proof (cases "Peek (SkipWhitespace st1) = CHR ''}''")
      case True
      then show ?thesis using p st1 fr d by (auto simp: ParseObject.simps counted_def)
    next
      case False
      with p st1 have "object_loop (SkipWhitespace st1) [] [] = Some (v, st')" by (simp add: ParseObject.simps Let_def)
      moreover have "collected_members (depth st0) [] []" by (simp add: collected_members_def collected_def)
      ultimately obtain ms keys where "v = JObject ms" "collected_members (depth st0) ms keys"
        "counted st0 (sum_list (map (\<lambda>m. json_nodes (snd m)) ms)) st'"
        using 4 [OF st1 refl False] fr by (auto simp: counted_def)
      then show ?thesis using members_ok [of "depth st0" ms keys] d by auto
    qed
  qed
next
  case (5 st0 obj keys)
  show ?case
  proof (intro allI impI)
    fix v st'
    assume p: "object_loop st0 obj keys = Some (v, st')" and c: "collected_members (depth st0) obj keys"
    then obtain key x st1 st2 st3 where k: "on_rest ParseString (SkipWhitespace st0) = Some (key, st1)"
      "\<not> (length keys \<ge> 4096 \<or> key \<in> set keys)" "Expect (CHR '':'') (SkipWhitespace st1) = Some st2"
      "ParseValue (SkipWhitespace st2) = Some (x, st3)"
      by (auto simp: object_loop.simps split: option.splits if_splits)
    have fr: "depth st2 = depth st0" "nodes st2 = nodes st0" and key: "valid_utf8 key"
      using on_rest_frame [OF k(1)] Expect_frame [OF k(3)] ParseString_valid by auto
    have x: "json_ok x" "depth st0 + json_depth x \<le> 64" "counted st0 (json_nodes x) st3"
      using 5(1) [OF k(1) refl k(2,3)] k(4) fr by (auto simp: counted_def)
    have c': "collected_members (depth st0) (obj @ [(key, x)]) (key # keys)"
      using c k(2) key x by (auto simp: collected_members_def collected_def)
    show "\<exists>ms keys'. v = JObject (obj @ ms) \<and> collected_members (depth st0) (obj @ ms) keys' \<and>
        counted st0 (sum_list (map (\<lambda>m. json_nodes (snd m)) ms)) st'"
    proof (cases "Peek (SkipWhitespace st3) = CHR ''}''")
      case True
      then show ?thesis using p k x c'
        by (intro exI [of _ "[(key, x)]"] exI [of _ "key # keys"]) (auto simp: object_loop.simps counted_def)
    next
      case False
      let ?st4 = "SkipWhitespace (advance 1 (SkipWhitespace st3))"
      from p k False have comma: "Peek (SkipWhitespace st3) = CHR '',''" and no: "Peek ?st4 \<noteq> CHR ''}''"
        and l: "object_loop ?st4 (obj @ [(key, x)]) (key # keys) = Some (v, st')"
        by (auto simp: object_loop.simps Let_def split: if_splits)
      have "collected_members (depth ?st4) (obj @ [(key, x)]) (key # keys)" using c' x(3) by (simp add: counted_def)
      then obtain ms keys' where "v = JObject ((obj @ [(key, x)]) @ ms)"
        "collected_members (depth ?st4) ((obj @ [(key, x)]) @ ms) keys'"
        "counted ?st4 (sum_list (map (\<lambda>m. json_nodes (snd m)) ms)) st'"
        using 5(2) [OF k(1) refl k(2-4) refl refl refl False comma refl no] l by blast
      then show ?thesis using x(3)
        by (intro exI [of _ "(key, x) # ms"] exI [of _ keys']) (auto simp: counted_def)
    qed
  qed
qed

section \<open>Properties\<close>

lemma parse_limits:
  assumes "Parse input = Some v"
  shows "json_ok v \<and> json_depth v \<le> 64 \<and> json_nodes v \<le> 1000000 \<and> length input \<le> 8 * 1024 * 1024"
proof -
  obtain st where p: "ParseValue \<lparr>rest = input, depth = 0, nodes = 0\<rparr> = Some (v, st)"
    and len: "length input \<le> 8 * 1024 * 1024"
    using assms by (auto simp: Parse_def split: if_splits option.splits)
  from p accepted_values(1) [of "\<lparr>rest = input, depth = 0, nodes = 0\<rparr>"]
  have "json_ok v \<and> json_depth v \<le> 64 \<and> counted \<lparr>rest = input, depth = 0, nodes = 0\<rparr> (json_nodes v) st" by simp
  with len show ?thesis by (auto simp: counted_def)
qed

text \<open>
  C6: whatever the input, a value that \<open>Parse\<close> returns has UTF-8 strings, finite doubles, at most
  4096 distinct keys per object, at most 64 levels and at most a million nodes, and the input had
  at most 8 MiB.
\<close>

theorem parse_within_limits:
  assumes "Parse input = Some v"
  shows "json_ok v \<and> json_depth v \<le> 64 \<and> json_nodes v \<le> 1000000 \<and> length input \<le> 8 * 1024 * 1024"
  using assms by (rule parse_limits)

theorem parse_within_limits_witness:
  "Parse ''[1,[-2]]'' = Some (JArray [JUInt64 1, JArray [JInt64 (- 2)]]) \<and>
   json_depth (JArray [JUInt64 1, JArray [JInt64 (- 2)]]) \<le> 64"
proof -
  have "ToString (JArray [JUInt64 1, JArray [JInt64 (- 2)]]) (- 1) = Inr ''[1,[-2]]''" by code_simp
  from Parse_printed [OF this] have "Parse ''[1,[-2]]'' = Some (JArray [JUInt64 1, JArray [JInt64 (- 2)]])" by simp
  then show ?thesis using parse_within_limits [of "''[1,[-2]]''"] by blast
qed

end
