(* ===== verification/Text_Scan.thy ===== *)
theory Text_Scan
  imports Charconv
begin

text \<open>
  What the code uses of \<^verbatim>\<open>std::string_view::find\<close> and of stream extraction: the first occurrence of
  a pattern, the characters \<^verbatim>\<open>std::isspace\<close> accepts in the C locale, and the white-space separated
  words that repeated \<^verbatim>\<open>stream >> word\<close> delivers.
\<close>

fun find_sub :: "string \<Rightarrow> string \<Rightarrow> nat option" where
  "find_sub pat [] = (if pat = [] then Some 0 else None)"
| "find_sub pat (c # cs) =
     (if take (length pat) (c # cs) = pat then Some 0 else map_option Suc (find_sub pat cs))"

definition is_space :: "char \<Rightarrow> bool" where
  "is_space c \<longleftrightarrow> byte c = 32 \<or> 9 \<le> byte c \<and> byte c \<le> 13"

function words :: "string \<Rightarrow> string list" where
  "words s =
     (let t = dropWhile is_space s
      in if t = [] then [] else takeWhile (\<lambda>c. \<not> is_space c) t # words (dropWhile (\<lambda>c. \<not> is_space c) t))"
  by pat_completeness auto

lemma dropWhile_word_shrinks:
  "dropWhile P s \<noteq> [] \<Longrightarrow> length (dropWhile (\<lambda>c. \<not> P c) (dropWhile P s)) < length s"
proof -
  assume "dropWhile P s \<noteq> []"
  then obtain c cs where c: "dropWhile P s = c # cs" by (cases "dropWhile P s") auto
  then have "\<not> P c" using hd_dropWhile [of P s] by simp
  moreover have "length (c # cs) \<le> length s" using length_dropWhile_le [of P s] c by simp
  ultimately show ?thesis using length_dropWhile_le [of "\<lambda>c. \<not> P c" cs] by (simp add: c)
qed

termination words
  by (relation "measure length") (simp_all only: in_measure wf_measure dropWhile_word_shrinks not_False_eq_True)

declare words.simps [simp del]

lemma words_Nil [simp]: "words [] = []"
  by (subst words.simps) simp

lemma words_spaces: "list_all is_space s \<Longrightarrow> words s = []"
  by (subst words.simps) (simp add: list_all_iff)

lemma words_append:
  assumes "list_all (\<lambda>c. \<not> is_space c) w" "w \<noteq> []" "is_space c"
  shows "words (w @ c # s) = w # words s"
proof -
  have w: "dropWhile is_space (w @ c # s) = w @ c # s" using assms by (cases w) auto
  have t: "takeWhile (\<lambda>c. \<not> is_space c) (w @ c # s) = w" "dropWhile (\<lambda>c. \<not> is_space c) (w @ c # s) = c # s"
    using assms by (simp_all add: list_all_iff takeWhile_append2 dropWhile_append2)
  have "words (c # s) = words s" using assms(3) by (subst (1 2) words.simps) simp
  then show ?thesis using assms(2) by (subst words.simps) (simp add: w t)
qed

lemma words_single:
  assumes "list_all (\<lambda>c. \<not> is_space c) w" "w \<noteq> []"
  shows "words w = [w]"
proof -
  have "dropWhile is_space w = w" using assms by (cases w) auto
  moreover have "takeWhile (\<lambda>c. \<not> is_space c) w = w" "dropWhile (\<lambda>c. \<not> is_space c) w = []"
    using assms(1) by (simp_all add: list_all_iff)
  ultimately show ?thesis using assms(2) by (subst words.simps) (simp only: Let_def if_False words_Nil)
qed

lemma words_members: "w \<in> set (words s) \<Longrightarrow> w \<noteq> [] \<and> list_all (\<lambda>c. \<not> is_space c) w"
proof (induction s rule: words.induct)
  case (1 s)
  show ?case
  proof (cases "dropWhile is_space s = []")
    case True
    then show ?thesis using 1(2) by (simp add: words.simps [of s])
  next
    case False
    then have "\<not> is_space (hd (dropWhile is_space s))" by (rule hd_dropWhile)
    then have ne: "takeWhile (\<lambda>c. \<not> is_space c) (dropWhile is_space s) \<noteq> []"
      using False by (cases "dropWhile is_space s") auto
    have "w = takeWhile (\<lambda>c. \<not> is_space c) (dropWhile is_space s) \<or>
      w \<in> set (words (dropWhile (\<lambda>c. \<not> is_space c) (dropWhile is_space s)))"
      using 1(2) False words.simps [of s] by (simp only: Let_def if_False list.set insert_iff)
    then show ?thesis
    proof
      assume "w = takeWhile (\<lambda>c. \<not> is_space c) (dropWhile is_space s)"
      then show ?thesis using ne by (auto simp: list_all_iff dest: set_takeWhileD)
    qed (use 1(1) [OF refl False] in blast)
  qed
qed

section \<open>Occurrences\<close>

lemma find_sub_Some:
  "find_sub pat s = Some i \<Longrightarrow> take (length pat) (drop i s) = pat \<and> i \<le> length s"
  by (induction s arbitrary: i) (auto split: if_splits)

lemma find_sub_split:
  assumes "find_sub pat s = Some i"
  shows "s = take i s @ pat @ drop (i + length pat) s"
proof -
  have "pat = take (length pat) (drop i s)" using find_sub_Some [OF assms] by simp
  then have "drop i s = pat @ drop (length pat) (drop i s)" using append_take_drop_id by metis
  then show ?thesis by (metis append_take_drop_id drop_drop add.commute)
qed

lemma find_sub_bound: "find_sub pat s = Some i \<Longrightarrow> i + length pat \<le> length s"
  using find_sub_split [of pat s i] find_sub_Some [of pat s i]
  by (metis add_le_cancel_left diff_diff_add diff_is_0_eq' le_add_diff_inverse length_drop length_take linear min.absorb2 min.cobounded2 take_all_iff)

text \<open>The lines that repeated \<^verbatim>\<open>std::getline\<close> delivers.\<close>

function getlines :: "string \<Rightarrow> string list" where
  "getlines s =
     (if s = [] then []
      else let line = takeWhile (\<lambda>c. c \<noteq> CHR 0x0A) s in line # getlines (drop (Suc (length line)) s))"
  by pat_completeness auto
termination
  by (relation "measure length") (auto simp: Let_def neq_Nil_conv)

declare getlines.simps [simp del]

lemma getlines_line:
  "CHR 0x0A \<notin> set l \<Longrightarrow> getlines (l @ CHR 0x0A # s) = l # getlines s"
proof -
  assume "CHR 0x0A \<notin> set l"
  then have "takeWhile (\<lambda>c. c \<noteq> CHR 0x0A) (l @ CHR 0x0A # s) = l" by (subst takeWhile_append2) auto
  then show ?thesis by (subst getlines.simps) (simp add: Let_def)
qed

lemma getlines_concat:
  "\<forall>l \<in> set ls. CHR 0x0A \<notin> set l \<Longrightarrow> getlines (concat (map (\<lambda>l. l @ [CHR 0x0A]) ls)) = ls"
  by (induction ls) (simp_all add: getlines_line, simp add: getlines.simps)

end
