(* ===== verification/Http_Request.thy ===== *)
theory Http_Request
  imports Text_Scan
begin

text \<open>
  The HTTP subset of \<^verbatim>\<open>server/http/http_request.cpp\<close>: the request parser and the response printer.
  A \<^verbatim>\<open>std::map\<close> of headers is a partial map. The header loop walks \<open>pos\<close> from behind the request
  line to \<open>end\<close>; it is modelled on the suffix of the text at \<open>pos\<close>, and since the parser has checked
  \<open>end + 4 == text.size()\<close>, \<open>pos < end\<close> is that more than four characters are left.
\<close>

section \<open>Requests\<close>

record HttpRequest =
  status :: nat
  target :: string

definition bad :: "nat \<Rightarrow> HttpRequest" where
  "bad s = \<lparr>status = s, target = []\<rparr>"

definition CRLF :: string where
  "CRLF = [CHR 0x0D, CHR 0x0A]"

definition isalnum :: "char \<Rightarrow> bool" where
  "isalnum c \<longleftrightarrow> is_digit c \<or> 65 \<le> byte c \<and> byte c \<le> 90 \<or> 97 \<le> byte c \<and> byte c \<le> 122"

definition token_char :: "char \<Rightarrow> bool" where
  "token_char c \<longleftrightarrow> isalnum c \<or> c \<in> set ''!#$%&'' \<or> c = CHR 0x27 \<or> c \<in> set ''*+-.^_'' \<or> c = CHR 0x60 \<or> c \<in> set ''|~''"

definition value_char :: "char \<Rightarrow> bool" where
  "value_char c \<longleftrightarrow> \<not> (byte c < 32 \<and> byte c \<noteq> 9 \<or> byte c = 127)"

definition target_char :: "char \<Rightarrow> bool" where
  "target_char c \<longleftrightarrow> \<not> (byte c \<le> 32 \<or> byte c \<ge> 127)"

definition blank :: "char \<Rightarrow> bool" where
  "blank c \<longleftrightarrow> c = CHR '' '' \<or> c = CHR 0x09"

definition trim :: "string \<Rightarrow> string" where
  "trim s = rev (dropWhile blank (rev (dropWhile blank s)))"

text \<open>One header row: its key in lower case and its trimmed value.\<close>

definition parse_row :: "string \<Rightarrow> (string \<times> string) option" where
  "parse_row row =
     (case find_sub '':'' row of
        None \<Rightarrow> None
      | Some colon \<Rightarrow>
          if colon = 0 then None
          else let key = take colon row; val = trim (drop (colon + 1) row)
               in if \<not> list_all token_char key then None
                  else if \<not> list_all value_char val then None
                  else Some (lower key, val))"

function header_loop :: "string \<Rightarrow> (string \<rightharpoonup> string) \<Rightarrow> (string \<rightharpoonup> string) option" where
  "header_loop tail headers =
     (if length tail \<le> 4 then Some headers
      else case find_sub CRLF tail of
          None \<Rightarrow> None
        | Some nxt \<Rightarrow>
            (case parse_row (take nxt tail) of
               None \<Rightarrow> None
             | Some (key, val) \<Rightarrow>
                 if headers key \<noteq> None then None
                 else header_loop (drop (nxt + 2) tail) (headers(key \<mapsto> val))))"
  by pat_completeness auto
termination
  by (relation "measure (length \<circ> fst)") auto

declare header_loop.simps [simp del]

text \<open>The checks on the collected headers: the status they lead to.\<close>

definition header_status :: "string \<Rightarrow> (string \<rightharpoonup> string) \<Rightarrow> nat" where
  "header_status version headers =
     (if version = ''HTTP/1.1'' \<and> (headers ''host'' = None \<or> headers ''host'' = Some []) then 400
      else if headers ''transfer-encoding'' \<noteq> None then 400
      else if headers ''expect'' \<noteq> None then 417
      else case headers ''content-length'' of
          Some s \<Rightarrow> if parsed_whole (from_chars_unsigned (2 ^ 32) s) = Some 0 then 200 else 400
        | None \<Rightarrow> 200)"

definition ParseHttpRequest :: "string \<Rightarrow> HttpRequest" where
  "ParseHttpRequest text =
     (case find_sub (CRLF @ CRLF) text of
        None \<Rightarrow> bad 400
      | Some end_pos \<Rightarrow>
          if end_pos + 4 \<noteq> length text then bad 400
          else if length text > 8192 then bad 431
          else case find_sub CRLF text of
              None \<Rightarrow> bad 400
            | Some first \<Rightarrow>
                (case words (take first text) of
                   [method, tgt, version] \<Rightarrow>
                     if method \<noteq> ''GET'' then bad 405
                     else if version \<noteq> ''HTTP/1.1'' \<and> version \<noteq> ''HTTP/1.0'' then bad 505
                     else if tgt = [] \<or> hd tgt \<noteq> CHR ''/'' then bad 400
                     else if \<not> list_all target_char tgt then bad 400
                     else (case header_loop (drop (first + 2) text) Map.empty of
                             None \<Rightarrow> bad 400
                           | Some headers \<Rightarrow>
                               let st = header_status version headers
                               in if st = 200 then \<lparr>status = 200, target = tgt\<rparr> else bad st)
                 | _ \<Rightarrow> bad 400))"

section \<open>Responses\<close>

definition reason :: "nat \<Rightarrow> string" where
  "reason s =
     (if s = 200 then ''OK'' else if s = 400 then ''Bad Request'' else if s = 404 then ''Not Found''
      else if s = 405 then ''Method Not Allowed'' else if s = 417 then ''Expectation Failed''
      else if s = 431 then ''Request Header Fields Too Large'' else if s = 503 then ''Service Unavailable''
      else if s = 505 then ''HTTP Version Not Supported'' else ''Internal Server Error'')"

definition HttpResponse :: "nat \<Rightarrow> string \<Rightarrow> string \<Rightarrow> string" where
  "HttpResponse s body type =
     ''HTTP/1.1 '' @ show_nat s @ '' '' @ reason s @ CRLF @ ''Content-Type: '' @ type @ CRLF @
     ''Content-Length: '' @ show_nat (length body) @ CRLF @ ''Connection: close'' @ CRLF @
     ''Cache-Control: no-store'' @ CRLF @ (if s = 405 then ''Allow: GET'' @ CRLF else []) @ CRLF @ body"

section \<open>Occurrences of line ends\<close>

abbreviation no_crlf :: "string \<Rightarrow> bool" where
  "no_crlf a \<equiv> find_sub CRLF a = None"

lemma crlf_prefix: "take 2 (c # cs) = CRLF \<longleftrightarrow> c = CHR 0x0D \<and> cs \<noteq> [] \<and> hd cs = CHR 0x0A"
  by (cases cs) (auto simp: CRLF_def take_Cons_numeral)

lemma len_CRLF [simp]: "length CRLF = 2"
  by (simp add: CRLF_def)

lemma find_crlf: "no_crlf a \<Longrightarrow> find_sub CRLF (a @ CRLF @ b) = Some (length a)"
proof (induction a)
  case Nil
  then show ?case by (simp add: CRLF_def)
next
  case (Cons c cs)
  have "take 2 (c # cs @ CRLF @ b) \<noteq> CRLF"
    using Cons.prems unfolding crlf_prefix by (cases cs) (auto simp: crlf_prefix CRLF_def take_Cons_numeral split: if_splits)
  with Cons show ?case by (auto split: if_splits)
qed

lemma no_crlf_before: "find_sub CRLF s = Some n \<Longrightarrow> no_crlf (take n s)"
proof (induction s arbitrary: n)
  case (Cons c cs)
  show ?case
  proof (cases "take 2 (c # cs) = CRLF")
    case True
    then show ?thesis using Cons.prems by (auto simp: CRLF_def)
  next
    case False
    then obtain m where m: "n = Suc m" "find_sub CRLF cs = Some m" using Cons.prems by (auto split: if_splits)
    have "take 2 (c # take m cs) \<noteq> CRLF"
      using False unfolding crlf_prefix by (cases m; cases cs) auto
    then show ?thesis using Cons.IH [OF m(2)] m(1) by simp
  qed
qed (simp add: CRLF_def)

lemma split_crlf:
  assumes "find_sub CRLF s = Some n"
  shows "s = take n s @ CRLF @ drop (n + 2) s" "no_crlf (take n s)" "length (take n s) = n"
  using find_sub_split [OF assms] no_crlf_before [OF assms] find_sub_bound [OF assms] by simp_all

lemma take4_CRLF: "take 4 x = CRLF @ CRLF \<Longrightarrow> take 2 x = CRLF"
proof -
  assume "take 4 x = CRLF @ CRLF"
  then have "take 2 (take 4 x) = take 2 (CRLF @ CRLF)" by simp
  then show ?thesis by simp
qed

lemma find_cc_step:
  "no_crlf a \<Longrightarrow> find_sub (CRLF @ CRLF) (a @ CRLF @ b) =
     (if take 2 b = CRLF then Some (length a) else map_option ((+) (length a + 2)) (find_sub (CRLF @ CRLF) b))"
proof (induction a)
  case Nil
  have "find_sub (CRLF @ CRLF) (CHR 0x0A # b) = map_option Suc (find_sub (CRLF @ CRLF) b)"
    by (simp add: CRLF_def)
  then show ?case
    by (cases "find_sub (CRLF @ CRLF) b") (simp_all add: CRLF_def take_Cons_numeral numeral_2_eq_2)
next
  case (Cons c cs)
  have "take 2 (c # cs @ CRLF @ b) \<noteq> CRLF"
    using Cons.prems unfolding crlf_prefix by (cases cs) (auto simp: crlf_prefix CRLF_def take_Cons_numeral split: if_splits)
  then have "take 4 (c # cs @ CRLF @ b) \<noteq> CRLF @ CRLF" using take4_CRLF by blast
  moreover have "no_crlf cs" using Cons.prems by (auto split: if_splits)
  ultimately show ?case
    using Cons.IH by (cases "find_sub (CRLF @ CRLF) b") simp_all
qed

section \<open>The grammar of accepted requests\<close>

definition row_ok :: "string \<times> string \<Rightarrow> bool" where
  "row_ok r \<longleftrightarrow> fst r \<noteq> [] \<and> list_all token_char (fst r) \<and> list_all value_char (snd r)"

definition render :: "string \<times> string \<Rightarrow> string" where
  "render r = fst r @ '':'' @ snd r @ CRLF"

definition headers_of :: "(string \<times> string) list \<Rightarrow> (string \<rightharpoonup> string)" where
  "headers_of hs = map_of (map (\<lambda>(k, v). (lower k, trim v)) hs)"

definition keys_of :: "(string \<times> string) list \<Rightarrow> string list" where
  "keys_of hs = map (\<lambda>(k, v). lower k) hs"

lemma dom_headers_of: "dom (headers_of hs) = set (keys_of hs)"
  by (force simp: headers_of_def keys_of_def dom_map_of_conv_image_fst image_iff)

lemma no_cr: "CHR 0x0D \<notin> set a \<Longrightarrow> no_crlf a"
  by (induction a) (auto simp: crlf_prefix CRLF_def take_Cons_numeral)

lemma row_no_crlf: "row_ok (k, v) \<Longrightarrow> no_crlf (k @ '':'' @ v)"
  by (rule no_cr) (auto simp: row_ok_def list_all_iff token_char_def value_char_def isalnum_def is_digit_def)

lemma token_not_colon: "token_char c \<Longrightarrow> c \<noteq> CHR '':'' \<and> c \<noteq> CHR 0x0D"
  by (auto simp: token_char_def isalnum_def is_digit_def)

lemma find_colon: "CHR '':'' \<notin> set k \<Longrightarrow> find_sub '':'' (k @ CHR '':'' # v) = Some (length k)"
  by (induction k) auto

lemma set_dropWhile_sub: "set s \<subseteq> set (dropWhile P s) \<union> Collect P" "set (dropWhile P s) \<subseteq> set s"
  by (induction s) auto

lemma trim_value_char: "list_all value_char (trim v) \<longleftrightarrow> list_all value_char v"
proof -
  have b: "blank c \<Longrightarrow> value_char c" for c by (auto simp: blank_def value_char_def)
  have "set (trim v) \<subseteq> set v"
    using set_dropWhile_sub(2) [of blank v] set_dropWhile_sub(2) [of blank "rev (dropWhile blank v)"]
    unfolding trim_def set_rev by blast
  moreover have "set v \<subseteq> set (trim v) \<union> Collect blank"
    using set_dropWhile_sub(1) [of v blank] set_dropWhile_sub(1) [of "rev (dropWhile blank v)" blank]
    unfolding trim_def set_rev by blast
  ultimately show ?thesis using b unfolding list_all_iff by blast
qed

lemma parse_row_render: "row_ok (k, v) \<Longrightarrow> parse_row (k @ '':'' @ v) = Some (lower k, trim v)"
proof -
  assume r: "row_ok (k, v)"
  then have "find_sub '':'' (k @ CHR '':'' # v) = Some (length k)"
    using token_not_colon by (intro find_colon) (auto simp: row_ok_def list_all_iff)
  with r show ?thesis using trim_value_char [of v] by (simp add: parse_row_def row_ok_def)
qed

lemma parse_row_Some:
  assumes "parse_row row = Some (key, val)"
  obtains k v where "row = k @ '':'' @ v" "row_ok (k, v)" "key = lower k" "val = trim v"
proof -
  obtain i where i: "find_sub '':'' row = Some i" using assms by (auto simp: parse_row_def split: option.splits)
  have "row = take i row @ '':'' @ drop (i + 1) row" using find_sub_split [OF i] by simp
  moreover have "take i row \<noteq> []" using assms i find_sub_bound [OF i] by (auto simp: parse_row_def split: if_splits)
  ultimately show thesis
    using assms i trim_value_char
    by (intro that [of "take i row" "drop (i + 1) row"]) (auto simp: parse_row_def row_ok_def Let_def split: if_splits)
qed

lemma header_loop_line:
  assumes "no_crlf l" "2 < length (l @ t)" "parse_row l = Some (key, val)" "H key = None"
  shows "header_loop (l @ CRLF @ t) H = header_loop t (H(key \<mapsto> val))"
  using assms by (subst header_loop.simps) (simp add: find_crlf)

lemma header_loop_render:
  assumes "list_all row_ok hs" "distinct (keys_of hs)" "dom H \<inter> set (keys_of hs) = {}"
  shows "header_loop (concat (map render hs) @ CRLF) H = Some (H ++ headers_of hs)"
  using assms
proof (induction hs arbitrary: H)
  case Nil
  then show ?case by (simp add: header_loop.simps headers_of_def)
next
  case (Cons r hs)
  obtain k v where r: "r = (k, v)" by (cases r)
  let ?t = "concat (map render hs) @ CRLF"
  have ok: "row_ok (k, v)" using Cons.prems(1) r by simp
  have eq: "concat (map render (r # hs)) @ CRLF = (k @ '':'' @ v) @ CRLF @ ?t" by (simp add: r render_def)
  have fresh: "lower k \<notin> dom H" "lower k \<notin> dom (headers_of hs)"
    using Cons.prems(2,3) by (auto simp: r keys_of_def dom_headers_of)
  have "header_loop ((k @ '':'' @ v) @ CRLF @ ?t) H = header_loop ?t (H(lower k \<mapsto> trim v))"
    by (rule header_loop_line [OF row_no_crlf [OF ok] _ parse_row_render [OF ok]])
      (use fresh(1) in auto)
  also have "\<dots> = Some (H(lower k \<mapsto> trim v) ++ headers_of hs)"
  proof (rule Cons.IH)
    show "dom (H(lower k \<mapsto> trim v)) \<inter> set (keys_of hs) = {}"
      using Cons.prems(3) fresh unfolding dom_fun_upd dom_headers_of by (auto simp: keys_of_def r)
  qed (use Cons.prems in \<open>simp_all add: keys_of_def\<close>)
  also have "H(lower k \<mapsto> trim v) ++ headers_of hs = H ++ headers_of (r # hs)"
    using fresh(2) by (simp add: r headers_of_def map_add_upd_left)
  finally show ?case unfolding eq .
qed

lemma header_loop_accepts:
  assumes "find_sub (CRLF @ CRLF) s = Some e" "e + 4 = length s" "take 2 s \<noteq> CRLF" "header_loop s H = Some H'"
  shows "\<exists>hs. s = concat (map render hs) @ CRLF \<and> list_all row_ok hs \<and> distinct (keys_of hs) \<and>
    dom H \<inter> set (keys_of hs) = {}"
  using assms
proof (induction s H arbitrary: e rule: header_loop.induct)
  case (1 s H)
  have "e \<noteq> 0"
  proof
    assume "e = 0"
    then have "take 4 s = CRLF @ CRLF" using find_sub_Some [OF "1.prems"(1)] by simp
    then have "take 2 s = CRLF" by (rule take4_CRLF)
    with "1.prems"(3) show False ..
  qed
  then have len: "\<not> length s \<le> 4" using "1.prems"(2) by simp
  obtain n key val where n: "find_sub CRLF s = Some n" "parse_row (take n s) = Some (key, val)" "\<not> H key \<noteq> None"
    and loop: "header_loop (drop (n + 2) s) (H(key \<mapsto> val)) = Some H'"
    using "1.prems"(4) len by (subst (asm) header_loop.simps) (auto split: option.splits if_splits)
  obtain k v where kv: "take n s = k @ '':'' @ v" "row_ok (k, v)" "key = lower k" "val = trim v"
    using parse_row_Some [OF n(2)] .
  let ?t = "drop (n + 2) s"
  have s: "s = (k @ '':'' @ v) @ CRLF @ ?t" using split_crlf(1) [OF n(1)] kv(1) by simp
  have cc: "find_sub (CRLF @ CRLF) s =
      (if take 2 ?t = CRLF then Some n else map_option ((+) (n + 2)) (find_sub (CRLF @ CRLF) ?t))"
    using find_cc_step [OF split_crlf(2) [OF n(1)], of ?t] split_crlf [OF n(1)] by simp
  show ?case
  proof (cases "take 2 ?t = CRLF")
    case True
    then have "n + 4 = length s" using cc "1.prems"(1,2) by simp
    then have "?t = CRLF" using True by simp
    then have "s = concat (map render [(k, v)]) @ CRLF" using s by (simp add: render_def)
    then show ?thesis
      by (intro exI [of _ "[(k, v)]"] conjI) (use kv n(3) in \<open>auto simp: keys_of_def\<close>)
  next
    case False
    then obtain e' where e': "find_sub (CRLF @ CRLF) ?t = Some e'" "e = n + 2 + e'"
      using cc "1.prems"(1) by (cases "find_sub (CRLF @ CRLF) ?t") auto
    have "e' + 4 = length ?t" using e'(2) "1.prems"(2) by simp
    from "1.IH" [OF len n(1,2) refl n(3) e'(1) this False loop]
    obtain hs where hs: "?t = concat (map render hs) @ CRLF" "list_all row_ok hs"
      "distinct (keys_of hs)" "dom (H(key \<mapsto> val)) \<inter> set (keys_of hs) = {}" by blast
    have "s = concat (map render ((k, v) # hs)) @ CRLF" using s hs(1) by (simp add: render_def)
    then show ?thesis
      by (intro exI [of _ "(k, v) # hs"] conjI) (use kv n(3) hs in \<open>auto simp: keys_of_def\<close>)
  qed
qed

text \<open>
  The requests the server means to accept: one request line of three words, a target of visible
  characters, header rows with distinct names, and no body.
\<close>

definition headers_allowed :: "string \<Rightarrow> (string \<rightharpoonup> string) \<Rightarrow> bool" where
  "headers_allowed version H \<longleftrightarrow>
     (version = ''HTTP/1.1'' \<longrightarrow> (\<exists>host. H ''host'' = Some host \<and> host \<noteq> [])) \<and>
     H ''transfer-encoding'' = None \<and> H ''expect'' = None \<and>
     (\<forall>s. H ''content-length'' = Some s \<longrightarrow> s \<noteq> [] \<and> list_all (\<lambda>c. c = CHR ''0'') s)"

definition http_grammar :: "string \<Rightarrow> string \<Rightarrow> bool" where
  "http_grammar req t \<longleftrightarrow>
     (\<exists>line version hs.
        req = line @ CRLF @ concat (map render hs) @ CRLF \<and> length req \<le> 8192 \<and> no_crlf line \<and>
        words line = [''GET'', t, version] \<and> (version = ''HTTP/1.1'' \<or> version = ''HTTP/1.0'') \<and>
        hd t = CHR ''/'' \<and> list_all target_char t \<and>
        list_all row_ok hs \<and> distinct (keys_of hs) \<and>
        headers_allowed version (headers_of hs))"

lemma zero_length:
  assumes "0 < cap"
  shows "parsed_whole (from_chars_unsigned cap s) = Some 0 \<longleftrightarrow> s \<noteq> [] \<and> list_all (\<lambda>c. c = CHR ''0'') s"
proof
  assume "parsed_whole (from_chars_unsigned cap s) = Some 0"
  then have s: "takeWhile is_digit s \<noteq> []" "dropWhile is_digit s = []" "digits_val (takeWhile is_digit s) = 0"
    by (auto simp: parsed_whole_def from_chars_unsigned_def Let_def split: list.splits sum.splits if_splits)
  have all: "takeWhile is_digit s = s" "list_all is_digit s"
    using s(2) by (metis append_Nil2 takeWhile_dropWhile_id) (metis s(2) dropWhile_eq_Nil_conv list_all_iff)
  have "list_all is_digit ds \<Longrightarrow> digits_val ds = 0 \<Longrightarrow> list_all (\<lambda>c. c = CHR ''0'') ds" for ds
  proof (induction ds rule: rev_induct)
    case (snoc c ds)
    then have "byte c = byte (CHR ''0'')" by (simp add: is_digit_def)
    then have "c = CHR ''0''" by (metis char_of_char)
    with snoc show ?case by simp
  qed simp
  with s all show "s \<noteq> [] \<and> list_all (\<lambda>c. c = CHR ''0'') s" by auto
next
  assume s: "s \<noteq> [] \<and> list_all (\<lambda>c. c = CHR ''0'') s"
  then have zeros: "\<forall>c \<in> set s. c = CHR ''0''" unfolding list_all_iff by blast
  have rep: "replicate (length s) (CHR ''0'') @ [] = s" using replicate_length_same [OF zeros] by simp
  have z: "digits_val s = 0" using digits_val_zeros [of "length s" "[]"] unfolding rep by simp
  have digit: "is_digit (CHR ''0'')" by (simp add: is_digit_def)
  have "is_digit c" if "c \<in> set s" for c using bspec [OF zeros that] digit by (simp only:)
  then have d: "takeWhile is_digit s = s" "dropWhile is_digit s = []" unfolding takeWhile_eq_all_conv dropWhile_eq_Nil_conv by fast+
  show "parsed_whole (from_chars_unsigned cap s) = Some 0"
    unfolding parsed_whole_def from_chars_unsigned_def Let_def d z using s assms by simp
qed

lemma header_status_200: "header_status version H = 200 \<longleftrightarrow> headers_allowed version H"
  by (auto simp: header_status_def headers_allowed_def zero_length split: option.splits)

lemma header_status_cases: "header_status v H \<in> {200, 400, 417}"
  by (auto simp: header_status_def split: option.splits)

lemma find_cc_rows:
  "list_all row_ok hs \<Longrightarrow> no_crlf line \<Longrightarrow>
   find_sub (CRLF @ CRLF) (line @ CRLF @ concat (map render hs) @ CRLF) =
     Some (length (line @ CRLF @ concat (map render hs) @ CRLF) - 4)"
proof (induction hs arbitrary: line)
  case Nil
  then show ?case using find_cc_step [of line CRLF] by simp
next
  case (Cons r hs)
  obtain k v where r: "r = (k, v)" by (cases r)
  have ok: "row_ok (k, v)" using Cons.prems(1) r by simp
  let ?b = "concat (map render (r # hs)) @ CRLF"
  have b: "?b = (k @ '':'' @ v) @ CRLF @ concat (map render hs) @ CRLF" by (simp add: r render_def)
  obtain c k' where "k = c # k'" "c \<noteq> CHR 0x0D"
    using ok token_not_colon by (cases k) (auto simp: row_ok_def)
  then have "take 2 ?b \<noteq> CRLF" unfolding b by (simp add: CRLF_def take_Cons_numeral)
  moreover have "find_sub (CRLF @ CRLF) ?b = Some (length ?b - 4)"
    unfolding b using Cons.IH [OF _ row_no_crlf [OF ok]] Cons.prems(1) by simp
  moreover have "4 \<le> length ?b" by (simp add: r render_def)
  ultimately show ?case using find_cc_step [OF Cons.prems(2), of ?b] by simp
qed

lemma grammar_accepted:
  assumes "http_grammar req t"
  shows "ParseHttpRequest req = \<lparr>status = 200, target = t\<rparr>"
proof -
  obtain line version hs where g: "req = line @ CRLF @ concat (map render hs) @ CRLF" "length req \<le> 8192" "no_crlf line"
      "words line = [''GET'', t, version]" "version = ''HTTP/1.1'' \<or> version = ''HTTP/1.0''"
      "hd t = CHR ''/''" "list_all target_char t"
      "list_all row_ok hs" "distinct (keys_of hs)" "header_status version (headers_of hs) = 200"
    using assms unfolding http_grammar_def header_status_200 [symmetric] by blast
  have cc: "find_sub (CRLF @ CRLF) req = Some (length req - 4)" "4 \<le> length req"
    using find_cc_rows [OF g(8,3)] g(1) by simp_all
  have crlf: "find_sub CRLF req = Some (length line)" using find_crlf [OF g(3)] g(1) by simp
  have t: "t \<noteq> []" using words_members [of t line] g(4) by simp
  have parts: "take (length line) req = line" "drop (length line + 2) req = concat (map render hs) @ CRLF"
    using g(1) by simp_all
  have "header_loop (concat (map render hs) @ CRLF) Map.empty = Some (headers_of hs)"
    using header_loop_render [OF g(8,9), of Map.empty] by simp
  then show ?thesis
    unfolding ParseHttpRequest_def cc(1) crlf option.case parts g(4) list.case
    using cc(2) g t by auto
qed

lemma accepted_grammar:
  assumes "status (ParseHttpRequest req) = 200"
  shows "http_grammar req (target (ParseHttpRequest req))"
proof -
  obtain e first where e: "find_sub (CRLF @ CRLF) req = Some e" "e + 4 = length req" "length req \<le> 8192"
    "find_sub CRLF req = Some first"
    using assms by (auto simp: ParseHttpRequest_def bad_def split: option.splits if_splits)
  have r: "ParseHttpRequest req =
    (case words (take first req) of
       [method, tgt, version] \<Rightarrow>
         if method \<noteq> ''GET'' then bad 405
         else if version \<noteq> ''HTTP/1.1'' \<and> version \<noteq> ''HTTP/1.0'' then bad 505
         else if tgt = [] \<or> hd tgt \<noteq> CHR ''/'' then bad 400
         else if \<not> list_all target_char tgt then bad 400
         else (case header_loop (drop (first + 2) req) Map.empty of
                 None \<Rightarrow> bad 400
               | Some headers \<Rightarrow>
                   let st = header_status version headers
                   in if st = 200 then \<lparr>status = 200, target = tgt\<rparr> else bad st)
     | _ \<Rightarrow> bad 400)"
    using e by (simp add: ParseHttpRequest_def)
  obtain t version H where w: "words (take first req) = [''GET'', t, version]"
    "version = ''HTTP/1.1'' \<or> version = ''HTTP/1.0''" "hd t = CHR ''/''" "list_all target_char t"
    "header_loop (drop (first + 2) req) Map.empty = Some H" "header_status version H = 200"
    and t: "target (ParseHttpRequest req) = t"
    using assms unfolding r bad_def Let_def by (auto split: list.splits if_splits option.splits)
  let ?line = "take first req" and ?b = "drop (first + 2) req"
  note sp = split_crlf [OF e(4)]
  have cc: "find_sub (CRLF @ CRLF) req =
      (if take 2 ?b = CRLF then Some first else map_option ((+) (first + 2)) (find_sub (CRLF @ CRLF) ?b))"
    using find_cc_step [OF sp(2), of ?b] sp by simp
  have "\<exists>hs. ?b = concat (map render hs) @ CRLF \<and> list_all row_ok hs \<and> distinct (keys_of hs)"
  proof (cases "take 2 ?b = CRLF")
    case True
    then have "first + 4 = length req" using cc e by simp
    with True have "?b = CRLF" by simp
    then show ?thesis by (intro exI [of _ "[]"]) (simp add: keys_of_def)
  next
    case False
    then obtain e' where e': "find_sub (CRLF @ CRLF) ?b = Some e'" "e = first + 2 + e'"
      using cc e(1) by (cases "find_sub (CRLF @ CRLF) ?b") auto
    have "e' + 4 = length ?b" using e' e(2) by simp
    from header_loop_accepts [OF e'(1) this False w(5)] show ?thesis by auto
  qed
  then obtain hs where hs: "?b = concat (map render hs) @ CRLF" "list_all row_ok hs" "distinct (keys_of hs)" by blast
  have "H = headers_of hs" using header_loop_render [OF hs(2,3), of Map.empty] w(5) hs(1) by simp
  then show ?thesis
    unfolding http_grammar_def header_status_200 [symmetric] t using e(3) w hs sp
    by (intro exI [of _ ?line] exI [of _ version] exI [of _ hs]) simp
qed

text \<open>
  C7: a request is answered with status 200 exactly when it is in the grammar of the accepted
  subset, and the target handed to the router is the one of its request line.
\<close>

theorem http_accepts_grammar:
  "ParseHttpRequest req = \<lparr>status = 200, target = t\<rparr> \<longleftrightarrow> http_grammar req t"
proof
  assume "ParseHttpRequest req = \<lparr>status = 200, target = t\<rparr>"
  then show "http_grammar req t" using accepted_grammar [of req] by simp
qed (rule grammar_accepted)

end
