(* ===== verification/Server_Config.thy ===== *)
theory Server_Config
  imports Charconv
begin

text \<open>
  The server's configuration, \<^verbatim>\<open>server/config/server_config.cpp\<close>: defaults, environment, command
  line and validation. The two environment variables are arguments (\<open>None\<close> when unset) and \<open>argv\<close>
  is a list of strings.
\<close>

record ServerConfig =
  bind_address :: string
  port :: nat
  streaming_port :: nat
  poll_interval :: nat
  request_timeout :: nat
  write_timeout :: nat
  max_clients :: nat
  max_processes :: nat
  proc_root :: string
  sys_root :: string
  mount_path :: string
  cgroup_path :: string
  include_loopback :: bool

definition default_config :: ServerConfig where
  "default_config = \<lparr>bind_address = ''127.0.0.1'', port = 8080, streaming_port = 9999, poll_interval = 1000,
     request_timeout = 3000, write_timeout = 5000, max_clients = 256, max_processes = 1024,
     proc_root = ''/proc'', sys_root = ''/sys'', mount_path = ''/'', cgroup_path = [], include_loopback = False\<rparr>"

definition config_Number :: "string \<Rightarrow> nat result" where
  "config_Number val =
     (case parsed_whole (from_chars_unsigned (2 ^ 32) val) of
        Some n \<Rightarrow> Inr n
      | None \<Rightarrow> Inl (Invalid_argument (''invalid unsigned integer: '' @ val)))"

definition Validate :: "ServerConfig \<Rightarrow> unit result" where
  "Validate c =
     (if port c = 0 \<or> port c > 65535 \<or> streaming_port c = 0 \<or> streaming_port c > 65535 \<or> port c = streaming_port c
      then Inl (Invalid_argument ''HTTP and stream ports must be distinct, in 1..65535'')
      else if poll_interval c < 100 \<or> poll_interval c > 60000
      then Inl (Invalid_argument ''interval must be 100..60000 ms'')
      else if request_timeout c < 100 \<or> request_timeout c > 60000 \<or> write_timeout c < 100 \<or> write_timeout c > 60000
      then Inl (Invalid_argument ''timeouts must be 100..60000 ms'')
      else if max_clients c < 1 \<or> max_clients c > 4096 \<or> max_processes c < 1 \<or> max_processes c > 10000
      then Inl (Invalid_argument ''max-clients must be 1..4096; max-processes 1..10000'')
      else if bind_address c = [] \<or> proc_root c = [] \<or> sys_root c = [] \<or> mount_path c = []
      then Inl (Invalid_argument ''paths and bind address cannot be empty'')
      else Inr ())"

definition set_option :: "string \<Rightarrow> string \<Rightarrow> ServerConfig \<Rightarrow> ServerConfig result" where
  "set_option key val c =
     (if key = ''--bind'' then Inr (c\<lparr>bind_address := val\<rparr>)
      else if key = ''--http-port'' then rbind (config_Number val) (\<lambda>n. Inr (c\<lparr>port := n\<rparr>))
      else if key = ''--stream-port'' then rbind (config_Number val) (\<lambda>n. Inr (c\<lparr>streaming_port := n\<rparr>))
      else if key = ''--interval-ms'' then rbind (config_Number val) (\<lambda>n. Inr (c\<lparr>poll_interval := n\<rparr>))
      else if key = ''--request-timeout-ms'' then rbind (config_Number val) (\<lambda>n. Inr (c\<lparr>request_timeout := n\<rparr>))
      else if key = ''--write-timeout-ms'' then rbind (config_Number val) (\<lambda>n. Inr (c\<lparr>write_timeout := n\<rparr>))
      else if key = ''--max-clients'' then rbind (config_Number val) (\<lambda>n. Inr (c\<lparr>max_clients := n\<rparr>))
      else if key = ''--max-processes'' then rbind (config_Number val) (\<lambda>n. Inr (c\<lparr>max_processes := n\<rparr>))
      else if key = ''--proc-root'' then Inr (c\<lparr>proc_root := val\<rparr>)
      else if key = ''--sys-root'' then Inr (c\<lparr>sys_root := val\<rparr>)
      else if key = ''--mount'' then Inr (c\<lparr>mount_path := val\<rparr>)
      else if key = ''--cgroup'' then Inr (c\<lparr>cgroup_path := val\<rparr>)
      else Inl (Invalid_argument (''unknown option: '' @ key)))"

fun args_loop :: "string list \<Rightarrow> ServerConfig \<Rightarrow> ServerConfig result" where
  "args_loop [] c = Inr c"
| "args_loop [key] c =
     (if key = ''--include-loopback'' then Inr (c\<lparr>include_loopback := True\<rparr>)
      else Inl (Invalid_argument (''missing value for '' @ key)))"
| "args_loop (key # val # rest) c =
     (if key = ''--include-loopback'' then args_loop (val # rest) (c\<lparr>include_loopback := True\<rparr>)
      else rbind (set_option key val c) (args_loop rest))"

definition from_env :: "string option \<Rightarrow> string option \<Rightarrow> ServerConfig \<Rightarrow> ServerConfig result" where
  "from_env http stream c =
     rbind (case http of Some p \<Rightarrow> rbind (config_Number p) (\<lambda>n. Inr (c\<lparr>port := n\<rparr>)) | None \<Rightarrow> Inr c) (\<lambda>c.
     case stream of Some p \<Rightarrow> rbind (config_Number p) (\<lambda>n. Inr (c\<lparr>streaming_port := n\<rparr>)) | None \<Rightarrow> Inr c)"

definition FromArgs :: "string option \<Rightarrow> string option \<Rightarrow> string list \<Rightarrow> ServerConfig result" where
  "FromArgs http stream argv =
     rbind (from_env http stream default_config) (\<lambda>c.
     rbind (args_loop (tl argv) c) (\<lambda>c.
     rbind (Validate c) (\<lambda>_. Inr c)))"

section \<open>Validity\<close>

text \<open>The limits the rest of the server relies on.\<close>

definition valid_config :: "ServerConfig \<Rightarrow> bool" where
  "valid_config c \<longleftrightarrow>
     port c \<in> {1..65535} \<and> streaming_port c \<in> {1..65535} \<and> port c \<noteq> streaming_port c \<and>
     poll_interval c \<in> {100..60000} \<and> request_timeout c \<in> {100..60000} \<and> write_timeout c \<in> {100..60000} \<and>
     max_clients c \<in> {1..4096} \<and> max_processes c \<in> {1..10000} \<and>
     bind_address c \<noteq> [] \<and> proc_root c \<noteq> [] \<and> sys_root c \<noteq> [] \<and> mount_path c \<noteq> []"

lemma Validate_valid: "Validate c = Inr () \<longleftrightarrow> valid_config c"
  by (auto simp: Validate_def valid_config_def)

lemma FromArgs_valid: "FromArgs http stream argv = Inr c \<Longrightarrow> valid_config c"
  by (auto simp: FromArgs_def rbind_Inr Validate_valid [symmetric])

text \<open>The command line that spells a configuration out.\<close>

definition to_args :: "ServerConfig \<Rightarrow> string list" where
  "to_args c =
     [''--bind'', bind_address c, ''--http-port'', show_nat (port c), ''--stream-port'', show_nat (streaming_port c),
      ''--interval-ms'', show_nat (poll_interval c), ''--request-timeout-ms'', show_nat (request_timeout c),
      ''--write-timeout-ms'', show_nat (write_timeout c), ''--max-clients'', show_nat (max_clients c),
      ''--max-processes'', show_nat (max_processes c), ''--proc-root'', proc_root c, ''--sys-root'', sys_root c,
      ''--mount'', mount_path c, ''--cgroup'', cgroup_path c] @
     (if include_loopback c then [''--include-loopback''] else [])"

lemma config_Number_show: "n < 2 ^ 32 \<Longrightarrow> config_Number (show_nat n) = Inr n"
  by (simp add: config_Number_def from_chars_show_nat parsed_whole_def)

lemma set_option_to_args:
  assumes "valid_config c"
  shows "\<not> include_loopback d \<Longrightarrow> args_loop (to_args c) d = Inr c"
  using assms
  by (cases "include_loopback c")
    (simp_all add: to_args_def set_option_def config_Number_show valid_config_def)

text \<open>
  C8: the configuration the server starts with always satisfies the documented limits, and every
  configuration within the limits is the result of the command line that spells it out, whatever
  the (well-formed) environment says.
\<close>

theorem config_spelled_out:
  "(FromArgs http stream argv = Inr c \<longrightarrow> valid_config c) \<and>
   (valid_config d \<longrightarrow> from_env http stream default_config = Inr e \<longrightarrow>
      FromArgs http stream (prog # to_args d) = Inr d)"
proof -
  have "\<not> include_loopback e" if "from_env http stream default_config = Inr e"
    using that by (auto simp: from_env_def default_config_def rbind_Inr split: option.splits)
  then show ?thesis
    using FromArgs_valid Validate_valid [of d] set_option_to_args [of d e] by (auto simp: FromArgs_def)
qed

theorem config_spelled_out_witness:
  "FromArgs (Some (show_nat 8000)) None (''server'' # to_args (default_config\<lparr>max_clients := 8\<rparr>)) =
     Inr (default_config\<lparr>max_clients := 8\<rparr>)"
proof -
  have v: "valid_config (default_config\<lparr>max_clients := 8\<rparr>)" by (simp add: valid_config_def default_config_def)
  have "from_env (Some (show_nat 8000)) None default_config = Inr (default_config\<lparr>port := 8000\<rparr>)"
    by (simp add: from_env_def config_Number_show)
  with v show ?thesis
    using config_spelled_out [of "Some (show_nat 8000)" None _ _ "default_config\<lparr>max_clients := 8\<rparr>" "default_config\<lparr>port := 8000\<rparr>" "''server''"]
    by blast
qed

end
