(* ===== verification/Models.thy ===== *)
theory Models
  imports Json_Roundtrip
begin

text \<open>
  The metric records of \<^verbatim>\<open>common/telemetry.hpp\<close> and \<^verbatim>\<open>common/models/\<close> and their conversions to and
  from JSON. Field names carry a prefix where two structs share one. \<^verbatim>\<open>pid_t\<close> is a 32-bit signed
  word, a process state is the character of \<^verbatim>\<open>enum class ProcessState : char\<close>, and the narrowing
  casts of the readers are \<open>ucast\<close>.
\<close>

section \<open>Records\<close>

record SampleStatus =
  ss_name :: string
  ss_state :: string
  ss_error :: string
  ss_duration_us :: u64

record InterfaceMetrics =
  if_name :: string
  rx_bytes :: u64
  tx_bytes :: u64
  rx_errors :: u64
  tx_errors :: u64
  rx_dropped :: u64
  tx_dropped :: u64
  rx_bytes_per_second :: "double option"
  tx_bytes_per_second :: "double option"

record DiskIoMetrics =
  device :: string
  read_bytes_per_second :: "double option"
  write_bytes_per_second :: "double option"
  iops :: "double option"
  busy_percent :: "double option"

record PressureMetrics =
  resource :: string
  some_avg10 :: "double option"
  some_avg60 :: "double option"
  some_avg300 :: "double option"
  full_avg10 :: "double option"

record CgroupMetrics =
  cg_path :: string
  cg_state :: string
  memory_current :: "u64 option"
  memory_max :: "u64 option"
  oom_kill :: "u64 option"
  nr_throttled :: "u64 option"
  memory_unlimited :: bool
  cpu_quota_cores :: "double option"
  cg_cpu_percent :: "double option"
  throttled_ms_per_second :: "double option"
  cpu_unlimited :: bool
  cg_pressure :: "PressureMetrics list"

record TelemetryInfo =
  interval_ms :: u64
  sequence :: u64
  collection_started_at :: u64
  collection_finished_at :: u64
  collection_us :: u64
  skipped_ticks :: u64
  process_denied :: u64
  process_vanished :: u64
  process_malformed :: u64
  processes_truncated :: bool
  instance_id :: string
  boot_id :: string
  hostname :: string
  cpu_ids :: "u32 list"
  collectors :: "SampleStatus list"
  interfaces :: "InterfaceMetrics list"
  disks :: "DiskIoMetrics list"
  pressure :: "PressureMetrics list"
  cgroup :: CgroupMetrics

record CPUMetrics =
  cpu_timestamp :: u64
  core_count :: u32
  total_usage_percent :: double
  per_core_usage_percent :: "double list"
  frequency_mhz :: double

record MemoryMetrics =
  mem_timestamp :: u64
  mem_total_bytes :: u64
  mem_available_bytes :: u64
  mem_used_bytes :: u64
  mem_used_percent :: double

record DiskMetrics =
  disk_timestamp :: u64
  disk_total_bytes :: u64
  disk_available_bytes :: u64
  disk_used_bytes :: u64
  disk_used_percent :: double

record NetworkMetrics =
  net_timestamp :: u64
  rx_bytes_total :: u64
  tx_bytes_total :: u64
  rx_kbps :: double
  tx_kbps :: double

record LoadavgMetrics =
  load_timestamp :: u64
  load_1m :: double
  load_5m :: double
  load_15m :: double

record ProcessInfo =
  starttime_ticks :: u64
  cpu_valid :: bool
  pid :: u32
  proc_name :: string
  proc_state :: char
  cpu_percent :: double
  memory_bytes :: u64
  memory_percent :: double
  thread_count :: u32

record ProcessMetrics =
  proc_timestamp :: u64
  total_processes :: u64
  running_processes :: u64
  processes :: "ProcessInfo list"

record SystemSnapshot =
  telemetry :: TelemetryInfo
  timestamp :: u64
  cpu :: CPUMetrics
  memory :: MemoryMetrics
  disk :: DiskMetrics
  network :: NetworkMetrics
  loadavg :: LoadavgMetrics
  process :: ProcessMetrics

text \<open>The default member initializers.\<close>

definition default_cgroup :: CgroupMetrics where
  "default_cgroup = \<lparr>cg_path = [], cg_state = ''disabled'', memory_current = None, memory_max = None, oom_kill = None,
     nr_throttled = None, memory_unlimited = False, cpu_quota_cores = None, cg_cpu_percent = None,
     throttled_ms_per_second = None, cpu_unlimited = False, cg_pressure = []\<rparr>"

definition default_telemetry :: TelemetryInfo where
  "default_telemetry = \<lparr>interval_ms = 1000, sequence = 0, collection_started_at = 0, collection_finished_at = 0,
     collection_us = 0, skipped_ticks = 0, process_denied = 0, process_vanished = 0, process_malformed = 0,
     processes_truncated = False, instance_id = [], boot_id = [], hostname = [], cpu_ids = [], collectors = [],
     interfaces = [], disks = [], pressure = [], cgroup = default_cgroup\<rparr>"

definition default_cpu :: CPUMetrics where
  "default_cpu = \<lparr>cpu_timestamp = 0, core_count = 0, total_usage_percent = dzero, per_core_usage_percent = [], frequency_mhz = dzero\<rparr>"

definition default_memory :: MemoryMetrics where
  "default_memory = \<lparr>mem_timestamp = 0, mem_total_bytes = 0, mem_available_bytes = 0, mem_used_bytes = 0, mem_used_percent = dzero\<rparr>"

definition default_disk :: DiskMetrics where
  "default_disk = \<lparr>disk_timestamp = 0, disk_total_bytes = 0, disk_available_bytes = 0, disk_used_bytes = 0, disk_used_percent = dzero\<rparr>"

definition default_network :: NetworkMetrics where
  "default_network = \<lparr>net_timestamp = 0, rx_bytes_total = 0, tx_bytes_total = 0, rx_kbps = dzero, tx_kbps = dzero\<rparr>"

definition default_loadavg :: LoadavgMetrics where
  "default_loadavg = \<lparr>load_timestamp = 0, load_1m = dzero, load_5m = dzero, load_15m = dzero\<rparr>"

definition default_process :: ProcessMetrics where
  "default_process = \<lparr>proc_timestamp = 0, total_processes = 0, running_processes = 0, processes = []\<rparr>"

definition default_snapshot :: SystemSnapshot where
  "default_snapshot = \<lparr>telemetry = default_telemetry, timestamp = 0, cpu = default_cpu, memory = default_memory,
     disk = default_disk, network = default_network, loadavg = default_loadavg, process = default_process\<rparr>"

section \<open>To JSON\<close>

definition SampleStatus_ToJson :: "SampleStatus \<Rightarrow> JSONValue" where
  "SampleStatus_ToJson s = JObject
     [(''name'', JString (ss_name s)), (''state'', JString (ss_state s)), (''error'', JString (ss_error s)),
      (''duration_us'', JUInt64 (ss_duration_us s))]"

definition InterfaceMetrics_ToJson :: "InterfaceMetrics \<Rightarrow> JSONValue" where
  "InterfaceMetrics_ToJson m = JObject
     [(''name'', JString (if_name m)), (''rx_bytes'', JUInt64 (rx_bytes m)), (''tx_bytes'', JUInt64 (tx_bytes m)),
      (''rx_errors'', JUInt64 (rx_errors m)), (''tx_errors'', JUInt64 (tx_errors m)),
      (''rx_dropped'', JUInt64 (rx_dropped m)), (''tx_dropped'', JUInt64 (tx_dropped m)),
      (''rx_bytes_per_second'', make_opt JDouble (rx_bytes_per_second m)),
      (''tx_bytes_per_second'', make_opt JDouble (tx_bytes_per_second m))]"

definition DiskIoMetrics_ToJson :: "DiskIoMetrics \<Rightarrow> JSONValue" where
  "DiskIoMetrics_ToJson m = JObject
     [(''device'', JString (device m)), (''read_bytes_per_second'', make_opt JDouble (read_bytes_per_second m)),
      (''write_bytes_per_second'', make_opt JDouble (write_bytes_per_second m)),
      (''iops'', make_opt JDouble (iops m)), (''busy_percent'', make_opt JDouble (busy_percent m))]"

definition PressureMetrics_ToJson :: "PressureMetrics \<Rightarrow> JSONValue" where
  "PressureMetrics_ToJson m = JObject
     [(''resource'', JString (resource m)), (''some_avg10'', make_opt JDouble (some_avg10 m)),
      (''some_avg60'', make_opt JDouble (some_avg60 m)), (''some_avg300'', make_opt JDouble (some_avg300 m)),
      (''full_avg10'', make_opt JDouble (full_avg10 m))]"

definition CgroupMetrics_ToJson :: "CgroupMetrics \<Rightarrow> JSONValue" where
  "CgroupMetrics_ToJson m = JObject
     [(''path'', JString (cg_path m)), (''state'', JString (cg_state m)),
      (''memory_current'', make_opt JUInt64 (memory_current m)), (''memory_max'', make_opt JUInt64 (memory_max m)),
      (''memory_unlimited'', JBool (memory_unlimited m)), (''cpu_quota_cores'', make_opt JDouble (cpu_quota_cores m)),
      (''cpu_unlimited'', JBool (cpu_unlimited m)), (''cpu_percent'', make_opt JDouble (cg_cpu_percent m)),
      (''nr_throttled'', make_opt JUInt64 (nr_throttled m)),
      (''throttled_ms_per_second'', make_opt JDouble (throttled_ms_per_second m)),
      (''oom_kill'', make_opt JUInt64 (oom_kill m)), (''pressure'', List_of PressureMetrics_ToJson (cg_pressure m))]"

definition TelemetryInfo_ToJson :: "TelemetryInfo \<Rightarrow> JSONValue" where
  "TelemetryInfo_ToJson t = JObject
     [(''interval_ms'', JUInt64 (interval_ms t)), (''sequence'', JUInt64 (sequence t)),
      (''instance_id'', JString (instance_id t)), (''boot_id'', JString (boot_id t)), (''hostname'', JString (hostname t)),
      (''scope'', JString ''procfs-view''), (''collection_started_at'', JUInt64 (collection_started_at t)),
      (''collection_finished_at'', JUInt64 (collection_finished_at t)), (''collection_us'', JUInt64 (collection_us t)),
      (''skipped_ticks'', JUInt64 (skipped_ticks t)), (''process_denied'', JUInt64 (process_denied t)),
      (''process_vanished'', JUInt64 (process_vanished t)), (''process_malformed'', JUInt64 (process_malformed t)),
      (''processes_truncated'', JBool (processes_truncated t)),
      (''cpu_ids'', JArray (map (\<lambda>i. JUInt64 (ucast i)) (cpu_ids t))),
      (''collectors'', List_of SampleStatus_ToJson (collectors t)),
      (''interfaces'', List_of InterfaceMetrics_ToJson (interfaces t)),
      (''disks'', List_of DiskIoMetrics_ToJson (disks t)),
      (''pressure'', List_of PressureMetrics_ToJson (pressure t)),
      (''cgroup'', CgroupMetrics_ToJson (cgroup t))]"

definition CPUMetrics_ToJson :: "CPUMetrics \<Rightarrow> JSONValue" where
  "CPUMetrics_ToJson m = JObject
     [(''timestamp'', JUInt64 (cpu_timestamp m)), (''core_count'', JUInt64 (ucast (core_count m))),
      (''total_usage_percent'', JDouble (total_usage_percent m)), (''frequency_mhz'', JDouble (frequency_mhz m)),
      (''per_core_usage_percent'', JArray (map JDouble (per_core_usage_percent m)))]"

definition MemoryMetrics_ToJson :: "MemoryMetrics \<Rightarrow> JSONValue" where
  "MemoryMetrics_ToJson m = JObject
     [(''timestamp'', JUInt64 (mem_timestamp m)), (''total_bytes'', JUInt64 (mem_total_bytes m)),
      (''available_bytes'', JUInt64 (mem_available_bytes m)), (''used_bytes'', JUInt64 (mem_used_bytes m)),
      (''used_percent'', JDouble (mem_used_percent m))]"

definition DiskMetrics_ToJson :: "DiskMetrics \<Rightarrow> JSONValue" where
  "DiskMetrics_ToJson m = JObject
     [(''timestamp'', JUInt64 (disk_timestamp m)), (''total_bytes'', JUInt64 (disk_total_bytes m)),
      (''available_bytes'', JUInt64 (disk_available_bytes m)), (''used_bytes'', JUInt64 (disk_used_bytes m)),
      (''used_percent'', JDouble (disk_used_percent m))]"

definition NetworkMetrics_ToJson :: "NetworkMetrics \<Rightarrow> JSONValue" where
  "NetworkMetrics_ToJson m = JObject
     [(''timestamp'', JUInt64 (net_timestamp m)), (''rx_bytes_total'', JUInt64 (rx_bytes_total m)),
      (''tx_bytes_total'', JUInt64 (tx_bytes_total m)), (''rx_kbps'', JDouble (rx_kbps m)), (''tx_kbps'', JDouble (tx_kbps m))]"

definition LoadavgMetrics_ToJson :: "LoadavgMetrics \<Rightarrow> JSONValue" where
  "LoadavgMetrics_ToJson m = JObject
     [(''timestamp'', JUInt64 (load_timestamp m)), (''load_1m'', JDouble (load_1m m)), (''load_5m'', JDouble (load_5m m)),
      (''load_15m'', JDouble (load_15m m))]"

text \<open>\<^verbatim>\<open>static_cast<std::int64_t>(static_cast<char>(state))\<close>: \<^verbatim>\<open>char\<close> is signed.\<close>

definition char_to_int64 :: "char \<Rightarrow> u64" where
  "char_to_int64 c = scast (of_nat (byte c) :: u8)"

definition ProcessInfo_ToJson :: "ProcessInfo \<Rightarrow> JSONValue" where
  "ProcessInfo_ToJson p = JObject
     [(''starttime_ticks'', JUInt64 (starttime_ticks p)), (''cpu_valid'', JBool (cpu_valid p)),
      (''pid'', JInt64 (scast (pid p))), (''name'', JString (proc_name p)), (''state'', JInt64 (char_to_int64 (proc_state p))),
      (''cpu_percent'', JDouble (cpu_percent p)), (''memory_bytes'', JUInt64 (memory_bytes p)),
      (''memory_percent'', JDouble (memory_percent p)), (''thread_count'', JUInt64 (ucast (thread_count p)))]"

definition ProcessMetrics_ToJson :: "ProcessMetrics \<Rightarrow> JSONValue" where
  "ProcessMetrics_ToJson m = JObject
     [(''timestamp'', JUInt64 (proc_timestamp m)), (''total_processes'', JUInt64 (total_processes m)),
      (''running_processes'', JUInt64 (running_processes m)),
      (''processes'', JArray (map ProcessInfo_ToJson (processes m)))]"

definition SystemSnapshot_members :: "SystemSnapshot \<Rightarrow> (string \<times> JSONValue) list" where
  "SystemSnapshot_members s =
     [(''telemetry'', TelemetryInfo_ToJson (telemetry s)), (''timestamp'', JUInt64 (timestamp s)),
      (''cpu'', CPUMetrics_ToJson (cpu s)), (''memory'', MemoryMetrics_ToJson (memory s)),
      (''disk'', DiskMetrics_ToJson (disk s)), (''network'', NetworkMetrics_ToJson (network s)),
      (''loadavg'', LoadavgMetrics_ToJson (loadavg s)), (''process'', ProcessMetrics_ToJson (process s))]"

definition SystemSnapshot_ToJson :: "SystemSnapshot \<Rightarrow> JSONValue" where
  "SystemSnapshot_ToJson s = JObject (SystemSnapshot_members s)"

section \<open>From JSON\<close>

text \<open>
  The reading idioms: \<open>UInt(v, key).value_or(d)\<close>, which is also what the longhand
  \<open>value[key]->get().AsUInt64()\<close> does, \<open>AsDouble\<close> or the initial 0, an array or nothing.
\<close>

definition uint_or :: "u64 \<Rightarrow> JSONValue \<Rightarrow> string \<Rightarrow> u64" where
  "uint_or d v key = (case UInt v key of Some n \<Rightarrow> n | None \<Rightarrow> d)"

definition int_or :: "u64 \<Rightarrow> JSONValue \<Rightarrow> string \<Rightarrow> u64" where
  "int_or d v key = (case Option.bind (at_key v key) AsInt64 of Some n \<Rightarrow> n | None \<Rightarrow> d)"

definition double_of :: "JSONValue \<Rightarrow> string \<Rightarrow> double" where
  "double_of v key = (case Option.bind (at_key v key) AsDouble of Some d \<Rightarrow> d | None \<Rightarrow> dzero)"

definition array_of :: "JSONValue \<Rightarrow> string \<Rightarrow> JSONValue list" where
  "array_of v key = (case Option.bind (at_key v key) AsArray of Some a \<Rightarrow> a | None \<Rightarrow> [])"

definition CPUMetrics_FromJson :: "JSONValue \<Rightarrow> CPUMetrics" where
  "CPUMetrics_FromJson v =
     \<lparr>cpu_timestamp = uint_or 0 v ''timestamp'', core_count = ucast (uint_or 0 v ''core_count''),
      total_usage_percent = double_of v ''total_usage_percent'',
      per_core_usage_percent = List.map_filter AsDouble (array_of v ''per_core_usage_percent''),
      frequency_mhz = double_of v ''frequency_mhz''\<rparr>"

definition MemoryMetrics_FromJson :: "JSONValue \<Rightarrow> MemoryMetrics" where
  "MemoryMetrics_FromJson v =
     \<lparr>mem_timestamp = uint_or 0 v ''timestamp'', mem_total_bytes = uint_or 0 v ''total_bytes'',
      mem_available_bytes = uint_or 0 v ''available_bytes'', mem_used_bytes = uint_or 0 v ''used_bytes'',
      mem_used_percent = double_of v ''used_percent''\<rparr>"

definition DiskMetrics_FromJson :: "JSONValue \<Rightarrow> DiskMetrics" where
  "DiskMetrics_FromJson v =
     \<lparr>disk_timestamp = uint_or 0 v ''timestamp'', disk_total_bytes = uint_or 0 v ''total_bytes'',
      disk_available_bytes = uint_or 0 v ''available_bytes'', disk_used_bytes = uint_or 0 v ''used_bytes'',
      disk_used_percent = double_of v ''used_percent''\<rparr>"

definition NetworkMetrics_FromJson :: "JSONValue \<Rightarrow> NetworkMetrics" where
  "NetworkMetrics_FromJson v =
     \<lparr>net_timestamp = uint_or 0 v ''timestamp'', rx_bytes_total = uint_or 0 v ''rx_bytes_total'',
      tx_bytes_total = uint_or 0 v ''tx_bytes_total'', rx_kbps = double_of v ''rx_kbps'', tx_kbps = double_of v ''tx_kbps''\<rparr>"

definition LoadavgMetrics_FromJson :: "JSONValue \<Rightarrow> LoadavgMetrics" where
  "LoadavgMetrics_FromJson v =
     \<lparr>load_timestamp = uint_or 0 v ''timestamp'', load_1m = double_of v ''load_1m'', load_5m = double_of v ''load_5m'',
      load_15m = double_of v ''load_15m''\<rparr>"

definition ProcessInfo_FromJson :: "JSONValue \<Rightarrow> ProcessInfo" where
  "ProcessInfo_FromJson v =
     \<lparr>starttime_ticks = uint_or 0 v ''starttime_ticks'', cpu_valid = Boolean v ''cpu_valid'',
      pid = ucast (int_or 0 v ''pid''), proc_name = Text v ''name'',
      proc_state = (case Option.bind (at_key v ''state'') AsInt64 of Some n \<Rightarrow> char_of (unat (ucast n :: u8)) | None \<Rightarrow> CHR ''?''),
      cpu_percent = double_of v ''cpu_percent'', memory_bytes = uint_or 0 v ''memory_bytes'',
      memory_percent = double_of v ''memory_percent'', thread_count = ucast (uint_or 0 v ''thread_count'')\<rparr>"

definition ProcessMetrics_FromJson :: "JSONValue \<Rightarrow> ProcessMetrics" where
  "ProcessMetrics_FromJson v =
     \<lparr>proc_timestamp = uint_or 0 v ''timestamp'', total_processes = uint_or 0 v ''total_processes'',
      running_processes = uint_or 0 v ''running_processes'',
      processes = map ProcessInfo_FromJson (array_of v ''processes'')\<rparr>"

definition read_pressure_item :: "JSONValue \<Rightarrow> PressureMetrics" where
  "read_pressure_item p =
     \<lparr>resource = Text p ''resource'', some_avg10 = Number p ''some_avg10'', some_avg60 = Number p ''some_avg60'',
      some_avg300 = Number p ''some_avg300'', full_avg10 = Number p ''full_avg10''\<rparr>"

definition ReadPressure :: "JSONValue \<Rightarrow> PressureMetrics list" where
  "ReadPressure v = (case AsArray v of Some a \<Rightarrow> map read_pressure_item a | None \<Rightarrow> [])"

definition read_status :: "JSONValue \<Rightarrow> SampleStatus" where
  "read_status p =
     \<lparr>ss_name = Text p ''name'', ss_state = Text p ''state'', ss_error = Text p ''error'',
      ss_duration_us = uint_or 0 p ''duration_us''\<rparr>"

definition read_interface :: "JSONValue \<Rightarrow> InterfaceMetrics" where
  "read_interface p =
     \<lparr>if_name = Text p ''name'', rx_bytes = uint_or 0 p ''rx_bytes'', tx_bytes = uint_or 0 p ''tx_bytes'',
      rx_errors = uint_or 0 p ''rx_errors'', tx_errors = uint_or 0 p ''tx_errors'',
      rx_dropped = uint_or 0 p ''rx_dropped'', tx_dropped = uint_or 0 p ''tx_dropped'',
      rx_bytes_per_second = Number p ''rx_bytes_per_second'', tx_bytes_per_second = Number p ''tx_bytes_per_second''\<rparr>"

definition read_disk_io :: "JSONValue \<Rightarrow> DiskIoMetrics" where
  "read_disk_io p =
     \<lparr>device = Text p ''device'', read_bytes_per_second = Number p ''read_bytes_per_second'',
      write_bytes_per_second = Number p ''write_bytes_per_second'', iops = Number p ''iops'',
      busy_percent = Number p ''busy_percent''\<rparr>"

definition read_cgroup :: "JSONValue \<Rightarrow> CgroupMetrics" where
  "read_cgroup p =
     \<lparr>cg_path = Text p ''path'', cg_state = Text p ''state'', memory_current = UInt p ''memory_current'',
      memory_max = UInt p ''memory_max'', oom_kill = UInt p ''oom_kill'', nr_throttled = UInt p ''nr_throttled'',
      memory_unlimited = Boolean p ''memory_unlimited'', cpu_quota_cores = Number p ''cpu_quota_cores'',
      cg_cpu_percent = Number p ''cpu_percent'', throttled_ms_per_second = Number p ''throttled_ms_per_second'',
      cpu_unlimited = Boolean p ''cpu_unlimited'',
      cg_pressure = (case Field p ''pressure'' of Some f \<Rightarrow> ReadPressure f | None \<Rightarrow> [])\<rparr>"

definition read_cpu_id :: "JSONValue \<Rightarrow> u32 option" where
  "read_cpu_id v = (case AsUInt64 v of Some n \<Rightarrow> if unat n \<le> 2 ^ 32 - 1 then Some (ucast n) else None | None \<Rightarrow> None)"

definition TelemetryInfo_FromJson :: "JSONValue \<Rightarrow> TelemetryInfo" where
  "TelemetryInfo_FromJson v =
     \<lparr>interval_ms = uint_or 1000 v ''interval_ms'', sequence = uint_or 0 v ''sequence'',
      collection_started_at = uint_or 0 v ''collection_started_at'',
      collection_finished_at = uint_or 0 v ''collection_finished_at'', collection_us = uint_or 0 v ''collection_us'',
      skipped_ticks = uint_or 0 v ''skipped_ticks'', process_denied = uint_or 0 v ''process_denied'',
      process_vanished = uint_or 0 v ''process_vanished'', process_malformed = uint_or 0 v ''process_malformed'',
      processes_truncated = Boolean v ''processes_truncated'', instance_id = Text v ''instance_id'',
      boot_id = Text v ''boot_id'', hostname = Text v ''hostname'',
      cpu_ids = List.map_filter read_cpu_id (array_of v ''cpu_ids''),
      collectors = map read_status (array_of v ''collectors''),
      interfaces = map read_interface (array_of v ''interfaces''),
      disks = map read_disk_io (array_of v ''disks''),
      pressure = (case Field v ''pressure'' of Some f \<Rightarrow> ReadPressure f | None \<Rightarrow> []),
      cgroup = (case Field v ''cgroup'' of Some p \<Rightarrow> read_cgroup p | None \<Rightarrow> default_cgroup)\<rparr>"

definition section_or :: "'a \<Rightarrow> (JSONValue \<Rightarrow> 'a) \<Rightarrow> JSONValue \<Rightarrow> string \<Rightarrow> 'a" where
  "section_or d f v key = (case at_key v key of Some x \<Rightarrow> f x | None \<Rightarrow> d)"

definition SystemSnapshot_FromJson :: "JSONValue \<Rightarrow> SystemSnapshot" where
  "SystemSnapshot_FromJson v =
     \<lparr>telemetry = section_or default_telemetry TelemetryInfo_FromJson v ''telemetry'',
      timestamp = uint_or 0 v ''timestamp'',
      cpu = section_or default_cpu CPUMetrics_FromJson v ''cpu'',
      memory = section_or default_memory MemoryMetrics_FromJson v ''memory'',
      disk = section_or default_disk DiskMetrics_FromJson v ''disk'',
      network = section_or default_network NetworkMetrics_FromJson v ''network'',
      loadavg = section_or default_loadavg LoadavgMetrics_FromJson v ''loadavg'',
      process = section_or default_process ProcessMetrics_FromJson v ''process''\<rparr>"

end
