(* ===== verification/Model_Codec.thy ===== *)
theory Model_Codec
  imports Models
begin

text \<open>
  Writing a metric record to JSON, printing, parsing and reading it back gives the record, for
  records with nonnegative finite numbers and UTF-8 texts: the lemmas are stated for the normal
  form \<open>norm\<close> that printing and parsing produces.
\<close>

section \<open>Leaves\<close>

fun num_ok :: "double \<Rightarrow> bool" where
  "num_ok (Finite neg a) = (\<not> neg \<and> representable a \<and> fits (Finite neg a))"
| "num_ok _ = False"

abbreviation opt_ok :: "('a \<Rightarrow> bool) \<Rightarrow> 'a option \<Rightarrow> bool" where
  "opt_ok P x \<equiv> (case x of Some d \<Rightarrow> P d | None \<Rightarrow> True)"

lemma AsDouble_norm:
  assumes "num_ok d"
  shows "AsDouble (norm_double d) = Some d"
proof -
  obtain a where d: "d = Finite False a" "representable a" "fits d" using assms by (cases d) auto
  show ?thesis
    using d(2) representable_nonneg [OF d(2)]
  proof (cases rule: to_chars_mag_parts)
    case (integer M)
    then have "M < 2 ^ 64" using d by (simp add: Let_def)
    moreover have "round_mag (of_nat M) = of_nat M" "(of_nat M :: rat) < 2 ^ 1024"
      using d(2) integer(1) round_mag_representable by (auto simp: representable_def)
    ultimately show ?thesis
      using integer by (simp add: d(1) Let_def of_nat_double_def to_double_def unat_of_nat)
  next
    case (float ds fs es)
    then have "\<not> list_all is_digit (to_chars_mag a)" by (auto simp: frac_part_def exp_part_def)
    then show ?thesis by (simp add: d(1) Let_def)
  qed
qed

lemma num_ok_finite: "num_ok d \<Longrightarrow> isfinite d"
  by (cases d) auto

lemma num_ok_wf: "num_ok d \<Longrightarrow> wf_double d \<and> fits d"
  by (cases d) auto

lemma repair_ascii: "list_all (\<lambda>c. byte c < 128) k \<Longrightarrow> repair k = k"
  by (induction k) auto

lemma repair_utf8: "scalar n \<Longrightarrow> repair (utf8 n @ s) = utf8 n @ repair s"
proof -
  assume n: "scalar n"
  obtain c cs where c: "utf8 n = c # cs" by (cases "utf8 n") auto
  show ?thesis
  proof (cases "byte c < 128")
    case True
    then have "utf8 n = [c]"
      using c n by (auto simp: utf8_def utf8_bytes_def scalar_def of_char_of split: if_splits)
    then show ?thesis using True by simp
  next
    case False
    have "Utf8Length (c # cs @ s) = length (utf8 n)" using Utf8Length_utf8 [OF n, of s] c by simp
    then show ?thesis using False c by (simp add: Let_def)
  qed
qed

lemma repair_valid: "valid_utf8 s \<Longrightarrow> repair s = s"
proof -
  assume "valid_utf8 s"
  then obtain ns where "list_all scalar ns" "s = concat (map utf8 ns)" by (auto simp: valid_utf8_def)
  then show ?thesis by (induction ns arbitrary: s) (simp_all add: repair_utf8)
qed

section \<open>Objects\<close>

lemma at_key_Cons: "at_key (JObject ((k, v) # ms)) key = (if k = key then Some v else at_key (JObject ms) key)"
  by (simp add: at_key_def)

lemma at_key_Nil: "at_key (JObject []) key = None"
  by (simp add: at_key_def)

lemmas key_simps = at_key_Cons at_key_Nil repair_ascii repair_valid AsDouble_norm num_ok_finite
  UInt_def Number_def Text_def Boolean_def Field_def uint_or_def int_or_def double_of_def array_of_def section_or_def

lemma number_make: "opt_ok num_ok x \<Longrightarrow> (case AsDouble (norm (make_opt JDouble x)) of Some n \<Rightarrow> if isfinite n then Some n else None | None \<Rightarrow> None) = x"
  by (cases x) (simp_all add: make_opt_def AsDouble_norm num_ok_finite)

lemma uint_make: "AsUInt64 (norm (make_opt JUInt64 x)) = x"
  by (cases x) (simp_all add: make_opt_def)

lemma map_filter_doubles: "list_all num_ok ds \<Longrightarrow> List.map_filter AsDouble (map (norm \<circ> JDouble) ds) = ds"
  by (induction ds) (simp_all add: List.map_filter_simps AsDouble_norm)

definition cpu_ok :: "CPUMetrics \<Rightarrow> bool" where
  "cpu_ok m \<longleftrightarrow> num_ok (total_usage_percent m) \<and> num_ok (frequency_mhz m) \<and> list_all num_ok (per_core_usage_percent m)"

lemma ucast_back [simp]: "ucast (ucast (x :: u32) :: u64) = x" "ucast (scast (x :: u32) :: u64) = x"
  by (rule bit_word_eqI; simp add: bit_simps)+

lemma cpu_codec: "cpu_ok m \<Longrightarrow> CPUMetrics_FromJson (norm (CPUMetrics_ToJson m)) = m"
  by (cases m) (simp add: cpu_ok_def CPUMetrics_ToJson_def CPUMetrics_FromJson_def key_simps map_filter_doubles)

definition memory_ok :: "MemoryMetrics \<Rightarrow> bool" where
  "memory_ok m \<longleftrightarrow> num_ok (mem_used_percent m)"

lemma memory_codec: "memory_ok m \<Longrightarrow> MemoryMetrics_FromJson (norm (MemoryMetrics_ToJson m)) = m"
  by (cases m) (simp add: memory_ok_def MemoryMetrics_ToJson_def MemoryMetrics_FromJson_def key_simps)

definition disk_ok :: "DiskMetrics \<Rightarrow> bool" where
  "disk_ok m \<longleftrightarrow> num_ok (disk_used_percent m)"

lemma disk_codec: "disk_ok m \<Longrightarrow> DiskMetrics_FromJson (norm (DiskMetrics_ToJson m)) = m"
  by (cases m) (simp add: disk_ok_def DiskMetrics_ToJson_def DiskMetrics_FromJson_def key_simps)

definition network_ok :: "NetworkMetrics \<Rightarrow> bool" where
  "network_ok m \<longleftrightarrow> num_ok (rx_kbps m) \<and> num_ok (tx_kbps m)"

lemma network_codec: "network_ok m \<Longrightarrow> NetworkMetrics_FromJson (norm (NetworkMetrics_ToJson m)) = m"
  by (cases m) (simp add: network_ok_def NetworkMetrics_ToJson_def NetworkMetrics_FromJson_def key_simps)

definition loadavg_ok :: "LoadavgMetrics \<Rightarrow> bool" where
  "loadavg_ok m \<longleftrightarrow> num_ok (load_1m m) \<and> num_ok (load_5m m) \<and> num_ok (load_15m m)"

lemma loadavg_codec: "loadavg_ok m \<Longrightarrow> LoadavgMetrics_FromJson (norm (LoadavgMetrics_ToJson m)) = m"
  by (cases m) (simp add: loadavg_ok_def LoadavgMetrics_ToJson_def LoadavgMetrics_FromJson_def key_simps)

definition info_ok :: "ProcessInfo \<Rightarrow> bool" where
  "info_ok p \<longleftrightarrow> valid_utf8 (proc_name p) \<and> num_ok (cpu_percent p) \<and> num_ok (memory_percent p)"

lemma AsInt64_norm: "AsInt64 (norm (JInt64 v)) = Some v"
proof (cases "0 \<le> sint v")
  case True
  have lt: "sint v < 2 ^ 63" using sint_less [of v] by simp
  have "uint v = take_bit 64 (sint v)" using uint_sint [of v] by simp
  also have "\<dots> = sint v" using True lt by (simp add: take_bit_int_eq_self_iff)
  finally have "unat v \<le> 2 ^ 63 - 1" using lt by (simp add: unat_eq_nat_uint)
  with True show ?thesis by simp
qed simp

lemma char_back: "char_of (unat (ucast (char_to_int64 c) :: u8)) = c"
proof -
  have "ucast (scast (w :: u8) :: u64) = w" for w by (rule bit_word_eqI) (simp add: bit_simps)
  then show ?thesis by (simp add: char_to_int64_def unat_of_nat)
qed

lemma info_codec: "info_ok p \<Longrightarrow> ProcessInfo_FromJson (norm (ProcessInfo_ToJson p)) = p"
  by (cases p) (simp add: info_ok_def ProcessInfo_ToJson_def ProcessInfo_FromJson_def key_simps char_back
      AsInt64_norm del: norm.simps(1))

lemma map_codec: "(\<And>x. x \<in> set xs \<Longrightarrow> f (norm (g x)) = x) \<Longrightarrow> map f (map norm (map g xs)) = xs"
  by (induction xs) auto

definition process_ok :: "ProcessMetrics \<Rightarrow> bool" where
  "process_ok m \<longleftrightarrow> list_all info_ok (processes m)"

lemma process_codec:
  assumes "process_ok m"
  shows "ProcessMetrics_FromJson (norm (ProcessMetrics_ToJson m)) = m"
proof -
  have "map ProcessInfo_FromJson (map norm (map ProcessInfo_ToJson (processes m))) = processes m"
    using assms by (intro map_codec) (auto simp: process_ok_def list_all_iff info_codec)
  then show ?thesis
    by (cases m) (simp add: ProcessMetrics_ToJson_def ProcessMetrics_FromJson_def key_simps del: map_map)
qed

section \<open>Telemetry\<close>

definition pressure_ok :: "PressureMetrics \<Rightarrow> bool" where
  "pressure_ok p \<longleftrightarrow> valid_utf8 (resource p) \<and> opt_ok num_ok (some_avg10 p) \<and> opt_ok num_ok (some_avg60 p) \<and>
     opt_ok num_ok (some_avg300 p) \<and> opt_ok num_ok (full_avg10 p)"

lemma pressure_codec: "pressure_ok p \<Longrightarrow> read_pressure_item (norm (PressureMetrics_ToJson p)) = p"
  by (cases p) (simp add: pressure_ok_def read_pressure_item_def PressureMetrics_ToJson_def key_simps number_make)

lemma pressures_codec: "list_all pressure_ok ps \<Longrightarrow> ReadPressure (norm (List_of PressureMetrics_ToJson ps)) = ps"
  using map_codec [of ps read_pressure_item PressureMetrics_ToJson] pressure_codec
  by (auto simp: ReadPressure_def List_of_def list_all_iff)

definition status_ok :: "SampleStatus \<Rightarrow> bool" where
  "status_ok s \<longleftrightarrow> valid_utf8 (ss_name s) \<and> valid_utf8 (ss_state s) \<and> valid_utf8 (ss_error s)"

lemma status_codec: "status_ok s \<Longrightarrow> read_status (norm (SampleStatus_ToJson s)) = s"
  by (cases s) (simp add: status_ok_def read_status_def SampleStatus_ToJson_def key_simps)

definition interface_ok :: "InterfaceMetrics \<Rightarrow> bool" where
  "interface_ok m \<longleftrightarrow> valid_utf8 (if_name m) \<and> opt_ok num_ok (rx_bytes_per_second m) \<and> opt_ok num_ok (tx_bytes_per_second m)"

lemma interface_codec: "interface_ok m \<Longrightarrow> read_interface (norm (InterfaceMetrics_ToJson m)) = m"
  by (cases m) (simp add: interface_ok_def read_interface_def InterfaceMetrics_ToJson_def key_simps number_make)

definition disk_io_ok :: "DiskIoMetrics \<Rightarrow> bool" where
  "disk_io_ok m \<longleftrightarrow> valid_utf8 (device m) \<and> opt_ok num_ok (read_bytes_per_second m) \<and>
     opt_ok num_ok (write_bytes_per_second m) \<and> opt_ok num_ok (iops m) \<and> opt_ok num_ok (busy_percent m)"

lemma disk_io_codec: "disk_io_ok m \<Longrightarrow> read_disk_io (norm (DiskIoMetrics_ToJson m)) = m"
  by (cases m) (simp add: disk_io_ok_def read_disk_io_def DiskIoMetrics_ToJson_def key_simps number_make)

definition cgroup_ok :: "CgroupMetrics \<Rightarrow> bool" where
  "cgroup_ok m \<longleftrightarrow> valid_utf8 (cg_path m) \<and> valid_utf8 (cg_state m) \<and> opt_ok num_ok (cpu_quota_cores m) \<and>
     opt_ok num_ok (cg_cpu_percent m) \<and> opt_ok num_ok (throttled_ms_per_second m) \<and> list_all pressure_ok (cg_pressure m)"

lemma cgroup_codec: "cgroup_ok m \<Longrightarrow> read_cgroup (norm (CgroupMetrics_ToJson m)) = m"
  by (cases m) (simp add: cgroup_ok_def read_cgroup_def CgroupMetrics_ToJson_def key_simps number_make uint_make pressures_codec)

definition telemetry_ok :: "TelemetryInfo \<Rightarrow> bool" where
  "telemetry_ok t \<longleftrightarrow> valid_utf8 (instance_id t) \<and> valid_utf8 (boot_id t) \<and> valid_utf8 (hostname t) \<and>
     list_all status_ok (collectors t) \<and> list_all interface_ok (interfaces t) \<and> list_all disk_io_ok (disks t) \<and>
     list_all pressure_ok (pressure t) \<and> cgroup_ok (cgroup t)"

lemma cpu_ids_codec: "List.map_filter read_cpu_id (map norm (map (\<lambda>i. JUInt64 (ucast i)) ids)) = ids"
proof (induction ids)
  case (Cons i ids)
  have "unat i < 2 ^ LENGTH(32)" by (rule unsigned_less)
  then have "unat (ucast i :: u64) \<le> 2 ^ 32 - 1" by (simp add: unsigned_ucast_eq take_bit_nat_eq_self)
  then show ?case using Cons by (simp add: List.map_filter_simps read_cpu_id_def)
qed (simp add: List.map_filter_simps)

lemma telemetry_codec:
  assumes "telemetry_ok t"
  shows "TelemetryInfo_FromJson (norm (TelemetryInfo_ToJson t)) = t"
proof -
  have "map read_status (map norm (map SampleStatus_ToJson (collectors t))) = collectors t"
    "map read_interface (map norm (map InterfaceMetrics_ToJson (interfaces t))) = interfaces t"
    "map read_disk_io (map norm (map DiskIoMetrics_ToJson (disks t))) = disks t"
    using assms by (intro map_codec; auto simp: telemetry_ok_def list_all_iff status_codec interface_codec disk_io_codec)+
  then show ?thesis
    using assms cpu_ids_codec [of "cpu_ids t"]
    by (cases t) (simp add: telemetry_ok_def TelemetryInfo_ToJson_def TelemetryInfo_FromJson_def key_simps
        pressures_codec cgroup_codec List_of_def [of SampleStatus_ToJson] List_of_def [of InterfaceMetrics_ToJson]
        List_of_def [of DiskIoMetrics_ToJson] del: map_map)
qed

section \<open>Snapshots\<close>

definition snapshot_ok :: "SystemSnapshot \<Rightarrow> bool" where
  "snapshot_ok s \<longleftrightarrow> telemetry_ok (telemetry s) \<and> cpu_ok (cpu s) \<and> memory_ok (memory s) \<and> disk_ok (disk s) \<and>
     network_ok (network s) \<and> loadavg_ok (loadavg s) \<and> process_ok (process s)"

lemma snapshot_codec:
  assumes "snapshot_ok s" "list_all (\<lambda>(k, v). list_all (\<lambda>c. byte c < 128) k) extra"
  shows "SystemSnapshot_FromJson (norm (JObject (SystemSnapshot_members s @ extra))) = s"
  using assms
  by (cases s) (simp add: snapshot_ok_def SystemSnapshot_members_def SystemSnapshot_FromJson_def key_simps
      telemetry_codec cpu_codec memory_codec disk_codec network_codec loadavg_codec process_codec)

end
