(* ===== verification/Protocol.thy ===== *)
theory Protocol
  imports Model_Codec Framing
begin

text \<open>
  The snapshot codec of \<^verbatim>\<open>common/src/protocol.cpp\<close>: \<open>Encode\<close> prints a snapshot as JSON, \<open>Decode\<close> parses
  a payload, validates it and reads the snapshot. \<open>Decode\<close> returns the reason it stores in \<open>error\<close>
  on the left. The sections the loops have checked to be there are read with \<open>sec\<close>.
\<close>

definition kVersion :: u64 where
  "kVersion = 2"

definition Encode :: "SystemSnapshot \<Rightarrow> string result" where
  "Encode s =
     ToString (JObject (Add (Add (SystemSnapshot_members s) ''protocol_version'' (JUInt64 kVersion))
       ''type'' (JString ''snapshot''))) (- 1)"

definition check :: "bool \<Rightarrow> string \<Rightarrow> string + unit" where
  "check b reason = (if b then Inr () else Inl reason)"

fun check_each :: "('k \<Rightarrow> bool) \<Rightarrow> ('k \<Rightarrow> string) \<Rightarrow> 'k list \<Rightarrow> string + unit" where
  "check_each P reason [] = Inr ()"
| "check_each P reason (k # ks) = (if P k then check_each P reason ks else Inl (reason k))"

definition sec :: "JSONValue \<Rightarrow> string \<Rightarrow> JSONValue" where
  "sec v key = (case Field v key of Some p \<Rightarrow> p | None \<Rightarrow> JNull)"

definition hundred :: double where
  "hundred = Finite False 100"

definition percent_in_range :: "double \<Rightarrow> bool" where
  "percent_in_range d \<longleftrightarrow> \<not> dless d dzero \<and> \<not> dless hundred d"

definition topology_ok :: "JSONValue \<Rightarrow> bool" where
  "topology_ok cpu_v =
     (case (UInt cpu_v ''core_count'', Field cpu_v ''per_core_usage_percent'') of
        (Some cores, Some per_core) \<Rightarrow> unat cores \<le> 65536 \<and> IsArray per_core \<and> json_size per_core = unat cores
      | _ \<Rightarrow> False)"

definition core_usage_ok :: "JSONValue \<Rightarrow> bool" where
  "core_usage_ok n = (case AsDouble n of Some d \<Rightarrow> isfinite d \<and> percent_in_range d | None \<Rightarrow> False)"

definition bytes_ok :: "JSONValue \<Rightarrow> bool" where
  "bytes_ok v =
     (case (UInt v ''total_bytes'', UInt v ''available_bytes'', UInt v ''used_bytes'', Number v ''used_percent'') of
        (Some tot, Some available, Some used, Some percent) \<Rightarrow> available \<le> tot \<and> used \<le> tot \<and> percent_in_range percent
      | _ \<Rightarrow> False)"

definition rate_ok :: "JSONValue \<Rightarrow> string \<Rightarrow> bool" where
  "rate_ok v key = (case Number v key of Some rate \<Rightarrow> \<not> dless rate dzero | None \<Rightarrow> False)"

definition process_fields_ok :: "JSONValue \<Rightarrow> bool" where
  "process_fields_ok p =
     (case (UInt p ''pid'', UInt p ''thread_count'', Field p ''name'', UInt p ''state'') of
        (Some ident, Some threads, Some nm, Some st) \<Rightarrow>
          ident \<noteq> 0 \<and> unat ident \<le> 2 ^ 31 - 1 \<and> unat threads \<le> 2 ^ 32 - 1 \<and>
          rate_ok p ''cpu_percent'' \<and> rate_ok p ''memory_percent'' \<and> IsString nm \<and> unat st \<le> 127 \<and>
          UInt p ''memory_bytes'' \<noteq> None \<and> UInt p ''starttime_ticks'' \<noteq> None
      | _ \<Rightarrow> False)"

definition process_list_ok :: "JSONValue \<Rightarrow> bool" where
  "process_list_ok v =
     (case Field v ''processes'' of Some l \<Rightarrow> IsArray l \<and> json_size l \<le> 10000 | None \<Rightarrow> False)"

definition interval_ok :: "JSONValue \<Rightarrow> bool" where
  "interval_ok t = (case UInt t ''interval_ms'' of Some i \<Rightarrow> 100 \<le> i \<and> i \<le> 60000 | None \<Rightarrow> False)"

text \<open>The checks of \<open>Decode\<close> on the parsed document, in order.\<close>

definition validate_json :: "JSONValue \<Rightarrow> string + unit" where
  "validate_json v =
     rbind (check (UInt v ''protocol_version'' = Some kVersion \<and> Text v ''type'' = ''snapshot'') ''unsupported protocol/version'') (\<lambda>_.
     rbind (check_each (\<lambda>key. case Field v key of Some p \<Rightarrow> IsObject p | None \<Rightarrow> False) (\<lambda>key. ''missing object: '' @ key)
             [''cpu'', ''memory'', ''network'', ''disk'', ''process'', ''loadavg'', ''telemetry'']) (\<lambda>_.
     rbind (check_each (\<lambda>key. UInt (sec v key) ''timestamp'' \<noteq> None) (\<lambda>key. ''invalid timestamp: '' @ key)
             [''cpu'', ''memory'', ''network'', ''disk'', ''process'', ''loadavg'']) (\<lambda>_.
     rbind (check (topology_ok (sec v ''cpu'')) ''invalid CPU topology'') (\<lambda>_.
     rbind (check (case Number (sec v ''cpu'') ''total_usage_percent'' of Some d \<Rightarrow> percent_in_range d | None \<Rightarrow> False)
             ''invalid cpu.total_usage_percent'') (\<lambda>_.
     rbind (check (list_all core_usage_ok (array_of (sec v ''cpu'') ''per_core_usage_percent'')) ''invalid per-core usage'') (\<lambda>_.
     rbind (check_each (\<lambda>key. bytes_ok (sec v key)) (\<lambda>key. ''invalid byte accounting: '' @ key) [''memory'', ''disk'']) (\<lambda>_.
     rbind (check_each (rate_ok (sec v ''network'')) (\<lambda>key. ''invalid network rate: '' @ key) [''rx_kbps'', ''tx_kbps'']) (\<lambda>_.
     rbind (check_each (rate_ok (sec v ''loadavg'')) (\<lambda>key. ''invalid load: '' @ key) [''load_1m'', ''load_5m'', ''load_15m'']) (\<lambda>_.
     rbind (check (UInt (sec v ''telemetry'') ''sequence'' \<noteq> None \<and> Text (sec v ''telemetry'') ''instance_id'' \<noteq> [])
             ''missing snapshot identity'') (\<lambda>_.
     rbind (check (interval_ok (sec v ''telemetry'')) ''invalid sampling interval'') (\<lambda>_.
     rbind (check (process_list_ok (sec v ''process'')) ''invalid process list'') (\<lambda>_.
       check (list_all process_fields_ok (array_of (sec v ''process'') ''processes'')) ''invalid process fields''))))))))))))"

definition metric_range_ok :: "SystemSnapshot \<Rightarrow> bool" where
  "metric_range_ok s \<longleftrightarrow>
     isfinite (total_usage_percent (cpu s)) \<and> percent_in_range (total_usage_percent (cpu s)) \<and>
     isfinite (mem_used_percent (memory s)) \<and> percent_in_range (mem_used_percent (memory s))"

definition Decode :: "string \<Rightarrow> string + SystemSnapshot" where
  "Decode text_in =
     (case Parse text_in of
        None \<Rightarrow> Inl ''invalid JSON or parser limit exceeded''
      | Some v \<Rightarrow>
          rbind (validate_json v) (\<lambda>_.
            let s = SystemSnapshot_FromJson v
            in if metric_range_ok s then Inr s else Inl ''invalid metric range''))"

section \<open>What a decoded snapshot satisfies\<close>

definition rate_valid :: "double \<Rightarrow> bool" where
  "rate_valid d \<longleftrightarrow> isfinite d \<and> \<not> dless d dzero"

definition percent_valid :: "double \<Rightarrow> bool" where
  "percent_valid d \<longleftrightarrow> isfinite d \<and> percent_in_range d"

definition info_valid :: "ProcessInfo \<Rightarrow> bool" where
  "info_valid p \<longleftrightarrow> 0 < sint (pid p) \<and> rate_valid (cpu_percent p) \<and> rate_valid (memory_percent p) \<and> byte (proc_state p) < 128"

definition snapshot_valid :: "SystemSnapshot \<Rightarrow> bool" where
  "snapshot_valid s \<longleftrightarrow>
     unat (core_count (cpu s)) = length (per_core_usage_percent (cpu s)) \<and> unat (core_count (cpu s)) \<le> 65536 \<and>
     percent_valid (total_usage_percent (cpu s)) \<and> list_all percent_valid (per_core_usage_percent (cpu s)) \<and>
     mem_available_bytes (memory s) \<le> mem_total_bytes (memory s) \<and> mem_used_bytes (memory s) \<le> mem_total_bytes (memory s) \<and>
     percent_valid (mem_used_percent (memory s)) \<and>
     disk_available_bytes (disk s) \<le> disk_total_bytes (disk s) \<and> disk_used_bytes (disk s) \<le> disk_total_bytes (disk s) \<and>
     percent_valid (disk_used_percent (disk s)) \<and>
     rate_valid (rx_kbps (network s)) \<and> rate_valid (tx_kbps (network s)) \<and>
     rate_valid (load_1m (loadavg s)) \<and> rate_valid (load_5m (loadavg s)) \<and> rate_valid (load_15m (loadavg s)) \<and>
     instance_id (telemetry s) \<noteq> [] \<and> 100 \<le> interval_ms (telemetry s) \<and> interval_ms (telemetry s) \<le> 60000 \<and>
     length (processes (process s)) \<le> 10000 \<and> list_all info_valid (processes (process s))"

lemma check_Inr: "check b r = Inr u \<longleftrightarrow> b"
  by (simp add: check_def)

lemma check_each_Inr: "check_each P r ks = Inr u \<longleftrightarrow> list_all P ks"
  by (induction ks) auto

declare check_each.simps [simp del]

lemmas validate_simps = validate_json_def rbind_Inr check_Inr check_each_Inr

lemma double_of_Number: "Number v key = Some d \<Longrightarrow> double_of v key = d \<and> isfinite d"
  by (auto simp: Number_def double_of_def Field_def split: option.splits if_splits)

lemma rate_ok_valid: "rate_ok v key \<Longrightarrow> rate_valid (double_of v key)"
  by (auto simp: rate_ok_def rate_valid_def dest!: double_of_Number split: option.splits)

lemma bytes_ok_valid:
  "bytes_ok v \<Longrightarrow> uint_or 0 v ''available_bytes'' \<le> uint_or 0 v ''total_bytes'' \<and>
     uint_or 0 v ''used_bytes'' \<le> uint_or 0 v ''total_bytes'' \<and> percent_valid (double_of v ''used_percent'')"
  by (auto simp: bytes_ok_def uint_or_def percent_valid_def dest!: double_of_Number split: option.splits)

lemma map_filter_all: "list_all core_usage_ok vs \<Longrightarrow>
    length (List.map_filter AsDouble vs) = length vs \<and> list_all percent_valid (List.map_filter AsDouble vs)"
  by (induction vs) (auto simp: List.map_filter_simps core_usage_ok_def percent_valid_def split: option.splits)

lemma sec_object: "(case Field v key of Some p \<Rightarrow> IsObject p | None \<Rightarrow> False) \<Longrightarrow> section_or d f v key = f (sec v key)"
  by (auto simp: section_or_def sec_def Field_def split: option.splits)

lemma u64_small: "unat (n :: u64) \<le> k \<Longrightarrow> k < 2 ^ 32 \<Longrightarrow> unat (ucast n :: u32) = unat n"
  by (simp add: unsigned_ucast_eq take_bit_nat_eq_self)

lemma sint_small:
  assumes "unat (w :: u32) < 2 ^ 31"
  shows "sint w = int (unat w)"
proof -
  have "int (unat w) < int (2 ^ 31)" using assms by (simp only: of_nat_less_iff)
  then have "int (unat w) < 2 ^ 31" by simp
  moreover have "- (2 ^ 31) \<le> int (unat w)" by (rule order_trans [of _ 0]) (simp_all only: of_nat_0_le_iff, simp)
  ultimately have "signed_take_bit 31 (int (unat w)) = int (unat w)" by (intro signed_take_bit_int_eq_self)
  moreover have "uint w = int (unat w)" by simp
  moreover have "LENGTH(32) - Suc 0 = (31 :: nat)" by simp
  ultimately show ?thesis using sint_uint [of w] by metis
qed

lemma topology_valid:
  assumes "topology_ok c" "list_all core_usage_ok (array_of c ''per_core_usage_percent'')"
  shows "unat (core_count (CPUMetrics_FromJson c)) = length (per_core_usage_percent (CPUMetrics_FromJson c)) \<and>
    unat (core_count (CPUMetrics_FromJson c)) \<le> 65536 \<and> list_all percent_valid (per_core_usage_percent (CPUMetrics_FromJson c))"
proof -
  obtain n per_core where n: "UInt c ''core_count'' = Some n" "Field c ''per_core_usage_percent'' = Some per_core"
    "unat n \<le> 65536" "IsArray per_core" "json_size per_core = unat n"
    using assms(1) by (auto simp: topology_ok_def split: option.splits)
  obtain a where a: "per_core = JArray a" using n(4) by (cases per_core) auto
  have "array_of c ''per_core_usage_percent'' = a" using n(2) a by (simp add: array_of_def Field_def)
  moreover have "unat (ucast n :: u32) = length a" "length a \<le> 65536"
    using n(3,5) a u64_small [OF n(3)] by (simp_all add: json_size_def)
  ultimately show ?thesis
    using map_filter_all [OF assms(2)] n(1) by (simp add: CPUMetrics_FromJson_def uint_or_def)
qed

lemma process_valid:
  assumes "process_fields_ok p"
  shows "info_valid (ProcessInfo_FromJson p)"
proof -
  obtain i th nm st where f: "UInt p ''pid'' = Some i" "UInt p ''state'' = Some st" "i \<noteq> 0" "unat i \<le> 2 ^ 31 - 1"
    "unat st \<le> 127" "rate_ok p ''cpu_percent''" "rate_ok p ''memory_percent''"
    using assms by (auto simp: process_fields_ok_def split: option.splits)
  have int: "Option.bind (at_key p key) AsInt64 = Some x" if "UInt p key = Some x" "unat x \<le> 2 ^ 63 - 1" for key x
  proof -
    obtain w where "at_key p key = Some w" "AsUInt64 w = Some x"
      using \<open>UInt p key = Some x\<close> by (auto simp: UInt_def Field_def bind_eq_Some_conv)
    then show ?thesis using that(2) by (cases w) (auto split: if_splits)
  qed
  have i: "unat (ucast i :: u32) = unat i" using u64_small [OF f(4)] by simp
  have "sint (ucast i :: u32) = int (unat i)"
    using i f(4) sint_small [of "ucast i"] by simp
  moreover have "0 < sint (ucast i :: u32)"
  proof -
    have "0 < int (unat i)" using f(3) by (simp only: of_nat_0_less_iff unat_gt_0) simp
    then show ?thesis using calculation by simp
  qed
  moreover have "unat (ucast st :: u8) = unat st" using f(5) by (simp add: unsigned_ucast_eq take_bit_nat_eq_self)
  ultimately show ?thesis
    using f int [of "''pid''" i] int [of "''state''" st] rate_ok_valid
    by (simp add: info_valid_def ProcessInfo_FromJson_def int_or_def)
qed

lemma validated_snapshot:
  assumes "validate_json v = Inr ()"
  shows "snapshot_valid (SystemSnapshot_FromJson v)"
proof -
  have obj: "\<And>d f. section_or d f v ''cpu'' = f (sec v ''cpu'')" "\<And>d f. section_or d f v ''memory'' = f (sec v ''memory'')"
    "\<And>d f. section_or d f v ''network'' = f (sec v ''network'')" "\<And>d f. section_or d f v ''disk'' = f (sec v ''disk'')"
    "\<And>d f. section_or d f v ''process'' = f (sec v ''process'')" "\<And>d f. section_or d f v ''loadavg'' = f (sec v ''loadavg'')"
    "\<And>d f. section_or d f v ''telemetry'' = f (sec v ''telemetry'')"
    using assms sec_object by (auto simp: validate_simps)
  have c: "topology_ok (sec v ''cpu'')" "list_all core_usage_ok (array_of (sec v ''cpu'') ''per_core_usage_percent'')"
    "bytes_ok (sec v ''memory'')" "bytes_ok (sec v ''disk'')" "rate_ok (sec v ''network'') ''rx_kbps''"
    "rate_ok (sec v ''network'') ''tx_kbps''" "rate_ok (sec v ''loadavg'') ''load_1m''" "rate_ok (sec v ''loadavg'') ''load_5m''"
    "rate_ok (sec v ''loadavg'') ''load_15m''" "Text (sec v ''telemetry'') ''instance_id'' \<noteq> []"
    "interval_ok (sec v ''telemetry'')" "process_list_ok (sec v ''process'')"
    "list_all process_fields_ok (array_of (sec v ''process'') ''processes'')"
    and t: "case Number (sec v ''cpu'') ''total_usage_percent'' of Some d \<Rightarrow> percent_in_range d | None \<Rightarrow> False"
    using assms by (auto simp: validate_simps)
  have "percent_valid (double_of (sec v ''cpu'') ''total_usage_percent'')"
    using t by (auto simp: percent_valid_def dest!: double_of_Number split: option.splits)
  moreover have "100 \<le> uint_or 1000 (sec v ''telemetry'') ''interval_ms'' \<and> uint_or 1000 (sec v ''telemetry'') ''interval_ms'' \<le> 60000"
    using c(11) by (auto simp: interval_ok_def uint_or_def split: option.splits)
  moreover have "length (array_of (sec v ''process'') ''processes'') \<le> 10000"
    using c(12) by (auto simp: process_list_ok_def array_of_def json_size_def Field_def split: option.splits)
  moreover have "list_all info_valid (map ProcessInfo_FromJson (array_of (sec v ''process'') ''processes''))"
    using c(13) process_valid by (auto simp: list_all_iff)
  ultimately show ?thesis
    using topology_valid [OF c(1,2)] bytes_ok_valid [OF c(3)] bytes_ok_valid [OF c(4)] c(10)
      c(5-9) [THEN rate_ok_valid]
    by (simp add: snapshot_valid_def SystemSnapshot_FromJson_def obj MemoryMetrics_FromJson_def DiskMetrics_FromJson_def
        NetworkMetrics_FromJson_def LoadavgMetrics_FromJson_def TelemetryInfo_FromJson_def ProcessMetrics_FromJson_def)
      (simp add: CPUMetrics_FromJson_def)
qed

section \<open>Printing a snapshot\<close>

text \<open>A JSON value the printer and the parser take, with a bound on its depth.\<close>

definition fine :: "nat \<Rightarrow> JSONValue \<Rightarrow> bool" where
  "fine n v \<longleftrightarrow> wf_doubles v \<and> printable v \<and> json_depth v \<le> n"

lemma fine_leaf [simp]:
  "fine (Suc n) (JUInt64 x)" "fine (Suc n) (JInt64 y)" "fine (Suc n) (JString s)" "fine (Suc n) (JBool b)" "fine (Suc n) JNull"
  "num_ok d \<Longrightarrow> fine (Suc n) (JDouble d)"
  using num_ok_wf [of d] by (simp_all add: fine_def)

lemma fine_opt [simp]: "opt_ok num_ok x \<Longrightarrow> fine (Suc n) (make_opt JDouble x)" "fine (Suc n) (make_opt JUInt64 y)"
  by (cases x; cases y; simp add: make_opt_def)+

lemma fine_array [simp]: "fine (Suc n) (JArray vs) \<longleftrightarrow> list_all (fine n) vs"
  by (auto simp: fine_def list_all_iff foldr_max_le)

lemma fine_object [simp]:
  "fine (Suc n) (JObject ms) \<longleftrightarrow>
     length ms \<le> 4096 \<and> distinct (map (repair \<circ> fst) ms) \<and> list_all (\<lambda>(k, v). fine n v) ms"
  by (auto simp: fine_def list_all_iff foldr_max_members)

lemma fine_pressure: "pressure_ok p \<Longrightarrow> fine (Suc (Suc n)) (PressureMetrics_ToJson p)"
  by (simp add: PressureMetrics_ToJson_def pressure_ok_def repair_ascii)

lemma fine_status: "fine (Suc (Suc n)) (SampleStatus_ToJson s)"
  by (simp add: SampleStatus_ToJson_def repair_ascii)

lemma fine_interface: "interface_ok m \<Longrightarrow> fine (Suc (Suc n)) (InterfaceMetrics_ToJson m)"
  by (simp add: InterfaceMetrics_ToJson_def interface_ok_def repair_ascii)

lemma fine_disk_io: "disk_io_ok m \<Longrightarrow> fine (Suc (Suc n)) (DiskIoMetrics_ToJson m)"
  by (simp add: DiskIoMetrics_ToJson_def disk_io_ok_def repair_ascii)

lemma fine_cgroup: "cgroup_ok m \<Longrightarrow> fine (Suc (Suc (Suc (Suc n)))) (CgroupMetrics_ToJson m)"
  by (simp add: CgroupMetrics_ToJson_def cgroup_ok_def repair_ascii List_of_def list.pred_map fine_pressure list_all_iff)

lemma fine_telemetry: "telemetry_ok t \<Longrightarrow> fine (Suc (Suc (Suc (Suc (Suc n))))) (TelemetryInfo_ToJson t)"
  by (simp add: TelemetryInfo_ToJson_def telemetry_ok_def repair_ascii List_of_def list_all_iff fine_pressure fine_status
      fine_interface fine_disk_io fine_cgroup)

lemma fine_cpu: "cpu_ok m \<Longrightarrow> fine (Suc (Suc (Suc n))) (CPUMetrics_ToJson m)"
  by (simp add: CPUMetrics_ToJson_def cpu_ok_def repair_ascii list_all_iff)

lemma fine_info: "info_ok p \<Longrightarrow> fine (Suc (Suc n)) (ProcessInfo_ToJson p)"
  by (simp add: ProcessInfo_ToJson_def info_ok_def repair_ascii)

lemma fine_process: "process_ok m \<Longrightarrow> fine (Suc (Suc (Suc (Suc n)))) (ProcessMetrics_ToJson m)"
  by (simp add: ProcessMetrics_ToJson_def process_ok_def repair_ascii list_all_iff fine_info)

lemma fine_flat:
  "memory_ok m \<Longrightarrow> fine (Suc (Suc n)) (MemoryMetrics_ToJson m)"
  "disk_ok d \<Longrightarrow> fine (Suc (Suc n)) (DiskMetrics_ToJson d)"
  "network_ok w \<Longrightarrow> fine (Suc (Suc n)) (NetworkMetrics_ToJson w)"
  "loadavg_ok l \<Longrightarrow> fine (Suc (Suc n)) (LoadavgMetrics_ToJson l)"
  by (simp_all add: MemoryMetrics_ToJson_def memory_ok_def DiskMetrics_ToJson_def disk_ok_def
      NetworkMetrics_ToJson_def network_ok_def LoadavgMetrics_ToJson_def loadavg_ok_def repair_ascii)

definition wire_json :: "SystemSnapshot \<Rightarrow> JSONValue" where
  "wire_json s = JObject (SystemSnapshot_members s @ [(''protocol_version'', JUInt64 kVersion), (''type'', JString ''snapshot'')])"

lemma fine_wire: "snapshot_ok s \<Longrightarrow> fine 6 (wire_json s)"
  using fine_telemetry [of "telemetry s" 0] fine_cpu [of "cpu s" 2] fine_process [of "process s" 1]
    fine_flat [of _ 3]
  by (simp add: wire_json_def SystemSnapshot_members_def snapshot_ok_def repair_ascii eval_nat_numeral)

section \<open>Decoding what was encoded\<close>

lemma wire_fields:
  "Field (norm (wire_json s)) ''telemetry'' = Some (norm (TelemetryInfo_ToJson (telemetry s)))"
  "Field (norm (wire_json s)) ''cpu'' = Some (norm (CPUMetrics_ToJson (cpu s)))"
  "Field (norm (wire_json s)) ''memory'' = Some (norm (MemoryMetrics_ToJson (memory s)))"
  "Field (norm (wire_json s)) ''disk'' = Some (norm (DiskMetrics_ToJson (disk s)))"
  "Field (norm (wire_json s)) ''network'' = Some (norm (NetworkMetrics_ToJson (network s)))"
  "Field (norm (wire_json s)) ''loadavg'' = Some (norm (LoadavgMetrics_ToJson (loadavg s)))"
  "Field (norm (wire_json s)) ''process'' = Some (norm (ProcessMetrics_ToJson (process s)))"
  "UInt (norm (wire_json s)) ''protocol_version'' = Some kVersion"
  "Text (norm (wire_json s)) ''type'' = ''snapshot''"
  by (simp_all add: wire_json_def SystemSnapshot_members_def key_simps)

lemma percent_ok_range: "num_ok d \<Longrightarrow> percent_valid d \<Longrightarrow> percent_in_range d"
  by (simp add: percent_valid_def)

lemma wire_topology:
  assumes "cpu_ok m" "unat (core_count m) = length (per_core_usage_percent m)" "unat (core_count m) \<le> 65536"
    "list_all percent_valid (per_core_usage_percent m)" "percent_valid (total_usage_percent m)"
  shows "topology_ok (norm (CPUMetrics_ToJson m))"
    "list_all core_usage_ok (array_of (norm (CPUMetrics_ToJson m)) ''per_core_usage_percent'')"
    "\<exists>d. Number (norm (CPUMetrics_ToJson m)) ''total_usage_percent'' = Some d \<and> percent_in_range d"
proof -
  have "unat (ucast (core_count m) :: u64) = unat (core_count m)"
    using assms(3) by (simp add: unsigned_ucast_eq take_bit_nat_eq_self)
  then show "topology_ok (norm (CPUMetrics_ToJson m))"
    using assms(2,3) by (simp add: topology_ok_def CPUMetrics_ToJson_def key_simps json_size_def)
  show "list_all core_usage_ok (array_of (norm (CPUMetrics_ToJson m)) ''per_core_usage_percent'')"
    using assms(1,4) by (auto simp: CPUMetrics_ToJson_def key_simps core_usage_ok_def cpu_ok_def list_all_iff percent_valid_def)
  show "\<exists>d. Number (norm (CPUMetrics_ToJson m)) ''total_usage_percent'' = Some d \<and> percent_in_range d"
    using assms(1,5) by (simp add: CPUMetrics_ToJson_def key_simps cpu_ok_def percent_valid_def)
qed

lemma wire_memory:
  "memory_ok m \<Longrightarrow> mem_available_bytes m \<le> mem_total_bytes m \<Longrightarrow> mem_used_bytes m \<le> mem_total_bytes m \<Longrightarrow>
   percent_valid (mem_used_percent m) \<Longrightarrow> bytes_ok (norm (MemoryMetrics_ToJson m))"
  by (simp add: bytes_ok_def MemoryMetrics_ToJson_def key_simps memory_ok_def percent_valid_def)

lemma wire_disk:
  "disk_ok m \<Longrightarrow> disk_available_bytes m \<le> disk_total_bytes m \<Longrightarrow> disk_used_bytes m \<le> disk_total_bytes m \<Longrightarrow>
   percent_valid (disk_used_percent m) \<Longrightarrow> bytes_ok (norm (DiskMetrics_ToJson m))"
  by (simp add: bytes_ok_def DiskMetrics_ToJson_def key_simps disk_ok_def percent_valid_def)

lemma unat_nonneg:
  assumes "0 \<le> sint (v :: u64)"
  shows "unat v = nat (sint v)"
proof -
  have lt: "sint v < 2 ^ 64" using sint_less [of v] by simp
  have "uint v = take_bit 64 (sint v)" using uint_sint [of v] by simp
  also have "\<dots> = sint v" using assms lt by (simp add: take_bit_int_eq_self_iff)
  finally show ?thesis by (simp add: unat_eq_nat_uint)
qed

lemma sint_char:
  assumes "byte c < 128"
  shows "sint (char_to_int64 c) = int (byte c)"
proof -
  have u: "uint (of_nat (byte c) :: u8) = int (byte c)"
    using assms by (simp add: uint_nat unat_of_nat)
  have "sint (char_to_int64 c) = sint (of_nat (byte c) :: u8)"
    unfolding char_to_int64_def by (rule sint_up_scast) (simp add: is_up)
  also have "\<dots> = signed_take_bit 7 (int (byte c))"
    using sint_uint [of "of_nat (byte c) :: u8"] u by simp
  also have "\<dots> = int (byte c)" using assms by (intro signed_take_bit_int_eq_self) simp_all
  finally show ?thesis .
qed

lemma wire_process:
  assumes "info_ok p" "info_valid p"
  shows "process_fields_ok (norm (ProcessInfo_ToJson p))"
proof -
  have pid: "AsUInt64 (norm (JInt64 (scast (pid p)))) = Some (scast (pid p))" "scast (pid p) \<noteq> (0 :: u64)"
    "unat (scast (pid p) :: u64) \<le> 2 ^ 31 - 1"
  proof -
    have s: "sint (scast (pid p) :: u64) = sint (pid p)" by (rule sint_up_scast) (simp add: is_up)
    have pos: "0 < sint (pid p)" using assms(2) by (simp add: info_valid_def)
    have "sint (pid p) < 2 ^ 31" using sint_less [of "pid p"] by simp
    then show "AsUInt64 (norm (JInt64 (scast (pid p)))) = Some (scast (pid p))" "unat (scast (pid p) :: u64) \<le> 2 ^ 31 - 1"
      using s pos unat_nonneg [of "scast (pid p) :: u64"] by auto
    show "scast (pid p) \<noteq> (0 :: u64)" using s pos by auto
  qed
  have st: "AsUInt64 (norm (JInt64 (char_to_int64 (proc_state p)))) = Some (char_to_int64 (proc_state p))"
    "unat (char_to_int64 (proc_state p)) \<le> 127"
    using assms(2) sint_char [of "proc_state p"] unat_nonneg [of "char_to_int64 (proc_state p)"]
    by (simp_all add: info_valid_def)
  have th: "unat (ucast (thread_count p) :: u64) \<le> 2 ^ 32 - 1"
  proof -
    have "unat (thread_count p) < 2 ^ LENGTH(32)" by (rule unsigned_less)
    then show ?thesis by (simp add: unsigned_ucast_eq take_bit_nat_eq_self)
  qed
  show ?thesis
    using assms pid st th
    by (simp add: process_fields_ok_def ProcessInfo_ToJson_def key_simps rate_ok_def info_ok_def info_valid_def
        rate_valid_def del: norm.simps(1))
qed

lemma obj_ToJson [simp]:
  "IsObject (norm (CPUMetrics_ToJson a))" "IsObject (norm (MemoryMetrics_ToJson b))" "IsObject (norm (NetworkMetrics_ToJson c))"
  "IsObject (norm (DiskMetrics_ToJson d))" "IsObject (norm (ProcessMetrics_ToJson e))" "IsObject (norm (LoadavgMetrics_ToJson f))"
  "IsObject (norm (TelemetryInfo_ToJson g))"
  by (simp_all add: CPUMetrics_ToJson_def MemoryMetrics_ToJson_def NetworkMetrics_ToJson_def DiskMetrics_ToJson_def
      ProcessMetrics_ToJson_def LoadavgMetrics_ToJson_def TelemetryInfo_ToJson_def)

lemma timestamps [simp]:
  "UInt (norm (CPUMetrics_ToJson a)) ''timestamp'' = Some (cpu_timestamp a)"
  "UInt (norm (MemoryMetrics_ToJson b)) ''timestamp'' = Some (mem_timestamp b)"
  "UInt (norm (NetworkMetrics_ToJson c)) ''timestamp'' = Some (net_timestamp c)"
  "UInt (norm (DiskMetrics_ToJson d)) ''timestamp'' = Some (disk_timestamp d)"
  "UInt (norm (ProcessMetrics_ToJson e)) ''timestamp'' = Some (proc_timestamp e)"
  "UInt (norm (LoadavgMetrics_ToJson f)) ''timestamp'' = Some (load_timestamp f)"
  by (simp_all add: CPUMetrics_ToJson_def MemoryMetrics_ToJson_def NetworkMetrics_ToJson_def DiskMetrics_ToJson_def
      ProcessMetrics_ToJson_def LoadavgMetrics_ToJson_def key_simps)

lemma wire_sections [simp]:
  "sec (norm (wire_json s)) ''telemetry'' = norm (TelemetryInfo_ToJson (telemetry s))"
  "sec (norm (wire_json s)) ''cpu'' = norm (CPUMetrics_ToJson (cpu s))"
  "sec (norm (wire_json s)) ''memory'' = norm (MemoryMetrics_ToJson (memory s))"
  "sec (norm (wire_json s)) ''disk'' = norm (DiskMetrics_ToJson (disk s))"
  "sec (norm (wire_json s)) ''network'' = norm (NetworkMetrics_ToJson (network s))"
  "sec (norm (wire_json s)) ''loadavg'' = norm (LoadavgMetrics_ToJson (loadavg s))"
  "sec (norm (wire_json s)) ''process'' = norm (ProcessMetrics_ToJson (process s))"
  by (simp_all add: sec_def wire_fields)

lemma wire_rates:
  "network_ok m \<Longrightarrow> rate_valid (rx_kbps m) \<Longrightarrow> rate_valid (tx_kbps m) \<Longrightarrow>
     rate_ok (norm (NetworkMetrics_ToJson m)) ''rx_kbps'' \<and> rate_ok (norm (NetworkMetrics_ToJson m)) ''tx_kbps''"
  "loadavg_ok l \<Longrightarrow> rate_valid (load_1m l) \<Longrightarrow> rate_valid (load_5m l) \<Longrightarrow> rate_valid (load_15m l) \<Longrightarrow>
     rate_ok (norm (LoadavgMetrics_ToJson l)) ''load_1m'' \<and> rate_ok (norm (LoadavgMetrics_ToJson l)) ''load_5m'' \<and>
     rate_ok (norm (LoadavgMetrics_ToJson l)) ''load_15m''"
  by (simp_all add: rate_ok_def NetworkMetrics_ToJson_def LoadavgMetrics_ToJson_def network_ok_def loadavg_ok_def
      rate_valid_def key_simps)

lemma wire_telemetry:
  assumes "telemetry_ok t" "instance_id t \<noteq> []" "100 \<le> interval_ms t" "interval_ms t \<le> 60000"
  shows "UInt (norm (TelemetryInfo_ToJson t)) ''sequence'' \<noteq> None \<and> Text (norm (TelemetryInfo_ToJson t)) ''instance_id'' \<noteq> []"
    "interval_ok (norm (TelemetryInfo_ToJson t))"
  using assms by (simp_all add: TelemetryInfo_ToJson_def telemetry_ok_def key_simps interval_ok_def)

lemma wire_processes:
  assumes "process_ok m" "length (processes m) \<le> 10000" "list_all info_valid (processes m)"
  shows "process_list_ok (norm (ProcessMetrics_ToJson m))"
    "list_all process_fields_ok (array_of (norm (ProcessMetrics_ToJson m)) ''processes'')"
  using assms wire_process
  by (auto simp: ProcessMetrics_ToJson_def process_list_ok_def process_ok_def key_simps json_size_def list_all_iff)

lemma wire_validates:
  assumes "snapshot_ok s" "snapshot_valid s"
  shows "validate_json (norm (wire_json s)) = Inr ()"
proof -
  note a = assms [unfolded snapshot_ok_def snapshot_valid_def]
  show ?thesis
    using wire_topology [of "cpu s"] wire_memory [of "memory s"] wire_disk [of "disk s"] wire_rates(1) [of "network s"]
      wire_rates(2) [of "loadavg s"] wire_telemetry [of "telemetry s"] wire_processes [of "process s"] a
    by (auto simp: validate_simps wire_fields)
qed

text \<open>A small snapshot: an idle machine that has just started.\<close>

definition sample_snapshot :: SystemSnapshot where
  "sample_snapshot = default_snapshot\<lparr>telemetry := default_telemetry\<lparr>interval_ms := 100, sequence := 1, instance_id := ''a''\<rparr>\<rparr>"

lemma foldl_count: "foldl (\<lambda>n _. n + 1) (k :: int) xs = k + int (length xs)"
  by (induction xs arbitrary: k) simp_all

lemma sample_encodes: "\<exists>out. Encode sample_snapshot = Inr out \<and> length out \<le> 2000"
proof -
  have "(case Encode sample_snapshot of Inr out \<Rightarrow> foldl (\<lambda>n _. n + 1) (0 :: int) out \<le> 2000 | Inl _ \<Rightarrow> False)" by code_simp
  then show ?thesis by (auto simp: foldl_count split: sum.splits)
qed

lemma decode_encoded:
  assumes "snapshot_ok s" "snapshot_valid s" "Encode s = Inr out"
    and "length out \<le> kMaxPayload" "json_nodes (wire_json s) \<le> 1000000"
  shows "Decode out = Inr s"
proof -
  have f: "wf_doubles (wire_json s)" "printable (wire_json s)" "json_depth (wire_json s) \<le> 64"
    using fine_wire [OF assms(1)] by (auto simp: fine_def)
  have "ToString (wire_json s) (- 1) = Inr out"
    using assms(3) by (simp add: Encode_def wire_json_def Add_def)
  then have "Parse out = Some (norm (wire_json s))"
    using f assms(4,5) by (intro Parse_printed) (simp_all add: kMaxPayload_def)
  moreover have "SystemSnapshot_FromJson (norm (wire_json s)) = s"
    unfolding wire_json_def by (rule snapshot_codec [OF assms(1)]) simp
  moreover have "metric_range_ok s"
    using assms(2) by (simp add: metric_range_ok_def snapshot_valid_def percent_valid_def)
  ultimately show ?thesis using wire_validates [OF assms(1,2)] by (simp add: Decode_def)
qed

text \<open>
  C9: a snapshot whose numbers are finite and nonnegative, whose texts are UTF-8 and whose values
  are in the documented ranges is decoded from its own encoding, unchanged, as long as the
  encoding is within the frame and parser limits.
\<close>

theorem decode_encode:
  assumes "snapshot_ok s" "snapshot_valid s" "Encode s = Inr out"
    and "length out \<le> kMaxPayload" "json_nodes (wire_json s) \<le> 1000000"
  shows "Decode out = Inr s"
  using assms by (rule decode_encoded)

lemma num_ok_zero [simp]: "representable 0" "to_chars_mag 0 = ''0''"
  using representable_of_nat [of 0] by (simp_all add: to_chars_mag_def)

lemma valid_utf8_ascii: "list_all (\<lambda>c. byte c < 128) s \<Longrightarrow> valid_utf8 s"
  by (induction s) auto

lemma sample_ok: "snapshot_ok sample_snapshot" "snapshot_valid sample_snapshot" "json_nodes (wire_json sample_snapshot) \<le> 1000000"
  by (simp_all add: sample_snapshot_def default_snapshot_def default_telemetry_def default_cgroup_def default_cpu_def
      default_memory_def default_disk_def default_network_def default_loadavg_def default_process_def
      snapshot_ok_def telemetry_ok_def cgroup_ok_def cpu_ok_def memory_ok_def disk_ok_def network_ok_def loadavg_ok_def
      process_ok_def valid_utf8_ascii snapshot_valid_def percent_valid_def percent_in_range_def rate_valid_def hundred_def
      wire_json_def SystemSnapshot_members_def TelemetryInfo_ToJson_def CgroupMetrics_ToJson_def CPUMetrics_ToJson_def
      MemoryMetrics_ToJson_def DiskMetrics_ToJson_def NetworkMetrics_ToJson_def LoadavgMetrics_ToJson_def
      ProcessMetrics_ToJson_def List_of_def make_opt_def digits_val_def)

theorem decode_encode_witness: "\<exists>out. Encode sample_snapshot = Inr out \<and> Decode out = Inr sample_snapshot"
proof -
  obtain out where out: "Encode sample_snapshot = Inr out" "length out \<le> 2000" using sample_encodes by blast
  then have "Decode out = Inr sample_snapshot"
    using decode_encode [OF sample_ok(1,2) out(1) _ sample_ok(3)] by (simp add: kMaxPayload_def)
  with out(1) show ?thesis by blast
qed

lemma decoded_valid: "Decode text_in = Inr s \<Longrightarrow> snapshot_valid s"
  using validated_snapshot by (auto simp: Decode_def rbind_Inr Let_def split: option.splits if_splits)



end
