(* ===== verification/Shared_State.thy ===== *)
theory Shared_State
  imports Protocol
begin

text \<open>
  The published generation of \<^verbatim>\<open>server/state/shared_state.cpp\<close>: a snapshot with its pre-encoded
  representations. \<open>Publish\<close> is a function of the snapshot and of its two clock readings (in
  nanoseconds); the atomic pointer it stores to is an \<open>option\<close> that \<open>Load\<close> reads.
\<close>

text \<open>\<^verbatim>\<open>duration_cast\<close> from nanoseconds to a unit of \<open>d\<close> nanoseconds rounds toward zero.\<close>

definition duration_cast :: "int \<Rightarrow> int \<Rightarrow> int" where
  "duration_cast d ns = (if 0 \<le> ns then ns div d else - ((- ns) div d))"

record PublishedSnapshot =
  snapshot :: SystemSnapshot
  json :: string
  frame :: string
  processes_json :: string
  published_at :: int
  encode_us :: u64

definition processes_document :: "SystemSnapshot \<Rightarrow> JSONValue" where
  "processes_document s =
     (case ProcessMetrics_ToJson (process s) of
        JObject ms \<Rightarrow>
          JObject (Add (Add (Add ms ''sequence'' (JUInt64 (sequence (telemetry s))))
            ''instance_id'' (JString (instance_id (telemetry s))))
            ''truncated'' (JBool (processes_truncated (telemetry s))))
      | v \<Rightarrow> v)"

definition Publish :: "SystemSnapshot \<Rightarrow> int \<Rightarrow> int \<Rightarrow> PublishedSnapshot result" where
  "Publish s begin_at now_at =
     rbind (Encode s) (\<lambda>js.
     rbind (Frame js) (\<lambda>fr.
     rbind (ToString (processes_document s) (- 1)) (\<lambda>ps.
       Inr \<lparr>snapshot = s, json = js, frame = fr, processes_json = ps, published_at = now_at,
            encode_us = of_int (duration_cast 1000 (now_at - begin_at))\<rparr>)))"

text \<open>What a published generation satisfies: the frame is the framed encoding of the snapshot.\<close>

definition generation_ok :: "PublishedSnapshot \<Rightarrow> bool" where
  "generation_ok g \<longleftrightarrow> Encode (snapshot g) = Inr (json g) \<and> Frame (json g) = Inr (frame g)"

lemma Publish_ok: "Publish s b n = Inr g \<Longrightarrow> generation_ok g \<and> snapshot g = s"
  by (auto simp: Publish_def generation_ok_def rbind_Inr)

lemma frame_nonempty: "Frame p = Inr f \<Longrightarrow> f \<noteq> []"
  by (auto simp: Frame_def frame_header_def split: if_splits)

text \<open>A published generation, for use at concrete inputs.\<close>

lemma sample_published:
  "\<exists>g. Publish sample_snapshot 0 0 = Inr g \<and> generation_ok g \<and> snapshot g = sample_snapshot \<and> length (json g) \<le> 2000"
proof -
  obtain js where js: "Encode sample_snapshot = Inr js" "length js \<le> 2000" using sample_encodes by blast
  moreover have "js \<noteq> []" using js(1) by (auto simp: Encode_def ToString_def rbind_Inr split: if_splits)
  ultimately obtain fr where fr: "Frame js = Inr fr" by (simp add: Frame_def kMaxPayload_def)
  have "(case ToString (processes_document sample_snapshot) (- 1) of Inr _ \<Rightarrow> True | Inl _ \<Rightarrow> False)" by code_simp
  then obtain ps where "ToString (processes_document sample_snapshot) (- 1) = Inr ps" by (auto split: sum.splits)
  with js fr show ?thesis by (auto simp: Publish_def generation_ok_def)
qed

end
