(* ===== verification/Reactor.thy ===== *)
theory Reactor
  imports Shared_State Http_Request Server_Config Output_Queue
begin

text \<open>
  The transport of \<^verbatim>\<open>server/transport/reactor.cpp\<close>: one thread owns the listeners, the sessions and
  their deadlines, and reacts to epoll events.

  The state has the members of \<^verbatim>\<open>class Reactor\<close> that change. \<open>interest\<close> is the kernel's epoll set: for
  a registered token, whether it waits for input and for output. A session's descriptor is modelled
  by what went through it: \<open>wire\<close> is what the kernel took from \<open>send\<close>. \<open>sessions\<close> is the
  \<^verbatim>\<open>unordered_map\<close>; its iteration order is not specified and is an argument of the loops. Tokens
  are natural numbers: the 64-bit counter cannot wrap in practice.

  What the outside answers while one event is handled is a record \<open>env\<close>: the published generation,
  the clock, the sockets' answers and whether epoll and socket-option calls succeed. When an answer
  list is used up, the descriptor would block.
\<close>

definition kHttp :: nat where "kHttp = 1"
definition kStream :: nat where "kStream = 2"
definition kSignal :: nat where "kSignal = 3"
definition kNotification :: nat where "kNotification = 4"
definition kTimer :: nat where "kTimer = 5"

definition kWriteBudget :: nat where
  "kWriteBudget = 64 * 1024"

definition kQueueBudget :: nat where
  "kQueueBudget = 64 * 1024 * 1024"

section \<open>State\<close>

record Session =
  wire :: string
  streaming :: bool
  responding :: bool
  request :: string
  out_queue :: OutputQueue
  accepted_at :: int
  last_progress :: int

record Reactor =
  config :: ServerConfig
  sessions :: "(nat \<times> Session) list"
  next_token :: nat
  last_sequence :: u64
  accepted :: u64
  rejected :: u64
  dropped :: u64
  timeouts :: u64
  bytes_sent :: u64
  queued_bytes :: nat
  listeners_paused :: bool
  started :: int
  interest :: "nat \<rightharpoonup> (bool \<times> bool)"

datatype accept_answer = Accept_ok | Accept_error errno

record env =
  latest :: "PublishedSnapshot option"
  now :: int
  accepts :: "accept_answer list"
  recvs :: "recv_answer list"
  sends :: "send_answer list"
  calls_ok :: bool
  order :: "nat list"
  rusage :: "(u64 \<times> u64) option"
  open_fds :: "nat option"
  lock_free :: bool

text \<open>What the constructor sets up: both listeners and the three control descriptors wait for input.\<close>

definition init_reactor :: "ServerConfig \<Rightarrow> int \<Rightarrow> Reactor" where
  "init_reactor c t =
     \<lparr>config = c, sessions = [], next_token = 16, last_sequence = 0, accepted = 0, rejected = 0, dropped = 0,
      timeouts = 0, bytes_sent = 0, queued_bytes = 0, listeners_paused = False, started = t,
      interest = [kHttp \<mapsto> (True, False), kStream \<mapsto> (True, False), kSignal \<mapsto> (True, False),
                  kNotification \<mapsto> (True, False), kTimer \<mapsto> (True, False)]\<rparr>"

definition find_session :: "nat \<Rightarrow> Reactor \<Rightarrow> Session option" where
  "find_session tok r = map_of (sessions r) tok"

definition put_session :: "nat \<Rightarrow> Session \<Rightarrow> Reactor \<Rightarrow> Reactor" where
  "put_session tok s r = r\<lparr>sessions := map (\<lambda>(t, x). (t, if t = tok then s else x)) (sessions r)\<rparr>"

definition erase_session :: "nat \<Rightarrow> Reactor \<Rightarrow> Reactor" where
  "erase_session tok r = r\<lparr>sessions := filter (\<lambda>(t, x). t \<noteq> tok) (sessions r)\<rparr>"

section \<open>epoll\<close>

text \<open>
  The kernel refuses to add a descriptor that is already in the epoll set and to modify one that is
  not, so these two calls can fail even when nothing else goes wrong.
\<close>

definition Check :: "bool \<Rightarrow> string \<Rightarrow> unit result" where
  "Check ok operation = (if ok then Inr () else Inl (System_error 0 operation))"

definition Register :: "env \<Rightarrow> nat \<Rightarrow> bool \<times> bool \<Rightarrow> Reactor \<Rightarrow> Reactor result" where
  "Register e tok events r =
     rbind (Check (calls_ok e \<and> interest r tok = None) ''epoll add'') (\<lambda>_. Inr (r\<lparr>interest := (interest r)(tok \<mapsto> events)\<rparr>))"

definition mask :: "Session \<Rightarrow> bool \<times> bool" where
  "mask s = (\<not> streaming s \<and> \<not> responding s, \<not> Empty (out_queue s))"

definition Modify :: "env \<Rightarrow> nat \<Rightarrow> Session \<Rightarrow> Reactor \<Rightarrow> Reactor result" where
  "Modify e tok s r =
     rbind (Check (calls_ok e \<and> interest r tok \<noteq> None) ''epoll modify'') (\<lambda>_. Inr (r\<lparr>interest := (interest r)(tok \<mapsto> mask s)\<rparr>))"

definition Close :: "nat \<Rightarrow> Reactor \<Rightarrow> Reactor" where
  "Close tok r =
     (case find_session tok r of
        None \<Rightarrow> r
      | Some s \<Rightarrow>
          erase_session tok (r\<lparr>queued_bytes := queued_bytes r - Bytes (out_queue s), interest := (interest r)(tok := None)\<rparr>))"

section \<open>Queueing output\<close>

definition Enqueue :: "int \<Rightarrow> Buffer \<Rightarrow> Session \<Rightarrow> Reactor \<Rightarrow> bool \<times> Session \<times> Reactor" where
  "Enqueue t buffer s r =
     (let before = Bytes (out_queue s); was_empty = Empty (out_queue s); (superseded, q) = Push buffer (out_queue s);
          r1 = r\<lparr>dropped := (if superseded then dropped r + 1 else dropped r),
                 queued_bytes := queued_bytes r - before + Bytes q\<rparr>;
          s1 = s\<lparr>out_queue := q, last_progress := (if was_empty then t else last_progress s)\<rparr>
      in if queued_bytes r1 > kQueueBudget
         then (False, s1\<lparr>out_queue := empty_queue\<rparr>, r1\<lparr>queued_bytes := queued_bytes r1 - Bytes q\<rparr>)
         else (True, s1, r1))"

section \<open>Accepting\<close>

definition new_session :: "bool \<Rightarrow> int \<Rightarrow> Session" where
  "new_session stream t =
     \<lparr>wire = [], streaming = stream, responding = False, request = [], out_queue = empty_queue,
      accepted_at = t, last_progress = t\<rparr>"

text \<open>
  One accepted descriptor: what happens between \<open>accept4\<close> and the next round of the loop. A stream
  session is greeted with the latest frame.
\<close>

definition greet :: "env \<Rightarrow> bool \<Rightarrow> Session \<Rightarrow> Reactor \<Rightarrow> bool \<times> Session \<times> Reactor" where
  "greet e stream s r =
     (case latest e of
        Some g \<Rightarrow> if stream then Enqueue (now e) (Some (frame g)) s r else (True, s, r)
      | None \<Rightarrow> (True, s, r))"

definition accept_one :: "env \<Rightarrow> bool \<Rightarrow> Reactor \<Rightarrow> Reactor result" where
  "accept_one e stream r =
     (if length (sessions r) \<ge> max_clients (config r) then Inr (r\<lparr>rejected := rejected r + 1\<rparr>)
      else
        let tok = next_token r; r1 = r\<lparr>next_token := tok + 1\<rparr>; s = new_session stream (now e)
        in rbind (if stream then Check (calls_ok e) ''SO_SNDBUF'' else Inr ()) (\<lambda>_.
             let (ok, s2, r2) = greet e stream s r1
             in if \<not> ok then Inr (r2\<lparr>rejected := rejected r2 + 1\<rparr>)
                else rbind (Register e tok (if stream then (False, \<not> Empty (out_queue s2)) else (True, False)) r2) (\<lambda>r3.
                       Inr (r3\<lparr>sessions := sessions r3 @ [(tok, s2)], accepted := accepted r3 + 1\<rparr>))))"

fun accept_loop :: "nat \<Rightarrow> env \<Rightarrow> bool \<Rightarrow> accept_answer list \<Rightarrow> Reactor \<Rightarrow> Reactor result" where
  "accept_loop 0 e stream as r = Inr r"
| "accept_loop (Suc n) e stream [] r = Inr r"
| "accept_loop (Suc n) e stream (Accept_error err # as) r =
     (if err = EINTR then accept_loop n e stream as r
      else if err = EAGAIN then Inr r
      else
        let r1 = (if err = EMFILE \<or> err = ENFILE
                  then r\<lparr>interest := (interest r)(kHttp := None, kStream := None), listeners_paused := True\<rparr> else r)
        in Inr (r1\<lparr>rejected := rejected r1 + 1\<rparr>))"
| "accept_loop (Suc n) e stream (Accept_ok # as) r =
     rbind (accept_one e stream r) (accept_loop n e stream as)"

definition Accept :: "env \<Rightarrow> bool \<Rightarrow> Reactor \<Rightarrow> Reactor result" where
  "Accept e stream r = accept_loop 32 e stream (accepts e) r"

section \<open>Answering HTTP\<close>

text \<open>Literals with quotes: a backquote stands for a double quote.\<close>

definition quoted :: "string \<Rightarrow> string" where
  "quoted s = map (\<lambda>c. if c = CHR 0x60 then CHR 0x22 else c) s"

definition NL :: string where "NL = [CHR 0x0A]"

definition age_ms :: "env \<Rightarrow> int" where
  "age_ms e = (case latest e of Some g \<Rightarrow> duration_cast 1000000 (now e - published_at g) | None \<Rightarrow> - 1)"

definition prometheus_text :: "env \<Rightarrow> Reactor \<Rightarrow> string" where
  "prometheus_text e r =
     ''# TYPE web_htop_sessions gauge'' @ NL @ ''web_htop_sessions '' @ show_nat (length (sessions r)) @ NL @
     ''# TYPE web_htop_queued_bytes gauge'' @ NL @ ''web_htop_queued_bytes '' @ show_nat (queued_bytes r) @ NL @
     ''# TYPE web_htop_snapshots_dropped_total counter'' @ NL @
     ''web_htop_snapshots_dropped_total '' @ show_nat (unat (dropped r)) @ NL @
     ''# TYPE web_htop_connections_rejected_total counter'' @ NL @
     ''web_htop_connections_rejected_total '' @ show_nat (unat (rejected r)) @ NL @
     ''# TYPE web_htop_bytes_sent_total counter'' @ NL @ ''web_htop_bytes_sent_total '' @ show_nat (unat (bytes_sent r)) @ NL @
     ''# TYPE web_htop_snapshot_age_ms gauge'' @ NL @ ''web_htop_snapshot_age_ms '' @ show_int (age_ms e) @ NL"

definition diagnostics_json :: "env \<Rightarrow> Reactor \<Rightarrow> JSONValue" where
  "diagnostics_json e r = JObject (
     (case rusage e of
        Some (cpu_us, maxrss) \<Rightarrow> [(''process_cpu_us'', JUInt64 cpu_us), (''rss_peak_bytes'', JUInt64 (maxrss * 1024))]
      | None \<Rightarrow> []) @
     (case open_fds e of
        Some d \<Rightarrow> if d \<noteq> 0 then [(''open_fds'', JUInt64 (of_nat (d - 1)))] else []
      | None \<Rightarrow> []) @
     [(''active_sessions'', JUInt64 (of_nat (length (sessions r)))), (''accepted_total'', JUInt64 (accepted r)),
      (''rejected_total'', JUInt64 (rejected r)), (''dropped_snapshots_total'', JUInt64 (dropped r)),
      (''timeouts_total'', JUInt64 (timeouts r)), (''bytes_sent_total'', JUInt64 (bytes_sent r)),
      (''queued_bytes'', JUInt64 (of_nat (queued_bytes r))), (''queue_budget_bytes'', JUInt64 (of_nat kQueueBudget)),
      (''snapshot_age_ms'', JInt64 (of_int (age_ms e))), (''snapshot_store_lock_free'', JBool (lock_free e)),
      (''max_clients'', JUInt64 (of_nat (max_clients (config r)))), (''bind'', JString (bind_address (config r))),
      (''uptime_ms'', JInt64 (of_int (duration_cast 1000000 (now e - started r)))),
      (''encode_us'', JUInt64 (case latest e of Some g \<Rightarrow> encode_us g | None \<Rightarrow> 0))])"

definition Diagnostics :: "bool \<Rightarrow> env \<Rightarrow> Reactor \<Rightarrow> string result" where
  "Diagnostics prometheus e r =
     (if prometheus then Inr (prometheus_text e r) else ToString (diagnostics_json e r) (- 1))"

definition json_type :: string where
  "json_type = ''application/json''"

definition is_ready :: "env \<Rightarrow> Reactor \<Rightarrow> bool" where
  "is_ready e r =
     (case latest e of
        None \<Rightarrow> False
      | Some g \<Rightarrow>
          now e - published_at g < 3 * int (poll_interval (config r)) * 1000000 \<and>
          list_all (\<lambda>c. ss_name c \<in> {''cpu'', ''memory'', ''processes''} \<longrightarrow> ss_state c = ''ok'')
            (collectors (telemetry (snapshot g))))"

definition Route :: "env \<Rightarrow> Reactor \<Rightarrow> string \<Rightarrow> string result" where
  "Route e r req =
     (let p = ParseHttpRequest req
      in if status p \<noteq> 200 then Inr (HttpResponse (status p) (quoted ''{`error`:`invalid_request`}'') json_type)
         else if target p = ''/health'' then Inr (HttpResponse 200 (quoted ''{`status`:`alive`,`protocol_version`:2}'') json_type)
         else if target p = ''/diagnostics'' then rbind (Diagnostics False e r) (\<lambda>d. Inr (HttpResponse 200 d json_type))
         else if target p = ''/exporter'' then
           rbind (Diagnostics True e r) (\<lambda>d. Inr (HttpResponse 200 d ''text/plain; version=0.0.4''))
         else if target p = ''/ready'' then
           (if is_ready e r then Inr (HttpResponse 200 (quoted ''{`status`:`ready`}'') json_type)
            else Inr (HttpResponse 503 (quoted ''{`status`:`degraded`}'') json_type))
         else if target p \<noteq> ''/metrics'' \<and> target p \<noteq> ''/processes'' then
           Inr (HttpResponse 404 (quoted ''{`error`:`not_found`}'') json_type)
         else (case latest e of
                 None \<Rightarrow> Inr (HttpResponse 503 (quoted ''{`error`:`warming_up`}'') json_type)
               | Some g \<Rightarrow> Inr (HttpResponse 200 (if target p = ''/metrics'' then json g else processes_json g) json_type)))"

section \<open>Reading and writing\<close>

text \<open>The response to what has been received so far, if it is time to respond.\<close>

definition respond :: "env \<Rightarrow> Reactor \<Rightarrow> string \<Rightarrow> string result" where
  "respond e r req =
     (if length req > 8192 then Inr (HttpResponse 431 (quoted ''{`error`:`header_limit`}'') json_type)
      else if find_sub (CRLF @ CRLF) req \<noteq> None then Route e r req
      else Inr [])"

fun read_loop :: "nat \<Rightarrow> env \<Rightarrow> recv_answer list \<Rightarrow> Session \<Rightarrow> Reactor \<Rightarrow> (bool \<times> Session \<times> Reactor) result" where
  "read_loop 0 e as s r = Inr (True, s, r)"
| "read_loop (Suc n) e [] s r = Inr (True, s, r)"
| "read_loop (Suc n) e (Recv_error err # as) s r =
     (if err = EINTR then read_loop n e as s r else Inr (err = EAGAIN, s, r))"
| "read_loop (Suc n) e (Recv bytes # as) s r =
     (if bytes = [] then Inr (False, s, r)
      else
        let s1 = s\<lparr>request := request s @ bytes\<rparr>
        in rbind (respond e r (request s1)) (\<lambda>response.
             if response \<noteq> [] then
               Inr (Enqueue (now e) (Some response) (s1\<lparr>responding := True, request := []\<rparr>) r)
             else read_loop n e as s1 r))"

definition Read :: "env \<Rightarrow> Session \<Rightarrow> Reactor \<Rightarrow> (bool \<times> Session \<times> Reactor) result" where
  "Read e s r = read_loop 8 e (recvs e) s r"

text \<open>\<open>send\<close> takes at most what it is offered and what there is room for.\<close>

fun write_loop :: "nat \<Rightarrow> env \<Rightarrow> send_answer list \<Rightarrow> Session \<Rightarrow> Reactor \<Rightarrow> (bool \<times> Session \<times> Reactor) result" where
  "write_loop budget e [] s r =
     Inr (if budget = 0 \<or> Empty (out_queue s) then streaming s \<or> \<not> Empty (out_queue s) else True, s, r)"
| "write_loop budget e (a # as) s r =
     (if budget = 0 \<or> Empty (out_queue s) then Inr (streaming s \<or> \<not> Empty (out_queue s), s, r)
      else (case a of
              Send_error err \<Rightarrow> if err = EINTR then write_loop budget e as s r else Inr (err = EAGAIN, s, r)
            | Room k \<Rightarrow>
                let n = min k (min (length (Front (out_queue s))) budget)
                in if n = 0 then Inr (False, s, r)
                   else rbind (Consume n (out_queue s)) (\<lambda>q.
                          write_loop (budget - n) e as
                            (s\<lparr>wire := wire s @ take n (Front (out_queue s)), out_queue := q, last_progress := now e\<rparr>)
                            (r\<lparr>queued_bytes := queued_bytes r - n, bytes_sent := bytes_sent r + of_nat n\<rparr>))))"

definition Write :: "env \<Rightarrow> Session \<Rightarrow> Reactor \<Rightarrow> (bool \<times> Session \<times> Reactor) result" where
  "Write e s r = write_loop kWriteBudget e (sends e) s r"

section \<open>Snapshots and deadlines\<close>

fun broadcast_loop :: "env \<Rightarrow> string \<Rightarrow> nat list \<Rightarrow> Reactor \<Rightarrow> Reactor result" where
  "broadcast_loop e fr [] r = Inr r"
| "broadcast_loop e fr (tok # toks) r =
     (case find_session tok r of
        None \<Rightarrow> broadcast_loop e fr toks r
      | Some s \<Rightarrow>
          if \<not> streaming s then broadcast_loop e fr toks r
          else let (ok, s1, r1) = Enqueue (now e) (Some fr) s r; r2 = put_session tok s1 r1
               in if \<not> ok then broadcast_loop e fr toks (Close tok (r2\<lparr>rejected := rejected r2 + 1\<rparr>))
                  else rbind (Modify e tok s1 r2) (broadcast_loop e fr toks))"

definition Broadcast :: "env \<Rightarrow> Reactor \<Rightarrow> Reactor result" where
  "Broadcast e r =
     (case latest e of
        None \<Rightarrow> Inr r
      | Some g \<Rightarrow>
          let sq = sequence (telemetry (snapshot g))
          in if sq = last_sequence r then Inr r
             else broadcast_loop e (frame g) (order e) (r\<lparr>last_sequence := sq\<rparr>))"

definition expired :: "env \<Rightarrow> Reactor \<Rightarrow> Session \<Rightarrow> bool" where
  "expired e r s \<longleftrightarrow>
     \<not> streaming s \<and> \<not> responding s \<and> now e - accepted_at s > int (request_timeout (config r)) * 1000000 \<or>
     \<not> Empty (out_queue s) \<and> now e - last_progress s > int (write_timeout (config r)) * 1000000"

fun sweep_loop :: "env \<Rightarrow> nat list \<Rightarrow> Reactor \<Rightarrow> Reactor" where
  "sweep_loop e [] r = r"
| "sweep_loop e (tok # toks) r =
     (case find_session tok r of
        None \<Rightarrow> sweep_loop e toks r
      | Some s \<Rightarrow>
          if expired e r s then sweep_loop e toks (Close tok (r\<lparr>timeouts := timeouts r + 1\<rparr>))
          else sweep_loop e toks r)"

definition Sweep :: "env \<Rightarrow> Reactor \<Rightarrow> Reactor result" where
  "Sweep e r =
     (let r1 = sweep_loop e (order e) r
      in if listeners_paused r1 then
           rbind (Register e kHttp (True, False) r1) (\<lambda>r2.
           rbind (Register e kStream (True, False) r2) (\<lambda>r3. Inr (r3\<lparr>listeners_paused := False\<rparr>)))
         else Inr r1)"

section \<open>The event loop\<close>

record event =
  token :: nat
  ev_in :: bool \<comment> \<open>\<^verbatim>\<open>EPOLLIN\<close> or \<^verbatim>\<open>EPOLLRDHUP\<close>\<close>
  ev_out :: bool
  ev_err :: bool
  ev_hup :: bool

definition session_event :: "env \<Rightarrow> event \<Rightarrow> Reactor \<Rightarrow> Reactor result" where
  "session_event e ev r =
     (case find_session (token ev) r of
        None \<Rightarrow> Inr r
      | Some s \<Rightarrow>
          let tok = token ev; alive0 = (\<not> ev_err ev)
          in rbind (if alive0 \<and> \<not> streaming s \<and> \<not> responding s \<and> (ev_in ev \<or> ev_hup ev) then Read e s r else Inr (alive0, s, r)) (\<lambda>(alive1, s1, r1).
             rbind (if alive1 \<and> ev_out ev then Write e s1 r1 else Inr (alive1, s1, r1)) (\<lambda>(alive2, s2, r2).
               let r3 = put_session tok s2 r2
               in if \<not> alive2 \<or> ev_hup ev then Inr (Close tok r3) else Modify e tok s2 r3)))"

definition handle_event :: "env \<Rightarrow> event \<Rightarrow> Reactor \<Rightarrow> Reactor result" where
  "handle_event e ev r =
     (if token ev = kHttp \<or> token ev = kStream then
        (if \<not> listeners_paused r then Accept e (token ev = kStream) r else Inr r)
      else if token ev = kNotification \<or> token ev = kTimer then
        (if token ev = kTimer then rbind (Sweep e r) (Broadcast e) else Broadcast e r)
      else session_event e ev r)"

fun handle_all :: "(env \<times> event) list \<Rightarrow> Reactor \<Rightarrow> Reactor result" where
  "handle_all [] r = Inr r"
| "handle_all ((e, ev) # evs) r = rbind (handle_event e ev r) (handle_all evs)"

text \<open>One round of \<open>Run\<close>: the events of one \<open>epoll_wait\<close>. True means that the loop has ended.
  Destroying the sessions closes their descriptors, which leave the epoll set.\<close>

definition run_round :: "(env \<times> event) list \<Rightarrow> Reactor \<Rightarrow> (bool \<times> Reactor) result" where
  "run_round evs r =
     (if list_ex (\<lambda>(e, ev). token ev = kSignal) evs then Inr (True, r\<lparr>sessions := [], queued_bytes := 0, interest := (interest r) |` {..<16}\<rparr>)
      else rbind (handle_all evs r) (\<lambda>r'. Inr (False, r')))"

end
