(* ===== verification/Reactor_Inv.thy ===== *)
theory Reactor_Inv
  imports Reactor
begin

text \<open>
  What the reactor keeps true, for every sequence of events: \<open>reactor_inv\<close>. A session's part is
  \<open>session_inv\<close>: a stream session has put whole frames on its wire, in the order in which they were
  seen, and then a part of the frame in flight; an HTTP session either waits for a request that is
  still incomplete, or sends one response. The reactor's part is the accounting of queued bytes, the
  token discipline and the agreement of the epoll set with the sessions.
\<close>

section \<open>Sessions\<close>

definition stream_ok :: "string list \<Rightarrow> Session \<Rightarrow> bool" where
  "stream_ok seen s \<longleftrightarrow> (\<exists>fs ps. subseq ps seen \<and> delivered fs ps (out_queue s) (wire s))"

definition is_response :: "string \<Rightarrow> bool" where
  "is_response x \<longleftrightarrow> (\<exists>st body type. x = HttpResponse st body type)"

definition http_ok :: "Session \<Rightarrow> bool" where
  "http_ok s \<longleftrightarrow>
     (if responding s
      then request s = [] \<and> \<not> Empty (out_queue s) \<and> pending (out_queue s) = None \<and>
           is_response (wire s @ Front (out_queue s))
      else wire s = [] \<and> Empty (out_queue s) \<and> length (request s) \<le> 8192 \<and>
           find_sub (CRLF @ CRLF) (request s) = None)"

definition session_inv :: "string list \<Rightarrow> Session \<Rightarrow> bool" where
  "session_inv seen s \<longleftrightarrow>
     queue_inv (out_queue s) \<and>
     (if streaming s then \<not> responding s \<and> request s = [] \<and> stream_ok seen s else http_ok s)"

lemma stream_okI: "subseq ps seen \<Longrightarrow> delivered fs ps (out_queue s) (wire s) \<Longrightarrow> stream_ok seen s"
  by (auto simp: stream_ok_def)

lemma stream_ok_mono: "stream_ok seen s \<Longrightarrow> stream_ok (seen @ xs) s"
  unfolding stream_ok_def using subseq_appendI2 by blast

lemma session_inv_mono: "session_inv seen s \<Longrightarrow> session_inv (seen @ xs) s"
  by (simp add: session_inv_def stream_ok_mono)

lemma session_inv_queue: "session_inv seen s \<Longrightarrow> queue_inv (out_queue s)"
  by (simp add: session_inv_def)

lemma delivered_none: "delivered [] [] empty_queue []"
  by (simp add: delivered_def sent_part_def in_flight_def empty_queue_def)

lemma session_inv_new: "session_inv seen (new_session stream t)"
proof -
  have "stream_ok seen (new_session stream t)"
    using delivered_none
    by (auto simp: stream_ok_def new_session_def intro!: exI [of _ "[] :: string list"])
  moreover have "Empty empty_queue" by (simp add: Empty_def empty_queue_def)
  ultimately show ?thesis
    by (cases stream) (simp_all add: session_inv_def http_ok_def new_session_def queue_inv_empty CRLF_def)
qed

section \<open>The operations on one session\<close>

text \<open>An operation on one session changes nothing else of the reactor than these counters.\<close>

definition counters_only :: "Reactor \<Rightarrow> Reactor \<Rightarrow> bool" where
  "counters_only r r' \<longleftrightarrow>
     config r' = config r \<and> sessions r' = sessions r \<and> next_token r' = next_token r \<and>
     listeners_paused r' = listeners_paused r \<and> interest r' = interest r \<and> last_sequence r' = last_sequence r \<and>
     accepted r' = accepted r \<and> rejected r' = rejected r \<and> timeouts r' = timeouts r \<and> started r' = started r"

lemma counters_only_refl [simp]: "counters_only r r"
  by (simp add: counters_only_def)

lemma counters_only_trans: "counters_only r r1 \<Longrightarrow> counters_only r1 r2 \<Longrightarrow> counters_only r r2"
  by (simp add: counters_only_def)

text \<open>
  The accounting of one operation: the reactor's total moves with the session's queue, and stays
  within the budget.
\<close>

definition accounted :: "Session \<Rightarrow> Reactor \<Rightarrow> Session \<Rightarrow> Reactor \<Rightarrow> bool" where
  "accounted s r s' r' \<longleftrightarrow>
     counters_only r r' \<and> queue_inv (out_queue s') \<and>
     queued_bytes r' + Bytes (out_queue s) = queued_bytes r + Bytes (out_queue s') \<and> queued_bytes r' \<le> kQueueBudget"

lemma accounted_refl:
  "queue_inv (out_queue s) \<Longrightarrow> queued_bytes r \<le> kQueueBudget \<Longrightarrow> accounted s r s r"
  by (simp add: accounted_def)

lemma accounted_trans: "accounted s r s1 r1 \<Longrightarrow> accounted s1 r1 s2 r2 \<Longrightarrow> accounted s r s2 r2"
  by (auto simp: accounted_def intro: counters_only_trans)

lemma Enqueue_accounted:
  assumes "Enqueue t (Some b) s r = (ok, s', r')" "queue_inv (out_queue s)" "b \<noteq> []"
    and "Bytes (out_queue s) \<le> queued_bytes r" "queued_bytes r \<le> kQueueBudget"
  shows "accounted s r s' r'"
proof -
  have "counters_only r r'"
    using assms(1) by (auto simp: Enqueue_def Let_def case_prod_beta counters_only_def split: if_splits)
  moreover have "queue_inv (out_queue s')"
    using assms(1) queue_inv_Push [OF assms(2,3)]
    by (auto simp: Enqueue_def Let_def case_prod_beta queue_inv_empty split: if_splits)
  ultimately show ?thesis
    using assms(1,4,5) by (auto simp: accounted_def Enqueue_def Let_def case_prod_beta split: if_splits)
qed

lemma Enqueue_ok:
  assumes "Enqueue t (Some b) s r = (True, s', r')"
  shows "out_queue s' = snd (Push (Some b) (out_queue s))" "wire s' = wire s" "streaming s' = streaming s"
    "responding s' = responding s" "request s' = request s" "accepted_at s' = accepted_at s"
  using assms by (auto simp: Enqueue_def Let_def case_prod_beta split: if_splits)

lemma Enqueue_stream:
  assumes "Enqueue t (Some b) s r = (True, s', r')" "session_inv seen s" "streaming s" "b \<noteq> []"
  shows "session_inv (seen @ [b]) s'" "\<not> Empty (out_queue s')" "last (in_flight (out_queue s')) = b"
proof -
  obtain fs ps where d: "subseq ps seen" "delivered fs ps (out_queue s) (wire s)"
    using assms(2,3) by (auto simp: session_inv_def stream_ok_def)
  have "delivered fs (ps @ [b]) (out_queue s') (wire s')"
    using delivered_Push [OF _ assms(4) d(2)] assms(2) Enqueue_ok [OF assms(1)] by (simp add: session_inv_def)
  with subseq_snocI [OF d(1)] have "stream_ok (seen @ [b]) s'" by (rule stream_okI)
  with assms(2-4) show "session_inv (seen @ [b]) s'"
    by (simp add: session_inv_def Enqueue_ok [OF assms(1)] queue_inv_Push)
  have "queue_inv (out_queue s)" using assms(2) by (rule session_inv_queue)
  then show "\<not> Empty (out_queue s')" "last (in_flight (out_queue s')) = b"
    by (auto simp: Enqueue_ok(1) [OF assms(1)] Empty_def Push_def in_flight_def queue_inv_def split: option.splits)
qed

lemma Enqueue_response:
  assumes "Enqueue t (Some b) s r = (True, s', r')" "is_response b" "b \<noteq> []"
    and "wire s = []" "Empty (out_queue s)" "queue_inv (out_queue s)" "\<not> streaming s" "responding s" "request s = []"
  shows "session_inv seen s'"
  using assms(2-) Enqueue_ok [OF assms(1)]
  by (simp add: session_inv_def http_ok_def queue_inv_Push)
    (auto simp: Push_def Empty_def Front_def queue_inv_def)

lemma HttpResponse_nonempty: "HttpResponse st body type \<noteq> []"
  by (simp add: HttpResponse_def)

lemma is_response_HttpResponse [simp]: "is_response (HttpResponse st body type)"
  by (auto simp: is_response_def)

lemma is_response_nonempty: "is_response x \<Longrightarrow> x \<noteq> []"
  by (auto simp: is_response_def HttpResponse_nonempty)

lemma serialize_members_Inr:
  "\<forall>(k, v) \<in> set ms. \<exists>x. SerializeTo i (l + 1) v = Inr x \<Longrightarrow> \<exists>x. serialize_members i l ms = Inr x"
  by (induction ms) auto

lemma Diagnostics_Inr: "\<exists>x. Diagnostics prometheus e r = Inr x"
proof -
  have "\<exists>x. ToString (diagnostics_json e r) (- 1) = Inr x"
    using serialize_members_Inr [of _ "- 1" 0]
    by (auto simp: ToString_def diagnostics_json_def rbind_Inr split: option.splits)
  then show ?thesis by (auto simp: Diagnostics_def)
qed

lemma Route_response: "\<exists>x. Route e r req = Inr x \<and> is_response x"
  using Diagnostics_Inr [of True e r] Diagnostics_Inr [of False e r]
  by (auto simp: Route_def Let_def split: option.splits)

lemma respond_cases:
  obtains (wait) "respond e r req = Inr []" "length req \<le> 8192" "find_sub (CRLF @ CRLF) req = None"
  | (answer) x where "respond e r req = Inr x" "is_response x" "x \<noteq> []"
proof (cases "length req \<le> 8192 \<and> find_sub (CRLF @ CRLF) req = None")
  case True
  then show thesis by (intro wait) (simp_all add: respond_def)
next
  case False
  obtain x where "Route e r req = Inr x" "is_response x" using Route_response by blast
  with False show thesis
    by (cases "length req \<le> 8192") (auto simp: respond_def HttpResponse_nonempty dest: is_response_nonempty intro!: answer)
qed

lemma read_loop_inv:
  assumes "session_inv seen s" "\<not> streaming s" "\<not> responding s"
    and "Bytes (out_queue s) \<le> queued_bytes r" "queued_bytes r \<le> kQueueBudget"
  shows "\<exists>alive s' r'. read_loop n e as s r = Inr (alive, s', r') \<and> accounted s r s' r' \<and>
           (alive \<longrightarrow> session_inv seen s')"
  using assms
proof (induction n e as s r rule: read_loop.induct)
  case (1 e as s r)
  then show ?case by (auto simp: accounted_refl session_inv_queue)
next
  case (2 n e s r)
  then show ?case by (auto simp: accounted_refl session_inv_queue)
next
  case (3 n e err as s r)
  then show ?case by (cases "err = EINTR") (auto simp: accounted_refl session_inv_queue)
next
  case (4 n e bytes as s r)
  let ?s1 = "s\<lparr>request := request s @ bytes\<rparr>"
  have acct: "accounted s r x y = accounted ?s1 r x y" for x y by (simp add: accounted_def)
  show ?case
  proof (cases "bytes = []")
    case True
    then show ?thesis using 4 by (auto simp: accounted_refl session_inv_queue)
  next
    case False
    show ?thesis
    proof (cases rule: respond_cases [of e r "request ?s1"])
      case wait
      then have "session_inv seen ?s1" using "4.prems" by (simp add: session_inv_def http_ok_def)
      with 4 wait False show ?thesis by (simp add: acct)
    next
      case (answer x)
      let ?s2 = "?s1\<lparr>responding := True, request := []\<rparr>"
      obtain alive s' r' where E: "Enqueue (now e) (Some x) ?s2 r = (alive, s', r')"
        by (metis prod_cases3)
      have "accounted ?s2 r s' r'"
        using Enqueue_accounted [OF E] answer "4.prems" by (simp add: session_inv_queue)
      then have "accounted s r s' r'" by (simp add: accounted_def)
      moreover have "alive \<longrightarrow> session_inv seen s'"
        using Enqueue_response [of "now e" x ?s2 r s' r' seen] E answer "4.prems"
        by (auto simp: session_inv_def http_ok_def)
      ultimately show ?thesis using answer False E by simp
    qed
  qed
qed

text \<open>One successful \<open>send\<close>: the bytes leave the queue for the wire.\<close>

definition sent :: "nat \<Rightarrow> int \<Rightarrow> OutputQueue \<Rightarrow> Session \<Rightarrow> Session" where
  "sent n t q s = s\<lparr>wire := wire s @ take n (Front (out_queue s)), out_queue := q, last_progress := t\<rparr>"

lemma Consume_http:
  assumes "pending q = None" "queue_inv q" "Consume n q = Inr q'"
  shows "take n (Front q) @ Front q' = Front q" "pending q' = None"
  using assms
  by (auto simp: Consume_def Front_def queue_inv_def split: option.splits if_splits)
    (metis append_take_drop_id drop_drop add.commute)

lemma sent_inv:
  assumes "session_inv seen s" "Consume n (out_queue s) = Inr q" "\<not> streaming s \<longrightarrow> \<not> Empty q" "\<not> Empty (out_queue s)"
  shows "session_inv seen (sent n t q s)"
proof (cases "streaming s")
  case True
  then obtain fs ps where d: "subseq ps seen" "delivered fs ps (out_queue s) (wire s)"
    using assms(1) by (auto simp: session_inv_def stream_ok_def)
  obtain fs' where "delivered fs' ps q (wire s @ take n (Front (out_queue s)))"
    using delivered_Consume [OF _ d(2) assms(2)] assms(1) by (auto simp: session_inv_def)
  then have "stream_ok seen (sent n t q s)" by (intro stream_okI [OF d(1)]) (simp add: sent_def)
  then show ?thesis
    using assms(1) True queue_inv_Consume [OF _ assms(2)] by (simp add: session_inv_def sent_def)
next
  case False
  then have h: "http_ok s" "queue_inv (out_queue s)" using assms(1) by (simp_all add: session_inv_def)
  with assms(4) have "responding s" by (auto simp: http_ok_def split: if_splits)
  with h Consume_http [OF _ h(2) assms(2)] have "http_ok (sent n t q s)"
    using assms(3) False by (simp add: http_ok_def sent_def)
  then show ?thesis using False assms(2) h(2) queue_inv_Consume by (auto simp: session_inv_def sent_def)
qed

lemma sent_accounted:
  assumes "queue_inv q" "Bytes q + n = Bytes (out_queue s)"
    and "Bytes (out_queue s) \<le> queued_bytes r" "queued_bytes r \<le> kQueueBudget"
  shows "accounted s r (sent n t q s) (r\<lparr>queued_bytes := queued_bytes r - n, bytes_sent := b\<rparr>)"
  using assms by (auto simp: accounted_def counters_only_def sent_def)

lemma write_loop_send:
  assumes "\<not> (budget = 0 \<or> Empty (out_queue s))" "min k (min (length (Front (out_queue s))) budget) = n"
    and "n \<noteq> 0" "Consume n (out_queue s) = Inr q"
  shows "write_loop budget e (Room k # as) s r =
    write_loop (budget - n) e as (sent n (now e) q s)
      (r\<lparr>queued_bytes := queued_bytes r - n, bytes_sent := bytes_sent r + of_nat n\<rparr>)"
  using assms(1,3,4) by (simp add: assms(2) sent_def Let_def)

text \<open>
  The write loop: it never consumes more than it offered, it sends at most its budget, and if it
  leaves the session open the session is as it should be.
\<close>

lemma write_loop_inv:
  assumes "streaming s \<or> \<not> Empty (out_queue s) \<longrightarrow> session_inv seen s" "queue_inv (out_queue s)"
    and "Bytes (out_queue s) \<le> queued_bytes r" "queued_bytes r \<le> kQueueBudget"
  shows "\<exists>alive s' r'. write_loop budget e as s r = Inr (alive, s', r') \<and> accounted s r s' r' \<and>
           (alive \<longrightarrow> session_inv seen s') \<and> length (wire s') \<le> length (wire s) + budget"
  using assms
proof (induction budget e as s r rule: write_loop.induct)
  case (1 budget e s r)
  then show ?case by (auto simp: accounted_refl)
next
  case (2 budget e a as s r)
  show ?case
  proof (cases "budget = 0 \<or> Empty (out_queue s)")
    case True
    with "2.prems" show ?thesis by (auto simp: accounted_refl)
  next
    case False
    then have inv: "session_inv seen s" using "2.prems"(1) by simp
    show ?thesis
    proof (cases a)
      case (Send_error err)
      with False 2 inv show ?thesis by (cases "err = EINTR") (auto simp: accounted_refl)
    next
      case (Room k)
      let ?n = "min k (min (length (Front (out_queue s))) budget)"
      show ?thesis
      proof (cases "?n = 0")
        case True
        with Room False "2.prems" show ?thesis by (auto simp: accounted_refl)
      next
        case pos: False
        have "0 < Bytes (out_queue s)" using False Bytes_eq_0 [OF "2.prems"(2)] by simp
        with pos obtain q where q: "Consume ?n (out_queue s) = Inr q" "queue_inv q" "Bytes q + ?n = Bytes (out_queue s)"
          using lq.send_progress [OF "2.prems"(2), of ?n] by (metis min.cobounded1 min.cobounded2 min.coboundedI2 not_gr_zero)
        let ?s = "sent ?n (now e) q s" and ?r = "r\<lparr>queued_bytes := queued_bytes r - ?n, bytes_sent := bytes_sent r + of_nat ?n\<rparr>"
        have acc: "accounted s r ?s ?r"
          using sent_accounted [OF q(2,3)] "2.prems"(3,4) by blast
        have "streaming ?s \<or> \<not> Empty (out_queue ?s) \<longrightarrow> session_inv seen ?s"
          using sent_inv [OF inv q(1)] False by (auto simp: sent_def)
        then have "\<exists>alive s' r'. write_loop (budget - ?n) e as ?s ?r = Inr (alive, s', r') \<and> accounted ?s ?r s' r' \<and>
            (alive \<longrightarrow> session_inv seen s') \<and> length (wire s') \<le> length (wire ?s) + (budget - ?n)"
          using "2.IH"(1) [OF False Room refl pos, of q] acc q "2.prems"(3,4)
          by (simp add: sent_def accounted_def)
        moreover have "length (wire ?s) + (budget - ?n) \<le> length (wire s) + budget"
          by (simp add: sent_def)
        moreover have "write_loop budget e (a # as) s r = write_loop (budget - ?n) e as ?s ?r"
          unfolding Room using write_loop_send [OF False refl pos q(1)] .
        ultimately show ?thesis using accounted_trans [OF acc] by (smt (verit) le_trans)
      qed
    qed
  qed
qed

section \<open>The reactor\<close>

definition total_queued :: "(nat \<times> Session) list \<Rightarrow> nat" where
  "total_queued xs = sum_list (map (\<lambda>(t, s). Bytes (out_queue s)) xs)"

definition tokens_ok :: "Reactor \<Rightarrow> bool" where
  "tokens_ok r \<longleftrightarrow>
     distinct (map fst (sessions r)) \<and> 16 \<le> next_token r \<and>
     (\<forall>t \<in> set (map fst (sessions r)). 16 \<le> t \<and> t < next_token r)"

text \<open>The epoll set: the listeners are in it unless they are paused, and every session with its mask.\<close>

definition interest_ok :: "Reactor \<Rightarrow> bool" where
  "interest_ok r \<longleftrightarrow>
     (\<forall>l \<in> {kHttp, kStream}. interest r l = (if listeners_paused r then None else Some (True, False))) \<and>
     (\<forall>t \<ge> 16. interest r t = map_option mask (find_session t r))"

definition inv_with :: "(nat \<Rightarrow> Session \<Rightarrow> bool) \<Rightarrow> Reactor \<Rightarrow> bool" where
  "inv_with I r \<longleftrightarrow>
     tokens_ok r \<and> interest_ok r \<and> length (sessions r) \<le> max_clients (config r) \<and>
     queued_bytes r = total_queued (sessions r) \<and> queued_bytes r \<le> kQueueBudget \<and>
     (\<forall>t s. find_session t r = Some s \<longrightarrow> queue_inv (out_queue s) \<and> I t s)"

definition reactor_inv :: "string list \<Rightarrow> Reactor \<Rightarrow> bool" where
  "reactor_inv seen = inv_with (\<lambda>_. session_inv seen)"

lemma inv_with_mono:
  "inv_with I r \<Longrightarrow> (\<And>t s. find_session t r = Some s \<Longrightarrow> I t s \<Longrightarrow> J t s) \<Longrightarrow> inv_with J r"
  by (auto simp: inv_with_def)

lemma Bytes_le_total: "map_of xs t = Some s \<Longrightarrow> Bytes (out_queue s) \<le> total_queued xs"
  by (induction xs) (auto simp: total_queued_def split: if_splits)

lemma total_queued_update:
  assumes "distinct (map fst xs)" "map_of xs t = Some s"
  shows "total_queued (map (\<lambda>(u, x). (u, if u = t then s' else x)) xs) + Bytes (out_queue s) =
    total_queued xs + Bytes (out_queue s')"
  using assms
proof (induction xs)
  case Nil
  then show ?case by simp
next
  case (Cons p xs)
  obtain u x where p: "p = (u, x)" by fastforce
  show ?case
  proof (cases "u = t")
    case True
    with Cons.prems p have "map (\<lambda>(u, x). (u, if u = t then s' else x)) xs = xs"
      by (intro map_idI) (auto simp: image_iff)
    with True Cons.prems p show ?thesis by (simp add: total_queued_def)
  next
    case False
    with Cons p show ?thesis by (simp add: total_queued_def)
  qed
qed

lemma total_queued_erase:
  assumes "distinct (map fst xs)" "map_of xs t = Some s"
  shows "total_queued (filter (\<lambda>(u, x). u \<noteq> t) xs) + Bytes (out_queue s) = total_queued xs"
  using assms
proof (induction xs)
  case Nil
  then show ?case by simp
next
  case (Cons p xs)
  obtain u x where p: "p = (u, x)" by fastforce
  show ?case
  proof (cases "u = t")
    case True
    with Cons.prems p have "filter (\<lambda>(u, x). u \<noteq> t) xs = xs"
      by (intro filter_True) (auto simp: image_iff)
    with True Cons.prems p show ?thesis by (simp add: total_queued_def)
  next
    case False
    with Cons p show ?thesis by (simp add: total_queued_def)
  qed
qed

lemma put_session_simps [simp]:
  "interest (put_session t s r) = interest r" "config (put_session t s r) = config r"
  "next_token (put_session t s r) = next_token r" "queued_bytes (put_session t s r) = queued_bytes r"
  "listeners_paused (put_session t s r) = listeners_paused r" "map fst (sessions (put_session t s r)) = map fst (sessions r)"
  "length (sessions (put_session t s r)) = length (sessions r)" "rejected (put_session t s r) = rejected r"
  "last_sequence (put_session t s r) = last_sequence r"
  by (auto simp: put_session_def)

lemma find_session_cong: "sessions r' = sessions r \<Longrightarrow> find_session u r' = find_session u r"
  by (simp add: find_session_def)

lemma find_put_session:
  "find_session u (put_session t s r) = (if u = t then map_option (\<lambda>_. s) (find_session t r) else find_session u r)"
proof -
  have "map_of (map (\<lambda>(v, x). (v, if v = t then s else x)) xs) u =
      (if u = t then map_option (\<lambda>_. s) (map_of xs t) else map_of xs u)" for xs
    by (induction xs) auto
  then show ?thesis by (simp add: find_session_def put_session_def)
qed

lemma find_erase_session: "find_session u (erase_session t r) = (if u = t then None else find_session u r)"
proof -
  have "map_of (filter (\<lambda>(v, x). v \<noteq> t) xs) u = (if u = t then None else map_of xs u)" for xs :: "(nat \<times> Session) list"
    by (induction xs) auto
  then show ?thesis by (simp add: find_session_def erase_session_def)
qed

lemma find_session_token: "tokens_ok r \<Longrightarrow> find_session t r = Some s \<Longrightarrow> 16 \<le> t \<and> t < next_token r"
  unfolding tokens_ok_def find_session_def by (force dest: map_of_SomeD)

lemma inv_with_counters [simp]:
  "inv_with I (r\<lparr>rejected := n\<rparr>) = inv_with I r" "inv_with I (r\<lparr>timeouts := n\<rparr>) = inv_with I r"
  "inv_with I (r\<lparr>last_sequence := n\<rparr>) = inv_with I r"
  by (simp_all add: inv_with_def tokens_ok_def interest_ok_def find_session_def)

lemma inv_withD:
  assumes "inv_with I r" "find_session t r = Some s"
  shows "I t s" "queue_inv (out_queue s)" "Bytes (out_queue s) \<le> queued_bytes r" "queued_bytes r \<le> kQueueBudget"
  using assms Bytes_le_total by (auto simp: inv_with_def find_session_def)

text \<open>After an operation on one session, the reactor either modifies its epoll entry or closes it.\<close>

lemma inv_Modify:
  assumes "inv_with I r" "find_session t r = Some s" "accounted s r s' r1" "calls_ok e"
    and "J t s'" "\<And>u x. u \<noteq> t \<Longrightarrow> I u x \<Longrightarrow> J u x"
  obtains r2 where "Modify e t s' (put_session t s' r1) = Inr r2" "inv_with J r2"
    "\<And>u. find_session u r2 = (if u = t then Some s' else find_session u r)" "map fst (sessions r2) = map fst (sessions r)"
proof -
  let ?p = "put_session t s' r1"
  define r2 where "r2 = ?p\<lparr>interest := (interest ?p)(t \<mapsto> mask s')\<rparr>"
  have r1: "sessions r1 = sessions r" "config r1 = config r" "next_token r1 = next_token r"
    "interest r1 = interest r" "listeners_paused r1 = listeners_paused r"
    using assms(3) by (simp_all add: accounted_def counters_only_def)
  have t: "16 \<le> t" using find_session_token [OF _ assms(2)] assms(1) by (simp add: inv_with_def)
  have find: "find_session u r2 = (if u = t then Some s' else find_session u r)" for u
  proof -
    have "find_session u r2 = find_session u ?p" by (simp add: r2_def find_session_def)
    then show ?thesis using assms(2) find_session_cong [OF r1(1)] by (simp add: find_put_session)
  qed
  have tot: "total_queued (sessions r2) + Bytes (out_queue s) = total_queued (sessions r) + Bytes (out_queue s')"
    using total_queued_update [of "sessions r" t s s'] assms(1,2) r1(1)
    by (simp add: r2_def put_session_def inv_with_def tokens_ok_def find_session_def)
  have keys: "map fst (sessions r2) = map fst (sessions r)" by (simp add: r2_def r1)
  have "interest_ok r2"
    using assms(1,2) t find r1 by (auto simp: interest_ok_def inv_with_def r2_def kHttp_def kStream_def)
  moreover have "queued_bytes r2 = total_queued (sessions r2)" "queued_bytes r2 \<le> kQueueBudget"
    using tot assms(1,3) by (auto simp: accounted_def inv_with_def r2_def)
  ultimately have "inv_with J r2"
    using assms keys find r1 by (auto simp: inv_with_def tokens_ok_def accounted_def r2_def)
  moreover have "interest r t \<noteq> None" using assms(1,2) t by (simp add: inv_with_def interest_ok_def)
  then have "Modify e t s' ?p = Inr r2" using assms(4) r1 by (simp add: Modify_def Check_def r2_def)
  ultimately show thesis using that find keys by blast
qed

lemma erase_session_simps [simp]:
  "interest (erase_session t r) = interest r" "config (erase_session t r) = config r"
  "queued_bytes (erase_session t r) = queued_bytes r" "listeners_paused (erase_session t r) = listeners_paused r"
  "next_token (erase_session t r) = next_token r"
  by (auto simp: erase_session_def)

lemma filter_update:
  "filter (\<lambda>(u, x). u \<noteq> t) (map (\<lambda>(u, x). (u, if u = t then s else x)) xs) = filter (\<lambda>(u, x). u \<noteq> t) xs"
  by (induction xs) auto

lemma inv_Close:
  assumes "inv_with I r" "find_session t r = Some s" "accounted s r s' r1" "\<And>u x. u \<noteq> t \<Longrightarrow> I u x \<Longrightarrow> J u x"
  shows "inv_with J (Close t (put_session t s' r1))"
proof -
  let ?p = "put_session t s' r1"
  define r2 where "r2 = Close t ?p"
  have r1: "sessions r1 = sessions r" "config r1 = config r" "next_token r1 = next_token r"
    "interest r1 = interest r" "listeners_paused r1 = listeners_paused r"
    using assms(3) by (simp_all add: accounted_def counters_only_def)
  have "find_session t ?p = Some s'" using assms(2) find_session_cong [OF r1(1)] by (simp add: find_put_session)
  then have r2: "r2 = erase_session t (?p\<lparr>queued_bytes := queued_bytes r1 - Bytes (out_queue s'), interest := (interest r)(t := None)\<rparr>)"
    by (simp add: r2_def Close_def r1)
  have t: "16 \<le> t" using find_session_token [OF _ assms(2)] assms(1) by (simp add: inv_with_def)
  have find: "find_session u r2 = (if u = t then None else find_session u r)" for u
  proof -
    have "find_session u (?p\<lparr>queued_bytes := q, interest := i\<rparr>) = find_session u ?p" for q i by (rule find_session_cong) simp
    then show ?thesis using find_session_cong [OF r1(1)] by (simp add: r2 find_erase_session find_put_session)
  qed
  have sess: "sessions r2 = filter (\<lambda>(u, x). u \<noteq> t) (sessions r)"
    by (simp add: r2 erase_session_def put_session_def r1 filter_update)
  have tot: "total_queued (sessions r2) + Bytes (out_queue s) = total_queued (sessions r)"
    using total_queued_erase [of "sessions r" t s] assms(1,2)
    by (simp add: sess inv_with_def tokens_ok_def find_session_def)
  have "next_token r2 = next_token r" by (simp add: r2 r1)
  then have "tokens_ok r2"
    using assms(1) by (auto simp: tokens_ok_def inv_with_def sess distinct_map_filter)
  moreover have "interest_ok r2"
    using assms(1,2) t find r1
    by (auto simp: interest_ok_def inv_with_def kHttp_def kStream_def r2)
  moreover have "queued_bytes r2 = total_queued (sessions r2)" "queued_bytes r2 \<le> kQueueBudget"
    using tot assms(1,3) by (auto simp: accounted_def inv_with_def r2 erase_session_def)
  moreover have "length (sessions r2) \<le> max_clients (config r2)"
  proof -
    have "config r2 = config r" by (simp add: r2 r1)
    then show ?thesis using assms(1) by (auto simp: inv_with_def sess intro: le_trans [OF length_filter_le])
  qed
  ultimately show ?thesis
    using assms(1,4) find by (auto simp: inv_with_def r2_def [symmetric])
qed

lemma find_Close: "find_session u (Close t r) = (if u = t then None else find_session u r)"
proof (cases "find_session t r")
  case None
  then show ?thesis by (simp add: Close_def)
next
  case (Some s)
  have "find_session u (r\<lparr>queued_bytes := q, interest := i\<rparr>) = find_session u r" for q i
    by (rule find_session_cong) simp
  with Some show ?thesis by (simp add: Close_def find_erase_session)
qed

section \<open>The handlers\<close>

text \<open>What the outside may answer: calls succeed, and the published generation is a real one.\<close>

definition env_ok :: "env \<Rightarrow> bool" where
  "env_ok e \<longleftrightarrow>
     calls_ok e \<and> distinct (order e) \<and> (case latest e of None \<Rightarrow> True | Some g \<Rightarrow> generation_ok g)"

definition seen_frames :: "env \<Rightarrow> string list" where
  "seen_frames e = (case latest e of None \<Rightarrow> [] | Some g \<Rightarrow> [frame g])"

lemma env_ok_frame: "env_ok e \<Longrightarrow> latest e = Some g \<Longrightarrow> frame g \<noteq> []"
  by (auto simp: env_ok_def generation_ok_def dest: frame_nonempty)

lemma reactor_inv_seen: "reactor_inv seen r \<Longrightarrow> reactor_inv (seen @ xs) r"
  unfolding reactor_inv_def by (erule inv_with_mono) (rule session_inv_mono)

lemma session_event_inv:
  assumes "reactor_inv seen r" "calls_ok e"
  shows "\<exists>r'. session_event e ev r = Inr r' \<and> reactor_inv seen r'"
proof (cases "find_session (token ev) r")
  case None
  with assms show ?thesis by (simp add: session_event_def)
next
  case (Some s)
  let ?J = "\<lambda>_. session_inv seen"
  have inv: "inv_with ?J r" using assms(1) by (simp add: reactor_inv_def)
  note s = inv_withD [OF inv Some]
  let ?read = "\<not> ev_err ev \<and> \<not> streaming s \<and> \<not> responding s \<and> (ev_in ev \<or> ev_hup ev)"
  obtain a1 s1 r1 where 1: "(if ?read then Read e s r else Inr (\<not> ev_err ev, s, r)) = Inr (a1, s1, r1)"
    "accounted s r s1 r1" "a1 \<longrightarrow> session_inv seen s1"
    using read_loop_inv [OF s(1) _ _ s(3,4), of 8 e "recvs e"] accounted_refl [OF s(2,4)] s(1)
    by (cases ?read) (auto simp: Read_def)
  have b1: "Bytes (out_queue s1) \<le> queued_bytes r1" "queued_bytes r1 \<le> kQueueBudget" "queue_inv (out_queue s1)"
    using 1(2) s(3) by (auto simp: accounted_def)
  obtain a2 s2 r2 where 2: "(if a1 \<and> ev_out ev then Write e s1 r1 else Inr (a1, s1, r1)) = Inr (a2, s2, r2)"
    "accounted s1 r1 s2 r2" "a2 \<longrightarrow> session_inv seen s2"
    using write_loop_inv [of s1 seen r1 kWriteBudget e "sends e"] accounted_refl [OF b1(3,2)] 1(3) b1
    by (cases "a1 \<and> ev_out ev") (auto simp: Write_def)
  have acc: "accounted s r s2 r2" using 1(2) 2(2) by (rule accounted_trans)
  show ?thesis
  proof (cases "\<not> a2 \<or> ev_hup ev")
    case True
    with Some 1(1) 2(1) have "session_event e ev r = Inr (Close (token ev) (put_session (token ev) s2 r2))"
      by (simp add: session_event_def Let_def)
    moreover have "inv_with ?J (Close (token ev) (put_session (token ev) s2 r2))"
      using inv Some acc by (rule inv_Close)
    ultimately show ?thesis by (simp add: reactor_inv_def)
  next
    case False
    with 2(3) obtain r3 where "Modify e (token ev) s2 (put_session (token ev) s2 r2) = Inr r3" "inv_with ?J r3"
      using inv_Modify [where J = ?J, OF inv Some acc assms(2)] by blast
    with False Some 1(1) 2(1) show ?thesis by (simp add: session_event_def Let_def reactor_inv_def)
  qed
qed

lemma put_session_same: "tokens_ok r \<Longrightarrow> find_session t r = Some s \<Longrightarrow> put_session t s r = r"
proof -
  have "distinct (map fst xs) \<Longrightarrow> map_of xs t = Some s \<Longrightarrow> map (\<lambda>(u, x). (u, if u = t then s else x)) xs = xs" for xs
    by (induction xs) (auto split: if_splits intro!: map_idI simp: image_iff)
  then show "tokens_ok r \<Longrightarrow> find_session t r = Some s \<Longrightarrow> put_session t s r = r"
    by (simp add: tokens_ok_def find_session_def put_session_def)
qed

lemma inv_Close_unchanged:
  assumes "inv_with I r" shows "inv_with I (Close t r)"
proof (cases "find_session t r")
  case None
  with assms show ?thesis by (simp add: Close_def)
next
  case (Some s)
  with assms inv_Close [OF assms Some accounted_refl, of I] inv_withD [OF assms Some] put_session_same [OF _ Some]
  show ?thesis by (simp add: inv_with_def)
qed

section \<open>Accepting\<close>

lemma inv_add_session:
  assumes "inv_with I r" "length (sessions r) < max_clients (config r)" "t = next_token r"
    and "I t s" "accounted (new_session b u) (r\<lparr>next_token := t + 1\<rparr>) s r1" "calls_ok e"
  obtains r2 where "Register e t (mask s) r1 = Inr r2"
    "\<And>n. inv_with I (r2\<lparr>sessions := sessions r2 @ [(t, s)], accepted := n\<rparr>)"
proof -
  let ?r2 = "r1\<lparr>interest := (interest r1)(t \<mapsto> mask s)\<rparr>"
  let ?r3 = "\<lambda>n. ?r2\<lparr>sessions := sessions ?r2 @ [(t, s)], accepted := n\<rparr>"
  have r1: "sessions r1 = sessions r" "config r1 = config r" "next_token r1 = Suc t"
    "interest r1 = interest r" "listeners_paused r1 = listeners_paused r"
    using assms(5) by (simp_all add: accounted_def counters_only_def)
  have new: "find_session t r = None" "16 \<le> t"
    using find_session_token [of r t] assms(1,3) by (fastforce simp: inv_with_def tokens_ok_def)+
  have "distinct (map fst (sessions r) @ [t])"
    using assms(1,3) by (auto simp: inv_with_def tokens_ok_def)
  then have "tokens_ok (?r3 n)" for n
    using assms(1,3) r1 by (fastforce simp: inv_with_def tokens_ok_def)
  moreover have find: "find_session v (?r3 n) = (if v = t then Some s else find_session v r)" for v n
    using new(1) r1(1) by (auto simp: find_session_def map_add_def split: option.splits)
  moreover have "interest_ok (?r3 n)" for n
    using assms(1) find new r1 by (auto simp: inv_with_def interest_ok_def kHttp_def kStream_def)
  moreover have "queued_bytes (?r3 n) = total_queued (sessions (?r3 n))" "queued_bytes (?r3 n) \<le> kQueueBudget" for n
    using assms(1,5) r1 by (auto simp: accounted_def inv_with_def total_queued_def new_session_def)
  ultimately have "inv_with I (?r3 n)" for n
    using assms r1 by (auto simp: inv_with_def accounted_def)
  moreover have "Register e t (mask s) r1 = Inr ?r2"
    using assms(1,6) new r1(4) by (simp add: Register_def Check_def inv_with_def interest_ok_def)
  ultimately show thesis using that by blast
qed

lemma accounted_new: "inv_with I r \<Longrightarrow> accounted (new_session b u) (r\<lparr>next_token := t\<rparr>) (new_session b u) (r\<lparr>next_token := t\<rparr>)"
  by (rule accounted_refl) (simp_all add: new_session_def queue_inv_empty inv_with_def)

lemma inv_skip_token:
  assumes "inv_with I r" "accounted (new_session b u) (r\<lparr>next_token := Suc (next_token r)\<rparr>) s r1" "Bytes (out_queue s) = 0"
  shows "inv_with I r1"
proof -
  have "sessions r1 = sessions r" "config r1 = config r" "next_token r1 = Suc (next_token r)"
    "interest r1 = interest r" "listeners_paused r1 = listeners_paused r" "queued_bytes r1 = queued_bytes r"
    using assms(2,3) by (simp_all add: accounted_def counters_only_def new_session_def)
  with assms(1) show ?thesis
    by (auto simp: inv_with_def tokens_ok_def interest_ok_def find_session_def)
qed

lemma Enqueue_refused: "Enqueue t b s r = (False, s', r') \<Longrightarrow> Bytes (out_queue s') = 0"
  by (auto simp: Enqueue_def Let_def case_prod_beta split: if_splits)

lemma greet_cases:
  assumes "inv_with I r" "env_ok e" "greet e stream (new_session stream (now e)) (r\<lparr>next_token := n\<rparr>) = (a, s, r')"
  shows "accounted (new_session stream (now e)) (r\<lparr>next_token := n\<rparr>) s r'"
    and "a \<Longrightarrow> session_inv (seen @ seen_frames e) s \<and> mask s = (if stream then (False, \<not> Empty (out_queue s)) else (True, False))"
    and "\<not> a \<Longrightarrow> Bytes (out_queue s) = 0"
proof -
  let ?s = "new_session stream (now e)"
  note acc = accounted_new [OF assms(1), of stream "now e" n]
  have "accounted ?s (r\<lparr>next_token := n\<rparr>) s r' \<and>
    (a \<longrightarrow> session_inv (seen @ seen_frames e) s \<and> streaming s = stream \<and> \<not> responding s) \<and> (\<not> a \<longrightarrow> Bytes (out_queue s) = 0)"
  proof (cases "stream \<and> latest e \<noteq> None")
    case True
    then obtain g where g: "latest e = Some g" by auto
    have E: "Enqueue (now e) (Some (frame g)) ?s (r\<lparr>next_token := n\<rparr>) = (a, s, r')"
      using assms(3) True g by (simp add: greet_def)
    have f: "frame g \<noteq> []" using assms(2) g by (rule env_ok_frame)
    have "accounted ?s (r\<lparr>next_token := n\<rparr>) s r'"
      using Enqueue_accounted [OF E _ f] acc by (simp add: accounted_def new_session_def)
    moreover have "a \<longrightarrow> session_inv (seen @ [frame g]) s \<and> streaming s = stream \<and> \<not> responding s"
      using E Enqueue_stream(1) [OF _ session_inv_new _ f] Enqueue_ok True by (auto simp: new_session_def)
    ultimately show ?thesis using E Enqueue_refused g by (auto simp: seen_frames_def)
  next
    case False
    with assms(3) have "a" "s = ?s" "r' = r\<lparr>next_token := n\<rparr>" by (auto simp: greet_def split: option.splits)
    then show ?thesis using acc session_inv_new [of _ stream "now e"] by (simp add: new_session_def)
  qed
  then show "accounted ?s (r\<lparr>next_token := n\<rparr>) s r'"
    and "a \<Longrightarrow> session_inv (seen @ seen_frames e) s \<and> mask s = (if stream then (False, \<not> Empty (out_queue s)) else (True, False))"
    and "\<not> a \<Longrightarrow> Bytes (out_queue s) = 0"
    by (auto simp: mask_def session_inv_def http_ok_def)
qed

lemma accept_one_inv:
  assumes "reactor_inv (seen @ seen_frames e) r" "env_ok e"
  shows "\<exists>r'. accept_one e stream r = Inr r' \<and> reactor_inv (seen @ seen_frames e) r'"
proof (cases "max_clients (config r) \<le> length (sessions r)")
  case True
  with assms show ?thesis by (simp add: accept_one_def reactor_inv_def)
next
  case False
  let ?J = "\<lambda>_. session_inv (seen @ seen_frames e)"
  let ?t = "next_token r"
  have inv: "inv_with ?J r" and ok: "calls_ok e" using assms by (simp_all add: reactor_inv_def env_ok_def)
  obtain a s r1 where E: "greet e stream (new_session stream (now e)) (r\<lparr>next_token := Suc ?t\<rparr>) = (a, s, r1)"
    by (metis prod_cases3)
  note greet = greet_cases(1) [OF inv assms(2) E] greet_cases(2) [OF inv assms(2) E, of seen] greet_cases(3) [OF inv assms(2) E]
  show ?thesis
  proof (cases a)
    case True
    obtain r2 where "Register e ?t (mask s) r1 = Inr r2"
      "inv_with ?J (r2\<lparr>sessions := sessions r2 @ [(?t, s)], accepted := accepted r2 + 1\<rparr>)"
      using inv_add_session [OF inv _ refl, of s stream "now e" r1 e] greet False True ok by auto
    with False True E ok greet(2) show ?thesis
      by (simp add: accept_one_def Let_def Check_def reactor_inv_def)
  next
    case a: False
    have "inv_with ?J r1" using inv_skip_token [OF inv greet(1)] greet(3) a by simp
    with False a E ok show ?thesis by (simp add: accept_one_def Let_def Check_def reactor_inv_def)
  qed
qed

lemma accept_loop_inv:
  assumes "reactor_inv (seen @ seen_frames e) r" "env_ok e" "\<not> listeners_paused r"
  shows "\<exists>r'. accept_loop n e stream as r = Inr r' \<and> reactor_inv (seen @ seen_frames e) r'"
  using assms
proof (induction n e stream as r rule: accept_loop.induct)
  case (3 n e stream err as r)
  have "inv_with I r \<Longrightarrow> inv_with I (r\<lparr>interest := (interest r)(kHttp := None, kStream := None), listeners_paused := True, rejected := k\<rparr>)" for I k
    by (auto simp: inv_with_def tokens_ok_def interest_ok_def find_session_def kHttp_def kStream_def)
  with 3 show ?case by (cases "err = EINTR") (auto simp: reactor_inv_def Let_def)
next
  case (4 n e stream as r)
  obtain r1 where r1: "accept_one e stream r = Inr r1" "reactor_inv (seen @ seen_frames e) r1"
    using accept_one_inv "4.prems" by blast
  have "listeners_paused r1 = listeners_paused r"
    using r1(1) by (auto simp: accept_one_def Let_def rbind_Inr Check_def Register_def greet_def Enqueue_def case_prod_beta
        split: if_splits option.splits)
  with 4 r1 show ?case by simp
qed auto

section \<open>Deadlines\<close>

lemma expired_cong: "config r' = config r \<Longrightarrow> expired e r' s = expired e r s"
  by (simp add: expired_def)

lemma config_Close [simp]: "config (Close t r) = config r" "listeners_paused (Close t r) = listeners_paused r"
  by (simp_all add: Close_def split: option.splits)

lemma sweep_loop_inv:
  "inv_with I r \<Longrightarrow> inv_with I (sweep_loop e toks r)"
  by (induction e toks r rule: sweep_loop.induct) (auto simp: inv_Close_unchanged split: option.splits)

lemma sweep_loop_config [simp]:
  "config (sweep_loop e toks r) = config r" "listeners_paused (sweep_loop e toks r) = listeners_paused r"
  by (induction e toks r rule: sweep_loop.induct) (auto split: option.splits)

lemma find_sweep_loop:
  "find_session u (sweep_loop e toks r) =
     (case find_session u r of
        None \<Rightarrow> None
      | Some s \<Rightarrow> if u \<in> set toks \<and> expired e r s then None else Some s)"
proof (induction e toks r rule: sweep_loop.induct)
  case (2 e tok toks r)
  have "find_session v (r\<lparr>timeouts := n\<rparr>) = find_session v r" for v n by (rule find_session_cong) simp
  moreover have "expired e (Close tok (r\<lparr>timeouts := n\<rparr>)) s = expired e r s" for n s by (rule expired_cong) simp
  ultimately show ?case using 2 by (auto simp: find_Close split: option.splits)
qed (simp split: option.splits)

lemma inv_resume:
  "inv_with I r \<Longrightarrow> inv_with I (r\<lparr>interest := (interest r)(kHttp \<mapsto> (True, False), kStream \<mapsto> (True, False)), listeners_paused := False\<rparr>)"
  by (auto simp: inv_with_def tokens_ok_def interest_ok_def find_session_def kHttp_def kStream_def)

lemma Sweep_spec:
  assumes "inv_with I r" "calls_ok e"
  obtains r' where "Sweep e r = Inr r'" "inv_with I r'" "\<not> listeners_paused r'" "sessions r' = sessions (sweep_loop e (order e) r)"
    "config r' = config r"
proof -
  let ?r = "sweep_loop e (order e) r"
  let ?r' = "?r\<lparr>interest := (interest ?r)(kHttp \<mapsto> (True, False), kStream \<mapsto> (True, False)), listeners_paused := False\<rparr>"
  have inv: "inv_with I ?r" using assms(1) by (rule sweep_loop_inv)
  show thesis
  proof (cases "listeners_paused r")
    case True
    with inv have "interest ?r kHttp = None" "interest ?r kStream = None" by (auto simp: inv_with_def interest_ok_def)
    with True assms(2) have "Sweep e r = Inr ?r'"
      by (simp add: Sweep_def Let_def Register_def Check_def) (simp add: kHttp_def kStream_def)
    with inv_resume [OF inv] show thesis using that by fastforce
  next
    case False
    with inv show thesis using that [of ?r] by (simp add: Sweep_def)
  qed
qed

end
