(* ===== verification/Reactor_Run.thy ===== *)
theory Reactor_Run
  imports Reactor_Inv
begin

text \<open>
  Runs of the reactor. \<open>serves c t seen r\<close>: the server started with configuration \<open>c\<close> has handled
  some rounds of events and is in state \<open>r\<close>; \<open>seen\<close> lists the frames that were the latest when the
  events were handled, in order. The properties of the transport are stated of such states.
\<close>

section \<open>Broadcasting\<close>

lemma Close_rejected: "Close t (r\<lparr>rejected := n\<rparr>) = (Close t r)\<lparr>rejected := n\<rparr>"
  by (simp add: Close_def find_session_def erase_session_def split: option.splits)

lemma broadcast_loop_inv:
  assumes "inv_with (\<lambda>t s. if t \<in> set toks then session_inv seen s else J s) r"
    and "distinct toks" "calls_ok e" "fr \<noteq> []"
    and idle: "\<And>s. session_inv seen s \<Longrightarrow> \<not> streaming s \<Longrightarrow> J s"
    and pushed: "\<And>s. session_inv (seen @ [fr]) s \<Longrightarrow> \<not> Empty (out_queue s) \<Longrightarrow> last (in_flight (out_queue s)) = fr \<Longrightarrow> J s"
  shows "\<exists>r'. broadcast_loop e fr toks r = Inr r' \<and> inv_with (\<lambda>_. J) r'"
  using assms(1,2)
proof (induction toks arbitrary: r)
  case Nil
  then show ?case by simp
next
  case (Cons tok toks)
  let ?I = "\<lambda>t s. if t \<in> set (tok # toks) then session_inv seen s else J s"
  let ?K = "\<lambda>t s. if t \<in> set toks then session_inv seen s else J s"
  have step: "u \<noteq> tok \<Longrightarrow> ?I u x \<Longrightarrow> ?K u x" for u x by simp
  have dist: "distinct toks" "tok \<notin> set toks" using Cons.prems(2) by simp_all
  show ?case
  proof (cases "find_session tok r")
    case None
    have "inv_with ?K r" by (rule inv_with_mono [OF Cons.prems(1)]) (use None in \<open>auto split: if_splits\<close>)
    with None Cons.IH dist show ?thesis by simp
  next
    case (Some s)
    note s = inv_withD [OF Cons.prems(1) Some]
    show ?thesis
    proof (cases "streaming s")
      case False
      have "inv_with ?K r"
        by (rule inv_with_mono [OF Cons.prems(1)]) (use Some False idle in \<open>auto split: if_splits\<close>)
      with Some False Cons.IH dist show ?thesis by simp
    next
      case True
      obtain ok s1 r1 where E: "Enqueue (now e) (Some fr) s r = (ok, s1, r1)" by (metis prod_cases3)
      have acc: "accounted s r s1 r1" using Enqueue_accounted [OF E s(2) assms(4) s(3,4)] .
      show ?thesis
      proof (cases ok)
        case ok: True
        have "?K tok s1" using Enqueue_stream [of "now e" fr s r s1 r1 seen] E ok s(1) True assms(4) pushed dist by simp
        then obtain r2 where "Modify e tok s1 (put_session tok s1 r1) = Inr r2" "inv_with ?K r2"
          by (rule inv_Modify [OF Cons.prems(1) Some acc assms(3)]) (simp_all add: that)
        with Cons.IH [of r2] dist Some True E ok show ?thesis by (simp add: Let_def)
      next
        case ok: False
        have "inv_with ?K (Close tok (put_session tok s1 r1))"
          using Cons.prems(1) Some acc step by (rule inv_Close)
        then have "inv_with ?K (Close tok ((put_session tok s1 r1)\<lparr>rejected := rejected r1 + 1\<rparr>))"
          by (simp add: Close_rejected)
        with Cons.IH dist Some True E ok show ?thesis by (simp add: Let_def)
      qed
    qed
  qed
qed

text \<open>Broadcasting leaves HTTP sessions alone, and drops nobody as long as a frame for each fits the budget.\<close>

lemma Enqueue_sessions: "Enqueue t b s r = (a, s', r') \<Longrightarrow> sessions r' = sessions r"
  by (auto simp: Enqueue_def Let_def case_prod_beta split: if_splits)

lemma Modify_sessions: "Modify e t s r = Inr r' \<Longrightarrow> sessions r' = sessions r"
  by (auto simp: Modify_def Check_def split: if_splits)

lemma Enqueue_fits:
  assumes "Bytes (out_queue s) \<le> queued_bytes r" "queued_bytes r + length b \<le> kQueueBudget"
  shows "\<exists>s' r'. Enqueue t (Some b) s r = (True, s', r') \<and> queued_bytes r' \<le> queued_bytes r + length b"
  using assms Bytes_Push_le [of b "out_queue s"] by (auto simp: Enqueue_def Let_def case_prod_beta)

lemma broadcast_loop_http:
  assumes "broadcast_loop e fr toks r = Inr r'" "find_session u r = Some x" "\<not> streaming x"
  shows "find_session u r' = Some x"
  using assms(1,2)
proof (induction toks arbitrary: r)
  case (Cons tok toks)
  show ?case
  proof (cases "\<exists>s. find_session tok r = Some s \<and> streaming s")
    case True
    then obtain s where s: "find_session tok r = Some s" "streaming s" by blast
    obtain ok s1 r1 where E: "Enqueue (now e) (Some fr) s r = (ok, s1, r1)" by (metis prod_cases3)
    have u: "u \<noteq> tok" using s Cons.prems(2) assms(3) by auto
    have p: "find_session u (put_session tok s1 r1) = Some x"
      using u Cons.prems(2) find_session_cong [OF Enqueue_sessions [OF E]] by (simp add: find_put_session)
    let ?p = "put_session tok s1 r1"
    have q: "find_session u (?p\<lparr>rejected := rejected ?p + 1\<rparr>) = Some x" using p by (simp add: find_session_def)
    obtain r2 where r2: "broadcast_loop e fr toks r2 = Inr r'" "find_session u r2 = Some x"
    proof (cases ok)
      case True
      then have "rbind (Modify e tok s1 ?p) (broadcast_loop e fr toks) = Inr r'"
        using Cons.prems(1) s E by (simp add: Let_def)
      then obtain r2 where m: "Modify e tok s1 ?p = Inr r2" "broadcast_loop e fr toks r2 = Inr r'"
        by (auto simp: rbind_Inr)
      show thesis using that [OF m(2)] find_session_cong [OF Modify_sessions [OF m(1)], of u] p by simp
    next
      case False
      then have "broadcast_loop e fr toks (Close tok (?p\<lparr>rejected := rejected ?p + 1\<rparr>)) = Inr r'"
        using Cons.prems(1) s E by (simp add: Let_def)
      then show thesis by (rule that) (use q u in \<open>simp add: find_Close\<close>)
    qed
    with Cons.IH show ?thesis by blast
  next
    case False
    then have "broadcast_loop e fr toks r = Inr r'" using Cons.prems(1) by (auto split: option.splits)
    with Cons.IH Cons.prems(2) show ?thesis by blast
  qed
qed simp

lemma broadcast_loop_keeps:
  assumes "broadcast_loop e fr toks r = Inr r'" "inv_with (\<lambda>_ _. True) r" "calls_ok e" "fr \<noteq> []"
    and "queued_bytes r + length toks * length fr \<le> kQueueBudget"
  shows "map fst (sessions r') = map fst (sessions r)"
  using assms(1,2,5)
proof (induction toks arbitrary: r)
  case (Cons tok toks)
  show ?case
  proof (cases "\<exists>s. find_session tok r = Some s \<and> streaming s")
    case True
    then obtain s where s: "find_session tok r = Some s" "streaming s" by blast
    note inv = inv_withD [OF Cons.prems(2) s(1)]
    obtain s1 r1 where E: "Enqueue (now e) (Some fr) s r = (True, s1, r1)" "queued_bytes r1 \<le> queued_bytes r + length fr"
      using Enqueue_fits [OF inv(3), of fr "now e"] Cons.prems(3) by auto
    obtain r2 where r2: "Modify e tok s1 (put_session tok s1 r1) = Inr r2" "inv_with (\<lambda>_ _. True) r2"
      "map fst (sessions r2) = map fst (sessions r)"
      by (rule inv_Modify [OF Cons.prems(2) s(1) Enqueue_accounted [OF E(1) inv(2) assms(4) inv(3,4)] assms(3), where J = "\<lambda>_ _. True"])
        (simp_all add: that)
    have "queued_bytes r2 = queued_bytes r1" using r2(1) by (auto simp: Modify_def Check_def split: if_splits)
    with Cons.IH [of r2] Cons.prems(1,3) s E r2 show ?thesis by (simp add: Let_def)
  next
    case False
    then have "broadcast_loop e fr toks r = Inr r'" using Cons.prems(1) by (auto split: option.splits)
    with Cons.IH Cons.prems(2,3) show ?thesis by simp
  qed
qed simp

lemma Broadcast_inv:
  assumes "reactor_inv seen r" "env_ok e"
  shows "\<exists>r'. Broadcast e r = Inr r' \<and> reactor_inv (seen @ seen_frames e) r'"
proof (cases "latest e")
  case None
  with assms show ?thesis by (simp add: Broadcast_def seen_frames_def)
next
  case (Some g)
  let ?sq = "sequence (telemetry (snapshot g))" and ?seen = "seen @ [frame g]"
  show ?thesis
  proof (cases "?sq = last_sequence r")
    case True
    with Some assms(1) reactor_inv_seen show ?thesis by (simp add: Broadcast_def seen_frames_def)
  next
    case False
    have "inv_with (\<lambda>t s. if t \<in> set (order e) then session_inv seen s else session_inv ?seen s) (r\<lparr>last_sequence := ?sq\<rparr>)"
      using assms(1) by (auto simp: reactor_inv_def session_inv_mono elim!: inv_with_mono)
    then have "\<exists>r'. broadcast_loop e (frame g) (order e) (r\<lparr>last_sequence := ?sq\<rparr>) = Inr r' \<and> inv_with (\<lambda>_. session_inv ?seen) r'"
      using assms(2) env_ok_frame [OF assms(2) Some]
      by (intro broadcast_loop_inv) (auto simp: env_ok_def session_inv_mono)
    with Some False show ?thesis by (simp add: Broadcast_def seen_frames_def reactor_inv_def)
  qed
qed

section \<open>Events and rounds\<close>

lemma handle_event_inv:
  assumes "reactor_inv seen r" "env_ok e"
  shows "\<exists>r'. handle_event e ev r = Inr r' \<and> reactor_inv (seen @ seen_frames e) r'"
proof -
  have inv: "reactor_inv (seen @ seen_frames e) r" using assms(1) by (rule reactor_inv_seen)
  have ok: "calls_ok e" using assms(2) by (simp add: env_ok_def)
  have 1: "\<not> listeners_paused r \<Longrightarrow> \<exists>r'. Accept e b r = Inr r' \<and> reactor_inv (seen @ seen_frames e) r'" for b
    using accept_loop_inv [OF inv assms(2)] by (simp add: Accept_def)
  have 2: "\<exists>r'. rbind (Sweep e r) (Broadcast e) = Inr r' \<and> reactor_inv (seen @ seen_frames e) r'"
  proof -
    obtain r1 where "Sweep e r = Inr r1" "reactor_inv seen r1"
      using Sweep_spec [of "\<lambda>_. session_inv seen" r e] assms(1) ok by (auto simp: reactor_inv_def)
    with Broadcast_inv assms(2) show ?thesis by simp
  qed
  show ?thesis
    using 1 2 inv Broadcast_inv [OF assms] session_event_inv [OF inv ok] by (simp add: handle_event_def)
qed

abbreviation events_ok :: "(env \<times> event) list \<Rightarrow> bool" where
  "events_ok evs \<equiv> list_all (\<lambda>(e, ev). env_ok e) evs"

definition frames_seen :: "(env \<times> event) list \<Rightarrow> string list" where
  "frames_seen evs = concat (map (\<lambda>(e, ev). seen_frames e) evs)"

lemma handle_all_inv:
  assumes "reactor_inv seen r" "events_ok evs"
  shows "\<exists>r'. handle_all evs r = Inr r' \<and> reactor_inv (seen @ frames_seen evs) r'"
  using assms
proof (induction evs arbitrary: seen r)
  case Nil
  then show ?case by (simp add: frames_seen_def)
next
  case (Cons p evs)
  obtain e ev where p: "p = (e, ev)" by fastforce
  obtain r1 where "handle_event e ev r = Inr r1" "reactor_inv (seen @ seen_frames e) r1"
    using handle_event_inv [OF Cons.prems(1)] Cons.prems(2) p by auto
  with Cons.IH [of "seen @ seen_frames e" r1] Cons.prems(2) p show ?case by (simp add: frames_seen_def)
qed

lemma init_inv: "reactor_inv [] (init_reactor c t)"
  by (simp add: reactor_inv_def inv_with_def tokens_ok_def interest_ok_def init_reactor_def find_session_def
      total_queued_def kHttp_def kStream_def kSignal_def kNotification_def kTimer_def)

inductive serves :: "ServerConfig \<Rightarrow> int \<Rightarrow> string list \<Rightarrow> Reactor \<Rightarrow> bool" for c :: ServerConfig and t :: int where
  start: "serves c t [] (init_reactor c t)"
| round: "serves c t seen r \<Longrightarrow> events_ok evs \<Longrightarrow> run_round evs r = Inr (False, r') \<Longrightarrow>
    serves c t (seen @ frames_seen evs) r'"

inductive_cases servesE: "serves c t seen r"

lemma run_round_cases:
  assumes "reactor_inv seen r" "events_ok evs"
  obtains (stop) r' where "run_round evs r = Inr (True, r')" "sessions r' = []" "queued_bytes r' = 0"
  | (next_round) r' where "run_round evs r = Inr (False, r')" "reactor_inv (seen @ frames_seen evs) r'"
proof (cases "list_ex (\<lambda>(e, ev). token ev = kSignal) evs")
  case True
  then show thesis
    using stop [of "r\<lparr>sessions := [], queued_bytes := 0, interest := interest r |` {..<16}\<rparr>"] by (simp add: run_round_def)
next
  case False
  with handle_all_inv [OF assms] show thesis by (auto simp: run_round_def intro!: next_round)
qed

lemma serves_inv: "serves c t seen r \<Longrightarrow> reactor_inv seen r"
proof (induction rule: serves.induct)
  case start
  show ?case by (rule init_inv)
next
  case (round seen r evs r')
  from round.IH round.hyps(2) show ?case
    by (cases rule: run_round_cases) (use round.hyps(3) in auto)
qed

section \<open>The configuration is fixed\<close>

lemma config_Enqueue: "Enqueue t b s r = (ok, s', r') \<Longrightarrow> config r' = config r"
  by (auto simp: Enqueue_def Let_def case_prod_beta split: if_splits)

lemma config_read_loop: "read_loop n e as s r = Inr (ok, s', r') \<Longrightarrow> config r' = config r"
  by (induction n e as s r rule: read_loop.induct)
    (auto simp: Let_def rbind_Inr dest: config_Enqueue split: if_splits)

lemma config_write_loop: "write_loop b e as s r = Inr (ok, s', r') \<Longrightarrow> config r' = config r"
  by (induction b e as s r rule: write_loop.induct)
    (auto simp: Let_def rbind_Inr split: if_splits send_answer.splits)

lemma config_Register: "Register e t m r = Inr r' \<Longrightarrow> config r' = config r"
  by (auto simp: Register_def rbind_Inr)

lemma config_Modify: "Modify e t s r = Inr r' \<Longrightarrow> config r' = config r"
  by (auto simp: Modify_def rbind_Inr)

lemma config_greet: "greet e b s r = (ok, s', r') \<Longrightarrow> config r' = config r"
  by (auto simp: greet_def dest: config_Enqueue split: option.splits if_splits)

lemma config_accept_one: "accept_one e b r = Inr r' \<Longrightarrow> config r' = config r"
  by (auto simp: accept_one_def Let_def rbind_Inr dest!: config_greet config_Register split: if_splits prod.splits)

lemma config_accept_loop: "accept_loop n e b as r = Inr r' \<Longrightarrow> config r' = config r"
  by (induction n e b as r rule: accept_loop.induct)
    (auto simp: Let_def rbind_Inr dest: config_accept_one split: if_splits)

lemma config_broadcast_loop: "broadcast_loop e fr toks r = Inr r' \<Longrightarrow> config r' = config r"
  by (induction toks arbitrary: r)
    (fastforce simp: Let_def rbind_Inr dest!: config_Enqueue config_Modify split: if_splits option.splits prod.splits)+

lemma config_Broadcast: "Broadcast e r = Inr r' \<Longrightarrow> config r' = config r"
  by (auto simp: Broadcast_def Let_def dest: config_broadcast_loop split: option.splits if_splits)

lemma config_Sweep: "Sweep e r = Inr r' \<Longrightarrow> config r' = config r"
  by (auto simp: Sweep_def Let_def rbind_Inr dest!: config_Register split: if_splits)

lemma config_session_event: "session_event e ev r = Inr r' \<Longrightarrow> config r' = config r"
  by (auto simp: session_event_def Let_def rbind_Inr Read_def Write_def
      dest!: config_read_loop config_write_loop config_Modify split: if_splits option.splits)

lemma config_handle_all: "handle_all evs r = Inr r' \<Longrightarrow> config r' = config r"
  by (induction evs r rule: handle_all.induct)
    (auto simp: rbind_Inr handle_event_def Accept_def
      dest!: config_accept_loop config_Broadcast config_Sweep config_session_event split: if_splits)

lemma serves_config: "serves c t seen r \<Longrightarrow> config r = c"
  by (induction rule: serves.induct)
    (auto simp: init_reactor_def run_round_def rbind_Inr dest!: config_handle_all split: if_splits)

section \<open>Draining\<close>

definition backlog :: "OutputQueue \<Rightarrow> string" where
  "backlog q = Front q @ (case pending q of None \<Rightarrow> [] | Some b \<Rightarrow> b)"

lemma length_backlog: "length (backlog q) = Bytes q"
  by (auto simp: backlog_def Front_def Bytes_def split: option.splits)

lemma backlog_Consume: "queue_inv q \<Longrightarrow> Consume n q = Inr q' \<Longrightarrow> backlog q = take n (Front q) @ backlog q'"
  by (auto simp: backlog_def Front_def Consume_def queue_inv_def split: option.splits if_splits)
    (metis append_take_drop_id drop_drop add.commute)+

lemma in_flight_Consume:
  assumes "queue_inv q" "Consume n q = Inr q'" "0 < n"
  shows "n = length (Front q) \<Longrightarrow> length (in_flight q) = Suc (length (in_flight q'))"
    and "n \<noteq> length (Front q) \<Longrightarrow> length (in_flight q') = length (in_flight q)"
  using assms by (auto simp: in_flight_def Front_def Consume_def queue_inv_def split: option.splits if_splits)

lemma write_loop_0: "write_loop 0 e as s r = Inr (streaming s \<or> \<not> Empty (out_queue s), s, r)"
  by (cases as) auto

lemma write_loop_drains:
  assumes "queue_inv (out_queue s)" "\<forall>a \<in> set as. a = Room k" "b \<le> k" "length (in_flight (out_queue s)) \<le> length as"
  shows "\<exists>ok s' r'. write_loop b e as s r = Inr (ok, s', r') \<and> wire s' = wire s @ take b (backlog (out_queue s)) \<and>
           Bytes (out_queue s') = Bytes (out_queue s) - b \<and> (ok \<longleftrightarrow> streaming s \<or> b < Bytes (out_queue s))"
  using assms
proof (induction as arbitrary: b s r)
  case Nil
  then have "Empty (out_queue s)" by (auto simp: in_flight_def Empty_def split: option.splits)
  moreover have "Bytes (out_queue s) = 0" using Bytes_eq_0 Nil.prems(1) calculation by simp
  moreover have "backlog (out_queue s) = []" using calculation(2) length_backlog [of "out_queue s"] by simp
  ultimately show ?case by auto
next
  case (Cons a as)
  let ?q = "out_queue s"
  show ?case
  proof (cases "b = 0 \<or> Empty ?q")
    case True
    then have "take b (backlog ?q) = []" "Bytes ?q - b = Bytes ?q" "b < Bytes ?q \<longleftrightarrow> \<not> Empty ?q"
      using Bytes_eq_0 [OF Cons.prems(1)] length_backlog [of ?q] by auto
    with True show ?thesis by auto
  next
    case False
    define n where "n = min k (min (length (Front ?q)) b)"
    have n: "n = min (length (Front ?q)) b" using Cons.prems(3) by (simp add: n_def)
    have bytes: "0 < Bytes ?q" using False Bytes_eq_0 [OF Cons.prems(1)] by simp
    then have "0 < n" using False lq.front_pos [OF Cons.prems(1)] by (simp add: n)
    moreover have "n \<le> length (Front ?q)" by (simp add: n)
    ultimately obtain q where q: "Consume n ?q = Inr q" "queue_inv q" "Bytes q + n = Bytes ?q"
      using lq.send_progress [OF Cons.prems(1) bytes] by blast
    let ?s = "sent n (now e) q s"
    let ?r = "r\<lparr>queued_bytes := queued_bytes r - n, bytes_sent := bytes_sent r + of_nat n\<rparr>"
    have eq: "write_loop b e (a # as) s r = write_loop (b - n) e as ?s ?r"
      using write_loop_send [OF False n_def [symmetric] _ q(1)] \<open>0 < n\<close> Cons.prems(2) by simp
    have rest: "backlog ?q = take n (Front ?q) @ backlog q" using backlog_Consume [OF Cons.prems(1) q(1)] .
    have front: "take b (backlog ?q) = take n (Front ?q) @ take (b - n) (backlog q)"
      by (simp add: rest n)
    show ?thesis
    proof (cases "n = b")
      case True
      then have "Empty q \<longleftrightarrow> \<not> b < Bytes ?q" using q Bytes_eq_0 [OF q(2)] by auto
      with True front q(3) show ?thesis unfolding eq by (auto simp: write_loop_0 sent_def)
    next
      case False
      then have "length (in_flight q) \<le> length as"
        using in_flight_Consume(1) [OF Cons.prems(1) q(1) \<open>0 < n\<close>] Cons.prems(4) by (simp add: n)
      moreover have "n \<le> b" by (simp add: n)
      then have "Bytes q - (b - n) = Bytes ?q - b" "b - n < Bytes q \<longleftrightarrow> b < Bytes ?q" "b - n \<le> k"
        using q(3) Cons.prems(3) by auto
      ultimately show ?thesis
        unfolding eq using Cons.IH [of ?s "b - n" ?r] Cons.prems(2) q(2) front by (auto simp: sent_def)
    qed
  qed
qed

section \<open>A concrete run\<close>

text \<open>A generation is published, and a stream client and an HTTP client connect.\<close>

definition sample_env :: "PublishedSnapshot \<Rightarrow> env" where
  "sample_env g = \<lparr>latest = Some g, now = 5, accepts = [Accept_ok], recvs = [], sends = [Room 65536, Room 65536],
     calls_ok = True, order = [16, 17], rusage = None, open_fds = None, lock_free = True\<rparr>"

definition ready :: "nat \<Rightarrow> event" where
  "ready tok = \<lparr>token = tok, ev_in = True, ev_out = False, ev_err = False, ev_hup = False\<rparr>"

definition sample_stream :: "PublishedSnapshot \<Rightarrow> Session" where
  "sample_stream g = (new_session True 5)\<lparr>out_queue := \<lparr>current = Some (frame g), pending = None, offset = 0\<rparr>\<rparr>"

definition sample_reactor :: "PublishedSnapshot \<Rightarrow> Reactor" where
  "sample_reactor g = (init_reactor default_config 0)\<lparr>sessions := [(16, sample_stream g), (17, new_session False 5)],
     next_token := 18, accepted := 2, queued_bytes := length (frame g),
     interest := (interest (init_reactor default_config 0))(16 \<mapsto> (False, True), 17 \<mapsto> (True, False))\<rparr>"

lemma Accept_single:
  assumes "accepts e = [Accept_ok]" shows "Accept e b r = accept_one e b r"
proof -
  have "accept_loop (Suc (Suc n)) e b [Accept_ok] r = accept_one e b r" for n
    by (cases "accept_one e b r") simp_all
  from this [of 30] show ?thesis by (simp add: Accept_def assms)
qed

lemma sample_round:
  assumes "length (frame g) \<le> 67108864"
  shows "run_round [(sample_env g, ready kStream), (sample_env g, ready kHttp)] (init_reactor default_config 0) = Inr (False, sample_reactor g)"
proof -
  let ?e = "sample_env g" and ?r0 = "init_reactor default_config 0"
  let ?r1 = "?r0\<lparr>sessions := [(16, sample_stream g)], next_token := 17, accepted := 1, queued_bytes := length (frame g),
     interest := (interest ?r0)(16 \<mapsto> (False, True))\<rparr>"
  note simps = accept_one_def sample_env_def init_reactor_def default_config_def greet_def new_session_def Check_def Register_def
    kHttp_def kStream_def kSignal_def kNotification_def kTimer_def sample_stream_def
  have "accept_one ?e True ?r0 = Inr ?r1"
    using assms by (simp add: simps Enqueue_def Push_def empty_queue_def Empty_def Bytes_def kQueueBudget_def)
  moreover have "accept_one ?e False ?r1 = Inr (sample_reactor g)"
    by (simp add: simps sample_reactor_def)
  moreover have "accepts ?e = [Accept_ok]" "\<not> listeners_paused ?r0" "\<not> listeners_paused ?r1"
    by (simp_all add: sample_env_def init_reactor_def)
  ultimately show ?thesis
    by (simp add: run_round_def handle_event_def ready_def kSignal_def kStream_def kHttp_def Accept_single)
qed

lemma sample_serves:
  assumes "generation_ok g" "length (frame g) \<le> 67108864"
  shows "serves default_config 0 [frame g, frame g] (sample_reactor g)"
proof -
  let ?evs = "[(sample_env g, ready kStream), (sample_env g, ready kHttp)]"
  have "events_ok ?evs" using assms(1) by (simp add: env_ok_def sample_env_def)
  then show ?thesis
    using serves.round [OF serves.start _ sample_round [OF assms(2)]]
    by (simp add: frames_seen_def seen_frames_def sample_env_def)
qed

lemma sample_generation: "\<exists>g. generation_ok g \<and> length (frame g) \<le> 67108864 \<and> snapshot g = sample_snapshot"
proof -
  obtain g where g: "generation_ok g" "length (json g) \<le> 2000" "snapshot g = sample_snapshot"
    using sample_published by blast
  then have "length (frame g) = 4 + length (json g)"
    by (auto simp: generation_ok_def Frame_Inr)
  with g show ?thesis by auto
qed

section \<open>Properties\<close>

lemma serves_session:
  assumes "serves c t seen r" "(tok, s) \<in> set (sessions r)"
  shows "find_session tok r = Some s" "session_inv seen s" "16 \<le> tok" "interest r tok = Some (mask s)"
proof -
  have inv: "inv_with (\<lambda>_. session_inv seen) r" using serves_inv [OF assms(1)] by (simp add: reactor_inv_def)
  then show f: "find_session tok r = Some s" using assms(2) by (simp add: inv_with_def tokens_ok_def find_session_def)
  show "session_inv seen s" using inv_withD(1) [OF inv f] .
  show "16 \<le> tok" using find_session_token [OF _ f] inv by (simp add: inv_with_def)
  with f inv show "interest r tok = Some (mask s)" by (simp add: inv_with_def interest_ok_def)
qed

text \<open>
  C11: whatever clients send and however sockets answer, as long as epoll and socket-option calls do
  not fail for reasons of their own, no round of the event loop throws: the queue is never
  over-consumed, no descriptor is added to the epoll set twice or modified while absent, and no
  response fails to serialize. The loop ends exactly when a signal is among the events.
\<close>

theorem reactor_never_throws:
  assumes "serves c t seen r" "events_ok evs"
  shows "\<exists>r'. run_round evs r = Inr (list_ex (\<lambda>(e, ev). token ev = kSignal) evs, r')"
  using handle_all_inv [OF serves_inv [OF assms(1)] assms(2)] by (auto simp: run_round_def)

theorem reactor_never_throws_witness:
  "\<exists>g r'. generation_ok g \<and> run_round [(sample_env g, ready kTimer)] (sample_reactor g) = Inr (False, r')"
proof -
  obtain g where g: "generation_ok g" "length (frame g) \<le> 67108864" using sample_generation by blast
  have "events_ok [(sample_env g, ready kTimer)]" using g by (simp add: env_ok_def sample_env_def)
  from reactor_never_throws [OF sample_serves [OF g] this] g(1) show ?thesis
    by (auto simp: ready_def kSignal_def kTimer_def)
qed

text \<open>
  C12: resource bounds of a running server. There are never more sessions than configured, the
  counter of queued bytes is the sum over the sessions' queues and stays within 64 MiB, and no
  session holds more than 8 KiB of an unanswered request.
\<close>

theorem reactor_bounded:
  assumes "serves c t seen r"
  shows "length (sessions r) \<le> max_clients c \<and>
    queued_bytes r = sum_list (map (\<lambda>(tok, s). Bytes (out_queue s)) (sessions r)) \<and>
    queued_bytes r \<le> 67108864 \<and> (\<forall>(tok, s) \<in> set (sessions r). length (request s) \<le> 8192)"
proof -
  have inv: "inv_with (\<lambda>_. session_inv seen) r" using serves_inv [OF assms] by (simp add: reactor_inv_def)
  have "length (request s) \<le> 8192" if "(tok, s) \<in> set (sessions r)" for tok s
    using serves_session(2) [OF assms that] by (auto simp: session_inv_def http_ok_def split: if_splits)
  with inv serves_config [OF assms] show ?thesis
    by (auto simp: inv_with_def total_queued_def kQueueBudget_def)
qed

theorem reactor_bounded_witness: "\<exists>g. generation_ok g \<and> queued_bytes (sample_reactor g) \<le> 67108864"
proof -
  obtain g where g: "generation_ok g" "length (frame g) \<le> 67108864" using sample_generation by blast
  from reactor_bounded [OF sample_serves [OF g]] g(1) show ?thesis by blast
qed

text \<open>
  C13: what a stream client has received at any moment is a sequence of whole frames, each of which
  was the latest generation when some event was handled, in that order, followed by a proper part of
  the frame in flight. Dropping snapshots for a slow client never tears or reorders frames.
\<close>

theorem stream_wire_whole_frames:
  assumes "serves c t seen r" "(tok, s) \<in> set (sessions r)" "streaming s"
  shows "\<exists>fs. wire s = concat fs @ sent_part (out_queue s) \<and> subseq (fs @ in_flight (out_queue s)) seen"
  using serves_session(2) [OF assms(1,2)] assms(3)
  by (auto simp: session_inv_def stream_ok_def delivered_def intro: subseq_order.trans)

theorem stream_wire_whole_frames_witness:
  "\<exists>g fs. generation_ok g \<and> wire (sample_stream g) = concat fs @ sent_part (out_queue (sample_stream g)) \<and>
     subseq (fs @ in_flight (out_queue (sample_stream g))) [frame g, frame g]"
proof -
  obtain g where g: "generation_ok g" "length (frame g) \<le> 67108864" using sample_generation by blast
  have "(16, sample_stream g) \<in> set (sessions (sample_reactor g))" "streaming (sample_stream g)"
    by (simp_all add: sample_reactor_def sample_stream_def new_session_def)
  from stream_wire_whole_frames [OF sample_serves [OF g] this] g(1) show ?thesis by blast
qed



text \<open>
  C15: the epoll set agrees with the sessions, so nobody is forgotten. Every session is registered,
  and no other token is; an HTTP session waits for exactly one of input and output; a stream session
  never waits for input and waits for output exactly when bytes are queued for it. The listeners
  are registered unless paused.
\<close>

theorem epoll_agrees:
  assumes "serves c t seen r"
  shows "(\<forall>(tok, s) \<in> set (sessions r).
      interest r tok = Some (\<not> streaming s \<and> Bytes (out_queue s) = 0, 0 < Bytes (out_queue s))) \<and>
    (\<forall>tok \<ge> 16. tok \<notin> fst ` set (sessions r) \<longrightarrow> interest r tok = None) \<and>
    (\<forall>l \<in> {kHttp, kStream}. interest r l = (if listeners_paused r then None else Some (True, False)))"
proof -
  have inv: "interest_ok r" using serves_inv [OF assms] by (simp add: reactor_inv_def inv_with_def)
  have "interest r tok = Some (\<not> streaming s \<and> Bytes (out_queue s) = 0, 0 < Bytes (out_queue s))"
    if "(tok, s) \<in> set (sessions r)" for tok s
    using serves_session [OF assms that] Bytes_eq_0 [of "out_queue s"]
    by (auto simp: mask_def session_inv_def http_ok_def split: if_splits)
  moreover have "interest r tok = None" if "16 \<le> tok" "tok \<notin> fst ` set (sessions r)" for tok
    using inv that by (simp add: interest_ok_def find_session_def map_of_eq_None_iff)
  ultimately show ?thesis using inv by (simp add: interest_ok_def Ball_def)
qed

theorem epoll_agrees_witness:
  "\<exists>g. generation_ok g \<and> interest (sample_reactor g) kHttp = Some (True, False) \<and> interest (sample_reactor g) 18 = None"
proof -
  obtain g where g: "generation_ok g" "length (frame g) \<le> 67108864" using sample_generation by blast
  have "\<not> listeners_paused (sample_reactor g)" "18 \<notin> fst ` set (sessions (sample_reactor g))"
    by (simp_all add: sample_reactor_def init_reactor_def)
  with epoll_agrees [OF sample_serves [OF g]] g(1) show ?thesis by auto
qed

text \<open>
  C16: a new generation reaches every stream session. After \<open>Broadcast\<close>, each remaining stream session
  has the new frame last in its queue and waits for output, and every HTTP session is as it was. If
  the queue budget has room for one more frame per session, nobody is disconnected.
\<close>

theorem broadcast_reaches_all:
  assumes "serves c t seen r" "env_ok e" "latest e = Some g" "sequence (telemetry (snapshot g)) \<noteq> last_sequence r"
    and "set (order e) = fst ` set (sessions r)"
  shows "\<exists>r'. Broadcast e r = Inr r' \<and>
    (\<forall>tok s. find_session tok r' = Some s \<and> streaming s \<longrightarrow>
       last (in_flight (out_queue s)) = frame g \<and> interest r' tok = Some (False, True)) \<and>
    (\<forall>tok s. find_session tok r = Some s \<and> \<not> streaming s \<longrightarrow> find_session tok r' = Some s) \<and>
    (queued_bytes r + length (sessions r) * length (frame g) \<le> kQueueBudget \<longrightarrow>
       map fst (sessions r') = map fst (sessions r))"
proof -
  let ?J = "\<lambda>s. session_inv (seen @ [frame g]) s \<and> (streaming s \<longrightarrow> \<not> Empty (out_queue s) \<and> last (in_flight (out_queue s)) = frame g)"
  let ?r = "r\<lparr>last_sequence := sequence (telemetry (snapshot g))\<rparr>"
  note e = assms(2) [unfolded env_ok_def] and fr = env_ok_frame [OF assms(2,3)]
  have inv: "inv_with (\<lambda>_. session_inv seen) ?r" using serves_inv [OF assms(1)] by (simp add: reactor_inv_def)
  have same: "find_session tok ?r = find_session tok r" for tok by (rule find_session_cong) simp
  have ord: "tok \<in> set (order e)" if "find_session tok ?r = Some s" for tok s
    using that assms(5) by (force simp: find_session_def dest: map_of_SomeD)
  have "inv_with (\<lambda>tok s. if tok \<in> set (order e) then session_inv seen s else ?J s) ?r"
    by (rule inv_with_mono [OF inv]) (simp add: ord)
  then obtain r' where r': "broadcast_loop e (frame g) (order e) ?r = Inr r'" "inv_with (\<lambda>_. ?J) r'"
    using broadcast_loop_inv [of "order e" seen ?J ?r e "frame g"] e fr by (auto simp: session_inv_mono)
  have "last (in_flight (out_queue s)) = frame g \<and> interest r' tok = Some (False, True)"
    if "find_session tok r' = Some s" "streaming s" for tok s
    using inv_withD(1) [OF r'(2) that(1)] r'(2) that find_session_token [OF _ that(1)]
    by (auto simp: inv_with_def interest_ok_def mask_def)
  moreover have "find_session tok r' = Some s" if "find_session tok r = Some s" "\<not> streaming s" for tok s
    using broadcast_loop_http [OF r'(1) _ that(2)] that(1) same by simp
  moreover have "map fst (sessions r') = map fst (sessions r)"
    if "queued_bytes r + length (sessions r) * length (frame g) \<le> kQueueBudget"
  proof -
    have "length (order e) = length (sessions r)"
      using distinct_card [of "order e"] distinct_card [of "map fst (sessions r)"] e inv assms(5)
      by (simp add: inv_with_def tokens_ok_def)
    with broadcast_loop_keeps [OF r'(1) inv_with_mono [OF inv]] e fr that show ?thesis by simp
  qed
  ultimately show ?thesis using r'(1) assms(3,4) by (auto simp: Broadcast_def)
qed

theorem broadcast_reaches_all_witness:
  "\<exists>g r' s. generation_ok g \<and> Broadcast (sample_env g) (sample_reactor g) = Inr r' \<and>
     map fst (sessions r') = [16, 17] \<and> find_session 17 r' = Some (new_session False 5) \<and>
     find_session 16 r' = Some s \<and> (streaming s \<longrightarrow> last (in_flight (out_queue s)) = frame g)"
proof -
  obtain g where g: "generation_ok g" "length (frame g) \<le> 67108864" "snapshot g = sample_snapshot"
    using sample_generation by blast
  let ?r = "sample_reactor g"
  have h: "env_ok (sample_env g)" "latest (sample_env g) = Some g" "set (order (sample_env g)) = fst ` set (sessions ?r)"
    "sequence (telemetry (snapshot g)) \<noteq> last_sequence ?r"
    using g by (auto simp: env_ok_def sample_env_def sample_reactor_def init_reactor_def sample_snapshot_def)
  have "length (frame g) \<le> 8388612" using g(1) by (auto simp: generation_ok_def Frame_Inr valid_payload_def kMaxPayload_def)
  then have fits: "queued_bytes ?r + length (sessions ?r) * length (frame g) \<le> kQueueBudget"
    by (simp add: sample_reactor_def kQueueBudget_def)
  have http: "find_session 17 ?r = Some (new_session False 5)" "\<not> streaming (new_session False 5)"
    by (simp_all add: sample_reactor_def find_session_def new_session_def)
  have toks: "map fst (sessions ?r) = [16, 17]" by (simp add: sample_reactor_def)
  obtain r' where r': "Broadcast (sample_env g) ?r = Inr r'" "map fst (sessions r') = [16, 17]"
    "find_session 17 r' = Some (new_session False 5)"
    "\<forall>s. find_session 16 r' = Some s \<and> streaming s \<longrightarrow> last (in_flight (out_queue s)) = frame g"
    using broadcast_reaches_all [OF sample_serves [OF g(1,2)] h(1,2,4,3)] fits http toks
    by (metis (no_types))
  have "16 \<in> fst ` set (sessions r')" using arg_cong [OF r'(2), of set] by simp
  then obtain s where "find_session 16 r' = Some s" by (force simp: find_session_def dest: weak_map_of_SomeI)
  with r' g(1) show ?thesis by (intro exI [of _ g] exI [of _ r'] exI [of _ s]) simp
qed

text \<open>
  C17: deadlines. \<open>Sweep\<close> closes exactly the sessions whose deadline has passed: HTTP sessions that have
  not completed a request in time, and sessions with queued bytes that made no progress. It leaves
  the others as they are and resumes paused listeners.
\<close>

theorem sweep_exact:
  assumes "serves c t seen r" "env_ok e" "set (order e) = fst ` set (sessions r)"
  shows "\<exists>r'. Sweep e r = Inr r' \<and> \<not> listeners_paused r' \<and> (\<forall>tok. find_session tok r' =
    (case find_session tok r of None \<Rightarrow> None | Some s \<Rightarrow>
       if \<not> streaming s \<and> \<not> responding s \<and> now e - accepted_at s > int (request_timeout c) * 1000000 \<or>
          0 < Bytes (out_queue s) \<and> now e - last_progress s > int (write_timeout c) * 1000000
       then None else Some s))"
proof -
  have inv: "inv_with (\<lambda>_. session_inv seen) r" using serves_inv [OF assms(1)] by (simp add: reactor_inv_def)
  obtain r' where r': "Sweep e r = Inr r'" "\<not> listeners_paused r'" "sessions r' = sessions (sweep_loop e (order e) r)"
    using Sweep_spec [OF inv] assms(2) by (auto simp: env_ok_def)
  have "tok \<in> set (order e)" "0 < Bytes (out_queue s) \<longleftrightarrow> \<not> Empty (out_queue s)" if "find_session tok r = Some s" for tok s
    using that assms(3) inv_withD(2) [OF inv that] Bytes_eq_0
    by (force simp: find_session_def dest: map_of_SomeD)+
  then have "find_session tok r' = (case find_session tok r of None \<Rightarrow> None | Some s \<Rightarrow>
       if \<not> streaming s \<and> \<not> responding s \<and> now e - accepted_at s > int (request_timeout c) * 1000000 \<or>
          0 < Bytes (out_queue s) \<and> now e - last_progress s > int (write_timeout c) * 1000000
       then None else Some s)" for tok
    using find_session_cong [OF r'(3)] serves_config [OF assms(1)]
    by (auto simp: find_sweep_loop expired_def split: option.splits)
  with r'(1,2) show ?thesis by blast
qed

theorem sweep_exact_witness:
  "\<exists>g r'. generation_ok g \<and> Sweep (sample_env g) (sample_reactor g) = Inr r' \<and> find_session 18 r' = None"
proof -
  obtain g where g: "generation_ok g" "length (frame g) \<le> 67108864" using sample_generation by blast
  have "env_ok (sample_env g)" "set (order (sample_env g)) = fst ` set (sessions (sample_reactor g))"
    "find_session 18 (sample_reactor g) = None"
    using g by (auto simp: env_ok_def sample_env_def sample_reactor_def find_session_def)
  with sweep_exact [OF sample_serves [OF g], of "sample_env g"] g(1) show ?thesis by fastforce
qed

text \<open>
  C18: progress. When a socket has room, one writable event sends what is queued for the session, up
  to the budget of 64 KiB per event: as many bytes leave the queue, in order, and an HTTP session
  whose response is complete is closed.
\<close>

theorem write_progress:
  assumes "serves c t seen r" "(tok, s) \<in> set (sessions r)" "sends e = [Room 65536, Room 65536]"
  shows "\<exists>s' r'. Write e s r = Inr (streaming s \<or> 65536 < Bytes (out_queue s), s', r') \<and>
    wire s' = wire s @ take 65536 (backlog (out_queue s)) \<and> Bytes (out_queue s') = Bytes (out_queue s) - 65536"
proof -
  have "length (in_flight (out_queue s)) \<le> 2" by (simp add: in_flight_def split: option.splits)
  then show ?thesis
    using write_loop_drains [OF session_inv_queue [OF serves_session(2) [OF assms(1,2)]], of "sends e" 65536 65536 e r] assms(3)
    by (auto simp: Write_def kWriteBudget_def)
qed

theorem write_progress_witness:
  "\<exists>g s' r'. generation_ok g \<and> Write (sample_env g) (sample_stream g) (sample_reactor g) = Inr (True, s', r') \<and>
     wire s' = take 65536 (frame g)"
proof -
  obtain g where g: "generation_ok g" "length (frame g) \<le> 67108864" using sample_generation by blast
  have "(16, sample_stream g) \<in> set (sessions (sample_reactor g))" "sends (sample_env g) = [Room 65536, Room 65536]"
    "streaming (sample_stream g)" "wire (sample_stream g) = []" "backlog (out_queue (sample_stream g)) = frame g"
    by (simp_all add: sample_reactor_def sample_stream_def new_session_def sample_env_def backlog_def Front_def)
  with write_progress [OF sample_serves [OF g], of 16 "sample_stream g" "sample_env g"] g(1) show ?thesis by auto
qed

end
