(* ===== verification/Double_Facts.thy ===== *)
theory Double_Facts
  imports Protocol
begin

text \<open>
  The floating-point facts behind the percentages and rates: sums, differences and products of
  integers below \<open>2 ^ 53\<close> are exact, a quotient is rounded once, and rounding keeps a percentage
  between 0 and 100.
\<close>

lemma round_mag_nat: "n < 2 ^ 53 \<Longrightarrow> round_mag (of_nat n) = of_nat n"
  by (simp add: round_mag_representable representable_of_nat)

lemma to_double_nat: "n < 2 ^ 53 \<Longrightarrow> to_double s (of_nat n) = Finite s (of_nat n)"
proof -
  assume n: "n < 2 ^ 53"
  then have "(of_nat n :: rat) < 2 ^ 1024" using representable_of_nat [OF n] by (simp add: representable_def)
  with n show ?thesis by (simp add: to_double_def round_mag_nat)
qed

lemma of_nat_double_exact: "n < 2 ^ 53 \<Longrightarrow> of_nat_double n = Finite False (of_nat n)"
  by (simp add: of_nat_double_def to_double_nat)

lemma dadd_nat:
  assumes "a + b < 2 ^ 53"
  shows "dadd (Finite False (of_nat a)) (Finite False (of_nat b)) = Finite False (of_nat (a + b))"
proof -
  have "to_double False (of_nat (a + b)) = Finite False (of_nat (a + b))" using assms by (rule to_double_nat)
  then show ?thesis by (auto simp: of_signed_def Let_def not_less add_nonneg_eq_0_iff)
qed

lemma dsub_nat:
  assumes "b \<le> a" "a < 2 ^ 53"
  shows "dsub (Finite False (of_nat a)) (Finite False (of_nat b)) = Finite False (of_nat (a - b))"
proof -
  obtain d where d: "a = b + d" using assms(1) le_Suc_ex by blast
  have "to_double False (of_nat d) = Finite False (of_nat d)" using assms(2) d by (intro to_double_nat) simp
  then show ?thesis by (simp add: d dsub_def of_signed_def Let_def)
qed

lemma dmul_hundred: "100 * n < 2 ^ 53 \<Longrightarrow> dmul hundred (Finite False (of_nat n)) = Finite False (of_nat (100 * n))"
  using to_double_nat [of "100 * n" False] by (simp add: hundred_def)

lemma round_mag_le_nat: "0 \<le> q \<Longrightarrow> q \<le> of_nat n \<Longrightarrow> n < 2 ^ 53 \<Longrightarrow> round_mag q \<le> of_nat n"
  using round_mag_mono [of q "of_nat n"] by (simp add: round_mag_nat)

lemma percent_quotient:
  assumes "a \<le> b" "0 < b"
  shows "percent_valid (to_double False (100 * of_nat a / of_nat b))"
proof -
  let ?q = "100 * of_nat a / of_nat b :: rat"
  have "0 \<le> ?q" "?q \<le> of_nat 100" using assms by (simp_all add: divide_simps)
  then have r: "0 \<le> round_mag ?q" "round_mag ?q \<le> 100"
    using round_mag_nonneg [of ?q] round_mag_le_nat [of ?q 100] by simp_all
  have "(100 :: rat) < 2 ^ 1024" by simp
  then have "\<not> 2 ^ 1024 \<le> round_mag ?q" using r(2) by linarith
  with r show ?thesis by (simp add: percent_valid_def percent_in_range_def to_double_def hundred_def)
qed

text \<open>\<open>100.0 * used / total\<close>, as the code computes it.\<close>

definition percent_of :: "nat \<Rightarrow> nat \<Rightarrow> double" where
  "percent_of used whole = ddiv (dmul hundred (of_nat_double used)) (of_nat_double whole)"

lemma percent_of_exact:
  assumes "used \<le> whole" "0 < whole" "whole < 2 ^ 46"
  shows "percent_of used whole = to_double False (100 * of_nat used / of_nat whole)"
  using assms by (simp add: percent_of_def of_nat_double_exact dmul_hundred)

lemma percent_of_valid: "used \<le> whole \<Longrightarrow> 0 < whole \<Longrightarrow> whole < 2 ^ 46 \<Longrightarrow> percent_valid (percent_of used whole)"
  by (simp add: percent_of_exact percent_quotient)

text \<open>A quotient of nonnegative finite doubles is nonnegative, and finite if it is small enough.\<close>

lemma rate_valid_to_double: "0 \<le> q \<Longrightarrow> q \<le> 2 ^ 1000 \<Longrightarrow> rate_valid (to_double False q)"
proof -
  assume q: "0 \<le> q" "q \<le> 2 ^ 1000"
  have rep: "representable (2 ^ 1000)"
    unfolding representable_def by (intro conjI exI [of _ 1] exI [of _ 1000]) (simp_all add: power_strict_increasing)
  have "round_mag q \<le> 2 ^ 1000" using round_mag_mono [OF q] round_mag_representable [OF rep] by simp
  also have "(2 ^ 1000 :: rat) < 2 ^ 1024" by (rule power_strict_increasing) simp_all
  finally show ?thesis using round_mag_nonneg [OF q(1)] by (simp add: rate_valid_def to_double_def)
qed

end
