(* ===== verification/Linux_Samples.thy ===== *)
theory Linux_Samples
  imports Double_Facts Text_Scan
begin

text \<open>
  Parsing and counter arithmetic of \<^verbatim>\<open>server/collectors/linux_samples.cpp\<close>. A \<^verbatim>\<open>string_view\<close> that a
  function advances is an argument and the second component of its result.
\<close>

section \<open>Cutting text\<close>

definition Parse_u64 :: "string \<Rightarrow> u64 option" where
  "Parse_u64 s = map_option of_nat (parsed_whole (from_chars_unsigned (2 ^ 64) s))"

definition Parse_u32 :: "string \<Rightarrow> u32 option" where
  "Parse_u32 s = map_option of_nat (parsed_whole (from_chars_unsigned (2 ^ 32) s))"

definition Parse_int :: "string \<Rightarrow> int option" where
  "Parse_int s = parsed_whole (from_chars_signed (2 ^ 31) s)"

definition Parse_i64 :: "string \<Rightarrow> int option" where
  "Parse_i64 s = parsed_whole (from_chars_signed (2 ^ 63) s)"

definition Parse_double :: "string \<Rightarrow> double option" where
  "Parse_double s = parsed_whole (from_chars_double s)"

definition strip_cr :: "string \<Rightarrow> string" where
  "strip_cr line = (if line \<noteq> [] \<and> last line = CHR 0x0D then butlast line else line)"

definition NextLine :: "string \<Rightarrow> string \<times> string" where
  "NextLine s =
     (let line = takeWhile (\<lambda>c. c \<noteq> CHR 0x0A) s
      in (strip_cr line, drop (Suc (length line)) s))"

definition blank :: "char \<Rightarrow> bool" where
  "blank c \<longleftrightarrow> c = CHR 0x20 \<or> c = CHR 0x09"

definition token_end :: "char \<Rightarrow> bool" where
  "token_end c \<longleftrightarrow> c = CHR 0x20 \<or> c = CHR 0x09 \<or> c = CHR 0x0D \<or> c = CHR 0x0A"

definition NextToken :: "string \<Rightarrow> string \<times> string" where
  "NextToken s =
     (let t = dropWhile blank s
      in (takeWhile (\<lambda>c. \<not> token_end c) t, dropWhile (\<lambda>c. \<not> token_end c) t))"

lemma NextLine_shrinks: "s \<noteq> [] \<Longrightarrow> length (snd (NextLine s)) < length s"
  by (cases s) (auto simp: NextLine_def Let_def)

lemma NextToken_shrinks: "fst (NextToken s) \<noteq> [] \<Longrightarrow> length (snd (NextToken s)) < length s"
proof -
  let ?t = "dropWhile blank s"
  assume "fst (NextToken s) \<noteq> []"
  then have "takeWhile (\<lambda>c. \<not> token_end c) ?t \<noteq> []" by (simp add: NextToken_def Let_def)
  moreover have "length (takeWhile (\<lambda>c. \<not> token_end c) ?t) + length (dropWhile (\<lambda>c. \<not> token_end c) ?t) = length ?t"
    by (metis length_append takeWhile_dropWhile_id)
  ultimately show ?thesis
    using length_dropWhile_le [of blank s] by (simp add: NextToken_def Let_def) (metis length_greater_0_conv less_add_same_cancel2 order_less_le_trans)
qed

section \<open>Ordered maps\<close>

text \<open>\<^verbatim>\<open>std::map\<close>: an association list in key order. \<open>emplace\<close> keeps an existing entry, \<open>assign\<close>
  (\<^verbatim>\<open>operator[]\<close> and an assignment) replaces it.\<close>

fun map_emplace :: "'k::linorder \<Rightarrow> 'v \<Rightarrow> ('k \<times> 'v) list \<Rightarrow> ('k \<times> 'v) list" where
  "map_emplace k v [] = [(k, v)]"
| "map_emplace k v ((l, w) # m) =
     (if k < l then (k, v) # (l, w) # m else if k = l then (l, w) # m else (l, w) # map_emplace k v m)"

fun map_assign :: "'k::linorder \<Rightarrow> 'v \<Rightarrow> ('k \<times> 'v) list \<Rightarrow> ('k \<times> 'v) list" where
  "map_assign k v [] = [(k, v)]"
| "map_assign k v ((l, w) # m) =
     (if k < l then (k, v) # (l, w) # m else if k = l then (k, v) # m else (l, w) # map_assign k v m)"

section \<open>\<open>/proc/stat\<close>\<close>

type_synonym CpuTimes = "u64 list" \<comment> \<open>eight counters\<close>
type_synonym CpuSample = "(int \<times> CpuTimes) list"

text \<open>The first \<open>n\<close> fields as numbers, if all are.\<close>

fun cpu_fields :: "nat \<Rightarrow> string \<Rightarrow> u64 list option" where
  "cpu_fields 0 line = Some []"
| "cpu_fields (Suc n) line =
     (let (field, rs) = NextToken line
      in if field = [] then None
         else case Parse_u64 field of
             None \<Rightarrow> None
           | Some v \<Rightarrow> map_option ((#) v) (cpu_fields n rs))"

definition cpu_id :: "string \<Rightarrow> int option" where
  "cpu_id label =
     (if take 3 label \<noteq> ''cpu'' then None
      else if label = ''cpu'' then Some (- 1)
      else case Parse_int (drop 3 label) of None \<Rightarrow> None | Some i \<Rightarrow> if i < 0 then None else Some i)"

definition cpu_line :: "string \<Rightarrow> CpuSample \<Rightarrow> CpuSample" where
  "cpu_line line m =
     (let (label, rs) = NextToken line
      in case cpu_id label of
           None \<Rightarrow> m
         | Some i \<Rightarrow> (case cpu_fields 8 rs of None \<Rightarrow> m | Some ts \<Rightarrow> map_emplace i ts m))"

function cpu_lines :: "string \<Rightarrow> CpuSample \<Rightarrow> CpuSample" where
  "cpu_lines s m = (if s = [] then m else cpu_lines (snd (NextLine s)) (cpu_line (fst (NextLine s)) m))"
  by pat_completeness auto
termination
  by (relation "measure (length \<circ> fst)") (simp_all add: NextLine_shrinks)

declare cpu_lines.simps [simp del]

definition ParseCpu :: "string \<Rightarrow> CpuSample" where
  "ParseCpu s = cpu_lines s []"

section \<open>Counter arithmetic\<close>

text \<open>The loop of \<open>CpuUsage\<close>, from index \<open>i\<close> on: the sums of all and of idle differences.\<close>

fun usage_sums :: "nat \<Rightarrow> (u64 \<times> u64) list \<Rightarrow> double \<Rightarrow> double \<Rightarrow> (double \<times> double) option" where
  "usage_sums i [] total_d idle = Some (total_d, idle)"
| "usage_sums i ((n, p) # ps) total_d idle =
     (if n < p then None
      else let delta = of_nat_double (unat (n - p))
           in usage_sums (Suc i) ps (dadd total_d delta) (if i = 3 \<or> i = 4 then dadd idle delta else idle))"

definition CpuUsage :: "CpuTimes \<Rightarrow> CpuTimes \<Rightarrow> double option" where
  "CpuUsage ts previous =
     (case usage_sums 0 (zip ts previous) dzero dzero of
        None \<Rightarrow> None
      | Some (total_d, idle) \<Rightarrow>
          if dle total_d dzero then None
          else Some (ddiv (dmul hundred (dsub total_d idle)) total_d))"

definition CounterRate :: "u64 \<Rightarrow> u64 \<Rightarrow> double \<Rightarrow> double option" where
  "CounterRate n previous seconds =
     (if n < previous \<or> dle seconds dzero \<or> \<not> isfinite seconds then None
      else Some (ddiv (of_nat_double (unat (n - previous))) seconds))"

section \<open>\<open>/proc/<pid>/stat\<close>\<close>

record ProcessSample =
  ps_pid :: int
  ps_name :: string
  ps_state :: char
  ps_ticks :: u64
  ps_starttime :: u64
  ps_rss_pages :: u64
  ps_threads :: u32

fun next_fields :: "nat \<Rightarrow> string \<Rightarrow> string list option" where
  "next_fields 0 s = Some []"
| "next_fields (Suc n) s =
     (let (field, rs) = NextToken s in if field = [] then None else map_option ((#) field) (next_fields n rs))"

definition find_last :: "char \<Rightarrow> string \<Rightarrow> nat option" where
  "find_last c s = (if c \<in> set s then Some (length s - Suc (length (takeWhile (\<lambda>x. x \<noteq> c) (rev s)))) else None)"

definition trim_spaces :: "string \<Rightarrow> string" where
  "trim_spaces s = rev (dropWhile (\<lambda>c. c = CHR 0x20) (rev s))"

definition process_fields :: "int \<Rightarrow> string \<Rightarrow> string list \<Rightarrow> ProcessSample option" where
  "process_fields i name fs =
     (case (Parse_u64 (fs ! 11), Parse_u64 (fs ! 12), Parse_u32 (fs ! 17), Parse_u64 (fs ! 19), Parse_i64 (fs ! 21)) of
        (Some user, Some sys, Some threads, Some start, Some rss) \<Rightarrow>
          if length (fs ! 0) \<noteq> 1 \<or> user > (- 1) - sys then None
          else Some \<lparr>ps_pid = i, ps_name = name, ps_state = hd (fs ! 0), ps_ticks = user + sys, ps_starttime = start,
            ps_rss_pages = (if rss > 0 then of_int rss else 0), ps_threads = threads\<rparr>
      | _ \<Rightarrow> None)"

definition ParseProcess :: "string \<Rightarrow> ProcessSample option" where
  "ParseProcess s =
     (case (find_sub [CHR 0x28] s, find_last (CHR 0x29) s) of
        (Some open_at, Some close_at) \<Rightarrow>
          if close_at \<le> open_at \<or> open_at < 2 then None
          else (case Parse_int (trim_spaces (take open_at s)) of
                  None \<Rightarrow> None
                | Some i \<Rightarrow>
                    if i \<le> 0 then None
                    else case next_fields 22 (drop (Suc close_at) s) of
                        None \<Rightarrow> None
                      | Some fs \<Rightarrow> process_fields i (take (close_at - open_at - 1) (drop (Suc open_at) s)) fs)
      | _ \<Rightarrow> None)"

section \<open>Pressure\<close>

definition pressure_token :: "string \<Rightarrow> string \<Rightarrow> PressureMetrics \<Rightarrow> PressureMetrics" where
  "pressure_token type tok m =
     (case find_sub ''='' tok of
        None \<Rightarrow> m
      | Some i \<Rightarrow>
          (case Parse_double (drop (Suc i) tok) of
             None \<Rightarrow> m
           | Some n \<Rightarrow>
               if \<not> isfinite n \<or> dless n dzero \<or> dless hundred n then m
               else let key = take i tok
                    in if type = ''some'' \<and> key = ''avg10'' then m\<lparr>some_avg10 := Some n\<rparr>
                       else if type = ''some'' \<and> key = ''avg60'' then m\<lparr>some_avg60 := Some n\<rparr>
                       else if type = ''some'' \<and> key = ''avg300'' then m\<lparr>some_avg300 := Some n\<rparr>
                       else if type = ''full'' \<and> key = ''avg10'' then m\<lparr>full_avg10 := Some n\<rparr>
                       else m))"

function pressure_tokens :: "string \<Rightarrow> string \<Rightarrow> PressureMetrics \<Rightarrow> PressureMetrics" where
  "pressure_tokens type line m =
     (if line = [] \<or> fst (NextToken line) = [] then m
      else pressure_tokens type (snd (NextToken line)) (pressure_token type (fst (NextToken line)) m))"
  by pat_completeness auto
termination
  by (relation "measure (length \<circ> fst \<circ> snd)") (simp_all add: NextToken_shrinks)

declare pressure_tokens.simps [simp del]

function pressure_lines :: "string \<Rightarrow> PressureMetrics \<Rightarrow> PressureMetrics" where
  "pressure_lines s m =
     (if s = [] then m
      else let (type, line) = NextToken (fst (NextLine s)) in pressure_lines (snd (NextLine s)) (pressure_tokens type line m))"
  by pat_completeness auto
termination
  by (relation "measure (length \<circ> fst)") (simp_all add: NextLine_shrinks)

declare pressure_lines.simps [simp del]

definition ParsePressure :: "string \<Rightarrow> string \<Rightarrow> PressureMetrics" where
  "ParsePressure rsrc s =
     pressure_lines s \<lparr>resource = rsrc, some_avg10 = None, some_avg60 = None, some_avg300 = None, full_avg10 = None\<rparr>"

section \<open>CPU usage\<close>

definition deltas :: "CpuTimes \<Rightarrow> CpuTimes \<Rightarrow> nat list" where
  "deltas ts previous = map (\<lambda>(n, p). unat n - unat p) (zip ts previous)"

fun idle_part :: "nat \<Rightarrow> nat list \<Rightarrow> nat" where
  "idle_part i [] = 0"
| "idle_part i (d # ds) = (if i = 3 \<or> i = 4 then d else 0) + idle_part (Suc i) ds"

lemma idle_part_le: "idle_part i ds \<le> sum_list ds"
  by (induction ds arbitrary: i) (auto intro: add_mono trans_le_add2)

lemma idle_part_8: "length ds = 8 \<Longrightarrow> idle_part 0 ds = ds ! 3 + ds ! 4"
  by (auto simp: numeral_eq_Suc length_Suc_conv)

lemma usage_sums_exact:
  assumes "T + sum_list (map (\<lambda>(n, p). unat n - unat p) ps) < 2 ^ 53" "I + sum_list (map (\<lambda>(n, p). unat n - unat p) ps) < 2 ^ 53"
  shows "usage_sums i ps (Finite False (of_nat T)) (Finite False (of_nat I)) =
    (if list_all (\<lambda>(n, p). p \<le> n) ps
     then Some (Finite False (of_nat (T + sum_list (map (\<lambda>(n, p). unat n - unat p) ps))),
                Finite False (of_nat (I + idle_part i (map (\<lambda>(n, p). unat n - unat p) ps))))
     else None)"
  using assms
proof (induction ps arbitrary: i T I)
  case Nil
  then show ?case by simp
next
  case (Cons q ps)
  obtain n p where q: "q = (n, p)" by fastforce
  let ?d = "unat n - unat p" and ?s = "sum_list (map (\<lambda>(n, p). unat n - unat p) ps)"
  show ?case
  proof (cases "n < p")
    case True
    then show ?thesis by (simp add: q flip: not_less)
  next
    case False
    then have d: "unat (n - p) = ?d" by (simp add: unat_sub)
    have "of_nat_double ?d = Finite False (of_nat ?d)" "dadd (Finite False (of_nat T)) (Finite False (of_nat ?d)) = Finite False (of_nat (T + ?d))"
      "dadd (Finite False (of_nat I)) (Finite False (of_nat ?d)) = Finite False (of_nat (I + ?d))"
      using Cons.prems by (simp_all only: q prod.case list.map sum_list.Cons of_nat_double_exact dadd_nat)
    with Cons.IH [of "T + ?d" "if i = 3 \<or> i = 4 then I + ?d else I" "Suc i"] Cons.prems d False
    show ?thesis by (simp add: q Let_def add.assoc if_distrib [of "\<lambda>x. Finite False (of_nat x)"] cong: if_cong)
  qed
qed

lemma usage_quotient:
  assumes "I \<le> A" "A < 2 ^ 46"
  shows "(if dle (Finite False (of_nat A)) dzero then None
      else Some (ddiv (dmul hundred (dsub (Finite False (of_nat A)) (Finite False (of_nat I)))) (Finite False (of_nat A)))) =
    (if A = 0 then None else Some (to_double False (100 * of_nat (A - I) / of_nat A)))"
proof -
  have "dsub (Finite False (of_nat A)) (Finite False (of_nat I)) = Finite False (of_nat (A - I))"
    using assms by (intro dsub_nat) simp_all
  moreover have "dmul hundred (Finite False (of_nat (A - I))) = Finite False (of_nat (100 * (A - I)))"
    using assms by (intro dmul_hundred) simp
  ultimately show ?thesis by (simp del: of_nat_diff)
qed

text \<open>
  C19: CPU usage is the share of the non-idle time. As long as fewer than \<open>2 ^ 46\<close> ticks passed between
  two samples (centuries on any machine), the result is the exact quotient rounded once, lies
  between 0 and 100, and is absent exactly when a counter went backwards or no time passed.
\<close>

theorem cpu_usage_exact:
  assumes "length ts = 8" "length previous = 8" "sum_list (deltas ts previous) < 2 ^ 46"
  shows "CpuUsage ts previous =
      (let ds = deltas ts previous; all = sum_list ds
       in if list_ex (\<lambda>(n, p). n < p) (zip ts previous) \<or> all = 0 then None
          else Some (to_double False (100 * of_nat (all - (ds ! 3 + ds ! 4)) / of_nat all))) \<and>
    (\<forall>u. CpuUsage ts previous = Some u \<longrightarrow> percent_valid u)"
proof -
  define ds where "ds = deltas ts previous"
  define all where "all = sum_list ds"
  define idle where "idle = ds ! 3 + ds ! 4"
  have ds: "map (\<lambda>(n, p). unat n - unat p) (zip ts previous) = ds" by (simp add: ds_def deltas_def)
  have len: "length ds = 8" using assms(1,2) by (simp add: ds_def deltas_def)
  have le: "idle \<le> all" using idle_part_le [of 0 ds] idle_part_8 [OF len] by (simp add: all_def idle_def)
  have small: "all < 2 ^ 46" using assms(3) by (simp add: all_def ds_def)
  have ex: "list_ex (\<lambda>(n, p). n < p) zs \<longleftrightarrow> \<not> list_all (\<lambda>(n, p). p \<le> n) zs" for zs :: "(u64 \<times> u64) list"
    by (induction zs) (auto simp: not_less)
  have sums: "usage_sums 0 (zip ts previous) dzero dzero = (if list_ex (\<lambda>(n, p). n < p) (zip ts previous) then None
      else Some (Finite False (of_nat all), Finite False (of_nat idle)))"
    using usage_sums_exact [of 0 "zip ts previous" 0 0, unfolded ds] small
    unfolding ex by (simp add: all_def idle_def idle_part_8 [OF len])
  have eq: "CpuUsage ts previous = (if list_ex (\<lambda>(n, p). n < p) (zip ts previous) \<or> all = 0 then None
      else Some (to_double False (100 * of_nat (all - idle) / of_nat all)))"
    unfolding CpuUsage_def sums using usage_quotient [OF le small] by (cases "all = 0") simp_all
  moreover have "percent_valid u" if "CpuUsage ts previous = Some u" for u
    using that eq percent_quotient [of "all - idle" all] by (auto split: if_splits)
  ultimately show ?thesis by (simp add: ds_def all_def idle_def Let_def)
qed

theorem cpu_usage_exact_witness:
  "CpuUsage [3, 0, 1, 10, 0, 0, 0, 0] [1, 0, 1, 4, 0, 0, 0, 0] = Some (to_double False 25)"
  using cpu_usage_exact [of "[3, 0, 1, 10, 0, 0, 0, 0]" "[1, 0, 1, 4, 0, 0, 0, 0]"] by (simp add: deltas_def)

section \<open>Process lines\<close>

text \<open>A field of \<^verbatim>\<open>/proc/<pid>/stat\<close> after the name, and a whole line as the kernel prints it.\<close>

definition stat_field :: "string \<Rightarrow> bool" where
  "stat_field f \<longleftrightarrow> f \<noteq> [] \<and> list_all (\<lambda>c. \<not> token_end c \<and> c \<noteq> CHR 0x29) f"

definition stat_line :: "nat \<Rightarrow> string \<Rightarrow> string list \<Rightarrow> string" where
  "stat_line i name fs =
     show_nat i @ [CHR 0x20, CHR 0x28] @ name @ [CHR 0x29] @ concat (map ((#) (CHR 0x20)) fs) @ [CHR 0x0A]"

lemma NextToken_field:
  assumes "f \<noteq> []" "list_all (\<lambda>c. \<not> token_end c) f" "rs \<noteq> []" "token_end (hd rs)"
  shows "NextToken (CHR 0x20 # f @ rs) = (f, rs)"
proof -
  have "\<not> blank (hd f)" using assms(1,2) by (cases f) (auto simp: blank_def token_end_def)
  then have "dropWhile blank (CHR 0x20 # f @ rs) = f @ rs"
    using assms(1) by (cases f) (auto simp: blank_def)
  moreover have "takeWhile (\<lambda>c. \<not> token_end c) (f @ rs) = f" "dropWhile (\<lambda>c. \<not> token_end c) (f @ rs) = rs"
    using assms by (cases rs; simp add: list_all_iff takeWhile_append2 dropWhile_append2)+
  ultimately show ?thesis by (simp add: NextToken_def Let_def)
qed

lemma next_fields_line:
  assumes "list_all stat_field fs" "n \<le> length fs"
  shows "next_fields n (concat (map ((#) (CHR 0x20)) fs) @ [CHR 0x0A]) = Some (take n fs)"
  using assms
proof (induction fs arbitrary: n)
  case Nil
  then show ?case by simp
next
  case (Cons f fs)
  let ?rs = "concat (map ((#) (CHR 0x20)) fs) @ [CHR 0x0A]"
  have "token_end (hd ?rs)" by (cases fs) (simp_all add: token_end_def)
  then have "NextToken (CHR 0x20 # f @ ?rs) = (f, ?rs)"
    using Cons.prems by (intro NextToken_field) (auto simp: stat_field_def list_all_iff)
  with Cons show ?case by (cases n) (auto simp: stat_field_def)
qed

lemma find_sub_single: "c \<notin> set xs \<Longrightarrow> find_sub [c] (xs @ c # ys) = Some (length xs)"
  by (induction xs) auto

lemma find_last_append: "c \<notin> set ys \<Longrightarrow> find_last c (xs @ c # ys) = Some (length xs)"
proof -
  assume "c \<notin> set ys"
  then have "takeWhile (\<lambda>x. x \<noteq> c) (rev ys @ c # rev xs) = rev ys" by (subst takeWhile_append2) auto
  then show ?thesis by (simp add: find_last_def)
qed

lemma Parse_int_show: "n < 2 ^ 31 \<Longrightarrow> Parse_int (show_nat n) = Some (int n)"
  using from_chars_show_int [of "2 ^ 31" "int n"] by (simp add: Parse_int_def show_int_def parsed_whole_def)

lemma Parse_u64_show: "n < 2 ^ 64 \<Longrightarrow> Parse_u64 (show_nat n) = Some (of_nat n)"
  by (simp add: Parse_u64_def from_chars_show_nat parsed_whole_def)

lemma Parse_u32_show: "n < 2 ^ 32 \<Longrightarrow> Parse_u32 (show_nat n) = Some (of_nat n)"
  by (simp add: Parse_u32_def from_chars_show_nat parsed_whole_def)

lemma Parse_i64_show: "- (2 ^ 63) \<le> i \<Longrightarrow> i < 2 ^ 63 \<Longrightarrow> Parse_i64 (show_int i) = Some i"
  by (simp add: Parse_i64_def from_chars_show_int parsed_whole_def)

lemma show_nat_no: "\<not> is_digit c \<Longrightarrow> c \<notin> set (show_nat n)"
  by (auto dest: in_show_nat)

lemma trim_show: "trim_spaces (show_nat n @ [CHR 0x20]) = show_nat n"
proof -
  have "CHR 0x20 \<notin> set (show_nat n)" by (rule show_nat_no) (simp add: is_digit_def)
  then have "dropWhile (\<lambda>c. c = CHR 0x20) (rev (show_nat n)) = rev (show_nat n)"
    by (cases "rev (show_nat n)") (auto simp: rev_swap)
  then show ?thesis by (simp add: trim_spaces_def)
qed

lemma ParseProcess_line:
  assumes "0 < i" "i < 2 ^ 31" "list_all stat_field fs" "22 \<le> length fs"
  shows "ParseProcess (stat_line i name fs) = process_fields (int i) name (take 22 fs)"
proof -
  let ?tail = "concat (map ((#) (CHR 0x20)) fs) @ [CHR 0x0A]"
  let ?line = "stat_line i name fs"
  let ?p = "show_nat i @ [CHR 0x20]"
  have line: "?line = ?p @ CHR 0x28 # (name @ CHR 0x29 # ?tail)" "?line = (?p @ CHR 0x28 # name) @ CHR 0x29 # ?tail"
    by (simp_all add: stat_line_def)
  have "CHR 0x28 \<notin> set ?p" using show_nat_no [of "CHR 0x28" i] by (simp add: is_digit_def)
  then have op: "find_sub [CHR 0x28] ?line = Some (length ?p)" unfolding line(1) by (rule find_sub_single)
  have "CHR 0x29 \<notin> set ?tail" using assms(3) by (auto simp: stat_field_def list_all_iff)
  then have cl: "find_last (CHR 0x29) ?line = Some (length (?p @ CHR 0x28 # name))"
    unfolding line(2) by (rule find_last_append)
  have "show_nat i \<noteq> []" by simp
  then have len: "2 \<le> length ?p" by (cases "show_nat i") simp_all
  have mid: "drop (Suc (length xs)) (xs @ c # ys) = ys" for xs ys :: string and c by simp
  have "drop (Suc (length (?p @ CHR 0x28 # name))) ?line = ?tail" unfolding line(2) by (rule mid)
  moreover have cut: "take (length ?p) ?line = ?p"
    "take (length (?p @ CHR 0x28 # name) - length ?p - 1) (drop (Suc (length ?p)) ?line) = name"
    by (simp_all add: stat_line_def)
  moreover have "next_fields 22 ?tail = Some (take 22 fs)" using assms(3,4) by (rule next_fields_line)
  moreover have "Parse_int (trim_spaces ?p) = Some (int i)" using assms(2) by (simp only: trim_show Parse_int_show)
  ultimately show ?thesis
    unfolding ParseProcess_def op cl using len assms(1) cut by simp
qed


definition sample_fields :: "string list" where
  "sample_fields = [''R'', ''0'', ''0'', ''0'', ''0'', ''0'', ''0'', ''0'', ''0'', ''0'', ''0'', ''5'', ''7'', ''0'', ''0'', ''0'', ''0'',
     ''2'', ''0'', ''9'', ''0'', ''-3'']"


section \<open>Pressure values\<close>

definition pressure_valid :: "PressureMetrics \<Rightarrow> bool" where
  "pressure_valid m \<longleftrightarrow>
     (\<forall>x \<in> {some_avg10 m, some_avg60 m, some_avg300 m, full_avg10 m}. case x of None \<Rightarrow> True | Some d \<Rightarrow> percent_valid d)"

lemma pressure_token_valid: "pressure_valid m \<Longrightarrow> pressure_valid (pressure_token type tok m)"
  by (simp add: pressure_token_def pressure_valid_def percent_valid_def percent_in_range_def Let_def split: option.splits)

lemma pressure_tokens_valid: "pressure_valid m \<Longrightarrow> pressure_valid (pressure_tokens type line m)"
  by (induction type line m rule: pressure_tokens.induct) (subst pressure_tokens.simps, simp add: pressure_token_valid)

lemma pressure_lines_valid: "pressure_valid m \<Longrightarrow> pressure_valid (pressure_lines s m)"
  by (induction s m rule: pressure_lines.induct)
    (subst pressure_lines.simps, simp add: pressure_tokens_valid split: prod.splits)

text \<open>
  Pressure averages that are read at all are between 0 and 100, whatever the file holds:
  infinities, NaNs, negative and large numbers are skipped.
\<close>

theorem pressure_in_range: "pressure_valid (ParsePressure rsrc s) \<and> resource (ParsePressure rsrc s) = rsrc"
proof -
  have "resource (pressure_tokens type line m) = resource m" for type line m
    by (induction type line m rule: pressure_tokens.induct)
      (subst pressure_tokens.simps, simp add: pressure_token_def Let_def split: option.splits)
  then have "resource (pressure_lines s m) = resource m" for m
    by (induction s m rule: pressure_lines.induct) (subst pressure_lines.simps, simp split: prod.splits)
  then show ?thesis
    using pressure_lines_valid by (simp add: ParsePressure_def pressure_valid_def)
qed

end
