(* ===== verification/Text_Stream.thy ===== *)
theory Text_Stream
  imports Linux_Samples
begin

text \<open>
  What the collectors use of \<^verbatim>\<open>std::istringstream\<close> in the C locale: \<^verbatim>\<open>>>\<close> into a
  string, an unsigned integer and a double. A numeric extraction yields whether it succeeded, the
  value it stores and the unread rest: with no digits it stores 0, out of range the nearest limit. A
  minus sign before an unsigned number negates it modulo its width, as the standard prescribes.
\<close>

definition get_word :: "string \<Rightarrow> (string \<times> string) option" where
  "get_word s =
     (let t = dropWhile is_space s
      in if t = [] then None else Some (takeWhile (\<lambda>c. \<not> is_space c) t, dropWhile (\<lambda>c. \<not> is_space c) t))"

definition signed_at :: "string \<Rightarrow> bool" where
  "signed_at t \<longleftrightarrow> t \<noteq> [] \<and> (hd t = CHR ''-'' \<or> hd t = CHR ''+'')"

definition get_unsigned :: "nat \<Rightarrow> string \<Rightarrow> bool \<times> nat \<times> string" where
  "get_unsigned cap s =
     (let t = dropWhile is_space s; u = (if signed_at t then tl t else t);
          ds = takeWhile is_digit u; v = digits_val ds; r = dropWhile is_digit u
      in if ds = [] then (False, 0, r)
         else if cap \<le> v then (False, cap - 1, r)
         else (True, if hd t = CHR ''-'' \<and> v \<noteq> 0 then cap - v else v, r))"

definition max_double :: rat where
  "max_double = (2 ^ 53 - 1) * 2 ^ 971"

definition get_double :: "string \<Rightarrow> bool \<times> double \<times> string" where
  "get_double s =
     (let t = dropWhile is_space s; neg = (t \<noteq> [] \<and> hd t = CHR ''-''); u = (if signed_at t then tl t else t)
      in case scan_mantissa u of
           None \<Rightarrow> (False, dzero, if take 1 u = ''.'' then tl u else u)
         | Some (n, e, w) \<Rightarrow>
             if w \<noteq> [] \<and> (hd w = CHR ''e'' \<or> hd w = CHR ''E'') \<and> snd (scan_exponent w) = w
             then (False, dzero, if signed_at (tl w) then tl (tl w) else tl w)
             else let (x, r) = scan_exponent w; d = to_double neg (dec_value n (e + x))
                  in if isfinite d then (True, d, r) else (False, Finite neg max_double, r))"

text \<open>\<open>n\<close> numbers in a row, if all can be read.\<close>

fun get_numbers :: "nat \<Rightarrow> string \<Rightarrow> u64 list option" where
  "get_numbers 0 s = Some []"
| "get_numbers (Suc n) s =
     (case get_unsigned (2 ^ 64) s of
        (True, v, r) \<Rightarrow> map_option ((#) (of_nat v)) (get_numbers n r)
      | (False, _, _) \<Rightarrow> None)"

lemma get_numbers_length: "get_numbers n s = Some vs \<Longrightarrow> length vs = n"
  by (induction n arbitrary: s vs) (auto split: prod.splits bool.splits)

end
