(* ===== verification/Metrics_Collector.thy ===== *)
theory Metrics_Collector
  imports Text_Stream Server_Config
begin

text \<open>
  The sampling pipeline of \<^verbatim>\<open>server/collectors/metrics_collector.cpp\<close>. The virtual interface
  \<^verbatim>\<open>LinuxSource\<close> is a record of functions: what the files hold while one snapshot is collected. Each
  collector is a function of the collector's members and the snapshot under construction, and returns
  what it threw (the text of \<^verbatim>\<open>what()\<close>), if anything, with both as it left them. The hash maps and the maps that
  are only searched are association lists, the latest entry first.
\<close>

section \<open>The source\<close>

record FileResult =
  file_text :: string
  file_error :: int

definition file_ok :: "FileResult \<Rightarrow> bool" where
  "file_ok f \<longleftrightarrow> file_error f = 0"

record statvfs =
  f_frsize :: u64
  f_blocks :: u64
  f_bfree :: u64
  f_bavail :: u64

record LinuxSource =
  Proc :: "string \<Rightarrow> FileResult"
  Sys :: "string \<Rightarrow> FileResult"
  Cgroup_file :: "string \<Rightarrow> FileResult"
  Pids :: "int list \<times> int"
  statvfs_of :: "int + statvfs"
  CgroupIdentity :: string
  strerror :: "int \<Rightarrow> string"

record NetSample =
  identity :: string
  net_rx :: u64
  net_tx :: u64

record MetricsCollector =
  mc_config :: ServerConfig
  cpu_previous :: CpuSample
  processes_previous :: "(int \<times> u64 \<times> u64) list"
  network_previous :: "(string \<times> NetSample) list"
  disks_previous :: "(string \<times> u64 list) list"
  cg_usage :: "u64 option"
  cg_throttled :: "u64 option"
  cg_identity :: string
  mc_boot_id :: string
  mc_hostname :: string
  previous_time :: "int option"
  mc_seconds :: double
  clock_ticks :: int
  page_size :: int

text \<open>The readings of the clocks during one \<open>Collect\<close>, and when a stop was requested.\<close>

record clocks =
  started_ms :: u64
  finished_ms :: u64
  steady_now :: int
  duration_us_of :: "string \<Rightarrow> u64"
  whole_us :: u64
  stop_requested :: "nat \<Rightarrow> bool"

section \<open>Helpers\<close>

definition Trim :: "string \<Rightarrow> string" where
  "Trim s = rev (dropWhile is_space (rev s))"

definition Scalar :: "FileResult \<Rightarrow> u64 option" where
  "Scalar f = (if file_ok f then Parse_u64 (Trim (file_text f)) else None)"

definition key_value :: "string \<Rightarrow> (string \<times> u64) option" where
  "key_value line =
     (case get_word line of
        None \<Rightarrow> None
      | Some (key, r) \<Rightarrow>
          (case get_unsigned (2 ^ 64) r of
             (True, v, _) \<Rightarrow> Some (if last key = CHR '':'' then butlast key else key, of_nat v)
           | (False, _, _) \<Rightarrow> None))"

definition KeyValues :: "string \<Rightarrow> (string \<times> u64) list" where
  "KeyValues s = rev (List.map_filter key_value (getlines s))"

text \<open>\<open>State\<close>: the state of the collector that runs, the last one in the list.\<close>

definition set_last :: "('a \<Rightarrow> 'a) \<Rightarrow> 'a list \<Rightarrow> 'a list" where
  "set_last f xs = (if xs = [] then [] else butlast xs @ [f (last xs)])"

definition upd_status :: "(SampleStatus \<Rightarrow> SampleStatus) \<Rightarrow> SystemSnapshot \<Rightarrow> SystemSnapshot" where
  "upd_status f s = s\<lparr>telemetry := (telemetry s)\<lparr>collectors := set_last f (collectors (telemetry s))\<rparr>\<rparr>"

definition State :: "SystemSnapshot \<Rightarrow> string \<Rightarrow> SystemSnapshot" where
  "State s st = upd_status (\<lambda>x. x\<lparr>ss_state := st\<rparr>) s"

type_synonym outcome = "string option \<times> MetricsCollector \<times> SystemSnapshot"

section \<open>CPU\<close>

definition value_or_zero :: "double option \<Rightarrow> double" where
  "value_or_zero x = (case x of Some d \<Rightarrow> d | None \<Rightarrow> dzero)"

fun cpu_loop :: "CpuSample \<Rightarrow> CpuSample \<Rightarrow> bool \<Rightarrow> SystemSnapshot \<Rightarrow> bool \<times> SystemSnapshot" where
  "cpu_loop prev [] valid s = (valid, s)"
| "cpu_loop prev ((i, ts) # more_cpus) valid s =
     (let usage = (case map_of prev i of None \<Rightarrow> None | Some old \<Rightarrow> CpuUsage ts old);
          s1 = (if i = - 1 then s\<lparr>cpu := (cpu s)\<lparr>total_usage_percent := value_or_zero usage\<rparr>\<rparr>
                else s\<lparr>telemetry := (telemetry s)\<lparr>cpu_ids := cpu_ids (telemetry s) @ [of_int i]\<rparr>,
                       cpu := (cpu s)\<lparr>per_core_usage_percent := per_core_usage_percent (cpu s) @ [value_or_zero usage]\<rparr>\<rparr>)
      in cpu_loop prev more_cpus (valid \<and> usage \<noteq> None) s1)"

definition Cpu :: "LinuxSource \<Rightarrow> MetricsCollector \<Rightarrow> SystemSnapshot \<Rightarrow> outcome" where
  "Cpu src m s =
     (let file = Proc src ''stat''
      in if \<not> file_ok file then (Some (strerror src (file_error file)), m\<lparr>cpu_previous := []\<rparr>, s)
         else
           let sample = ParseCpu (file_text file)
           in if map_of sample (- 1) = None
              then (Some ''aggregate CPU line missing or malformed'', m\<lparr>cpu_previous := []\<rparr>, s)
              else
                let s1 = s\<lparr>cpu := (cpu s)\<lparr>cpu_timestamp := timestamp s, core_count := of_nat (length sample - 1)\<rparr>\<rparr>;
                    (valid, s2) = cpu_loop (cpu_previous m) sample True s1;
                    s3 = (if valid then s2 else State s2 (if cpu_previous m = [] then ''warming_up'' else ''partial''))
                in (None, m\<lparr>cpu_previous := sample\<rparr>, s3))"

section \<open>Memory\<close>

definition percent_u64 :: "u64 \<Rightarrow> u64 \<Rightarrow> double" where
  "percent_u64 used whole = ddiv (dmul hundred (of_nat_double (unat used))) (of_nat_double (unat whole))"

definition Memory :: "LinuxSource \<Rightarrow> MetricsCollector \<Rightarrow> SystemSnapshot \<Rightarrow> outcome" where
  "Memory src m s =
     (let file = Proc src ''meminfo''
      in if \<not> file_ok file then (Some (strerror src (file_error file)), m, s)
         else let kv = map_of (KeyValues (file_text file))
              in case (kv ''MemTotal'', kv ''MemAvailable'') of
                   (Some tot, Some avail) \<Rightarrow>
                     if tot = 0 \<or> avail > tot \<or> unat tot > (2 ^ 64 - 1) div 1024
                     then (Some ''MemTotal/MemAvailable missing or invalid'', m, s)
                     else (None, m, s\<lparr>memory :=
                            \<lparr>mem_timestamp = timestamp s, mem_total_bytes = tot * 1024, mem_available_bytes = avail * 1024,
                             mem_used_bytes = tot * 1024 - avail * 1024,
                             mem_used_percent = percent_u64 (tot * 1024 - avail * 1024) (tot * 1024)\<rparr>\<rparr>)
                 | _ \<Rightarrow> (Some ''MemTotal/MemAvailable missing or invalid'', m, s))"

section \<open>Processes\<close>

definition count_error :: "int \<Rightarrow> TelemetryInfo \<Rightarrow> TelemetryInfo" where
  "count_error err t =
     (if err = 13 \<or> err = 1 then t\<lparr>process_denied := process_denied t + 1\<rparr>
      else if err = 2 \<or> err = 3 then t\<lparr>process_vanished := process_vanished t + 1\<rparr>
      else t\<lparr>process_malformed := process_malformed t + 1\<rparr>)"

definition cpu_share :: "MetricsCollector \<Rightarrow> ProcessSample \<Rightarrow> double option" where
  "cpu_share m p =
     (case map_of (processes_previous m) (ps_pid p) of
        None \<Rightarrow> None
      | Some (start, ticks) \<Rightarrow>
          if start = ps_starttime p
          then map_option (\<lambda>rate. ddiv (dmul rate hundred) (of_int_double (clock_ticks m)))
                 (CounterRate (ps_ticks p) ticks (mc_seconds m))
          else None)"

definition process_info :: "MetricsCollector \<Rightarrow> u64 \<Rightarrow> ProcessSample \<Rightarrow> ProcessInfo" where
  "process_info m memory_total p =
     (let bytes = ps_rss_pages p * of_int (page_size m); share = cpu_share m p
      in \<lparr>starttime_ticks = ps_starttime p, cpu_valid = (share \<noteq> None), pid = of_int (ps_pid p), proc_name = ps_name p,
          proc_state = ps_state p, cpu_percent = value_or_zero share, memory_bytes = bytes,
          memory_percent = (if memory_total \<noteq> 0 then percent_u64 bytes memory_total else dzero),
          thread_count = ps_threads p\<rparr>)"

definition add_process :: "MetricsCollector \<Rightarrow> ProcessSample \<Rightarrow> SystemSnapshot \<Rightarrow> SystemSnapshot" where
  "add_process m p s =
     (let t = process s
      in s\<lparr>process := t\<lparr>total_processes := total_processes t + 1,
             running_processes := (if ps_state p = CHR ''R'' then running_processes t + 1 else running_processes t),
             processes := processes t @ [process_info m (mem_total_bytes (memory s)) p]\<rparr>\<rparr>)"

definition malformed :: "MetricsCollector \<Rightarrow> int \<Rightarrow> ProcessSample \<Rightarrow> bool" where
  "malformed m i p \<longleftrightarrow> ps_pid p \<noteq> i \<or> unat (ps_rss_pages p) > (2 ^ 64 - 1) div unat (of_int (page_size m) :: u64)"

fun process_loop :: "LinuxSource \<Rightarrow> (nat \<Rightarrow> bool) \<Rightarrow> MetricsCollector \<Rightarrow> nat \<Rightarrow> int list \<Rightarrow>
    (int \<times> u64 \<times> u64) list \<Rightarrow> SystemSnapshot \<Rightarrow> (int \<times> u64 \<times> u64) list \<times> SystemSnapshot" where
  "process_loop src stop m n [] nxt s = (nxt, s)"
| "process_loop src stop m n (i # is) nxt s =
     (if stop n then (nxt, State s ''partial'')
      else
        let file = Proc src (show_int i @ ''/stat'')
        in if \<not> file_ok file
           then process_loop src stop m (Suc n) is nxt (s\<lparr>telemetry := count_error (file_error file) (telemetry s)\<rparr>)
           else (case ParseProcess (file_text file) of
                   None \<Rightarrow> process_loop src stop m (Suc n) is nxt (s\<lparr>telemetry := count_error 0 (telemetry s)\<rparr>)
                 | Some p \<Rightarrow>
                     if malformed m i p
                     then process_loop src stop m (Suc n) is nxt (s\<lparr>telemetry := count_error 0 (telemetry s)\<rparr>)
                     else process_loop src stop m (Suc n) is ((i, ps_starttime p, ps_ticks p) # nxt) (add_process m p s)))"

text \<open>
  The order of the list: more CPU, then more memory, then the smaller identifier. The identifiers of
  one listing are distinct, so this is a total order and \<^verbatim>\<open>partial_sort\<close> has only one result.
\<close>

definition better :: "ProcessInfo \<Rightarrow> ProcessInfo \<Rightarrow> bool" where
  "better a b \<longleftrightarrow>
     (if \<not> deq (cpu_percent a) (cpu_percent b) then dless (cpu_percent b) (cpu_percent a)
      else if memory_bytes a \<noteq> memory_bytes b then memory_bytes b < memory_bytes a
      else sint (pid a) < sint (pid b))"

fun insert_process :: "ProcessInfo \<Rightarrow> ProcessInfo list \<Rightarrow> ProcessInfo list" where
  "insert_process p [] = [p]"
| "insert_process p (q # qs) = (if better p q then p # q # qs else q # insert_process p qs)"

definition partial_sort :: "nat \<Rightarrow> ProcessInfo list \<Rightarrow> ProcessInfo list" where
  "partial_sort count ps = take count (foldr insert_process ps [])"

definition Processes :: "LinuxSource \<Rightarrow> (nat \<Rightarrow> bool) \<Rightarrow> MetricsCollector \<Rightarrow> SystemSnapshot \<Rightarrow> outcome" where
  "Processes src stop m s =
     (if snd (Pids src) \<noteq> 0 then (Some (strerror src (snd (Pids src))), m\<lparr>processes_previous := []\<rparr>, s)
      else
        let s1 = s\<lparr>process := (process s)\<lparr>proc_timestamp := timestamp s\<rparr>\<rparr>;
            (nxt, s2) = process_loop src stop m 0 (fst (Pids src)) [] s1;
            ps = processes (process s2); count = min (max_processes (mc_config m)) (length ps);
            s3 = s2\<lparr>process := (process s2)\<lparr>processes := partial_sort count ps\<rparr>,
                    telemetry := (telemetry s2)\<lparr>processes_truncated := count < length ps\<rparr>\<rparr>;
            t = telemetry s3
        in (None, m\<lparr>processes_previous := nxt\<rparr>, if process_denied t \<noteq> 0 \<or> process_malformed t \<noteq> 0 then State s3 ''partial'' else s3))"

section \<open>Network\<close>

definition interface_name :: "string \<Rightarrow> string" where
  "interface_name s = dropWhile blank (Trim s)"

definition net_row :: "LinuxSource \<Rightarrow> MetricsCollector \<Rightarrow> string \<Rightarrow> u64 list \<Rightarrow> InterfaceMetrics \<times> NetSample" where
  "net_row src m name fs =
     (let f = Sys src (''class/net/'' @ name @ ''/ifindex''); ident = (if file_ok f then Trim (file_text f) else name);
          same = (case map_of (network_previous m) name of
                    Some p \<Rightarrow> if identity p = ident then Some p else None | None \<Rightarrow> None)
      in (\<lparr>if_name = name, rx_bytes = fs ! 0, tx_bytes = fs ! 8, rx_errors = fs ! 2, tx_errors = fs ! 10,
           rx_dropped = fs ! 3, tx_dropped = fs ! 11,
           rx_bytes_per_second = Option.bind same (\<lambda>p. CounterRate (fs ! 0) (net_rx p) (mc_seconds m)),
           tx_bytes_per_second = Option.bind same (\<lambda>p. CounterRate (fs ! 8) (net_tx p) (mc_seconds m))\<rparr>,
          \<lparr>identity = ident, net_rx = fs ! 0, net_tx = fs ! 8\<rparr>))"

definition kilo :: double where
  "kilo = Finite False 1024"

definition add_interface :: "InterfaceMetrics \<Rightarrow> SystemSnapshot \<Rightarrow> SystemSnapshot" where
  "add_interface i s =
     (let n = network s; t = telemetry s
      in s\<lparr>network := n\<lparr>rx_bytes_total := rx_bytes_total n + rx_bytes i, tx_bytes_total := tx_bytes_total n + tx_bytes i,
             rx_kbps := dadd (rx_kbps n) (ddiv (value_or_zero (rx_bytes_per_second i)) kilo),
             tx_kbps := dadd (tx_kbps n) (ddiv (value_or_zero (tx_bytes_per_second i)) kilo)\<rparr>,
           telemetry := t\<lparr>interfaces := interfaces t @ [i]\<rparr>\<rparr>)"

fun net_loop :: "LinuxSource \<Rightarrow> MetricsCollector \<Rightarrow> string list \<Rightarrow> bool \<Rightarrow> (string \<times> NetSample) list \<Rightarrow> SystemSnapshot \<Rightarrow>
    bool \<times> (string \<times> NetSample) list \<times> SystemSnapshot" where
  "net_loop src m [] valid nxt s = (valid, nxt, s)"
| "net_loop src m (line # ls) valid nxt s =
     (case find_sub '':'' line of
        None \<Rightarrow> net_loop src m ls valid nxt s
      | Some colon \<Rightarrow>
          let name = interface_name (take colon line)
          in if name = [] \<or> name = ''lo'' \<and> \<not> include_loopback (mc_config m) then net_loop src m ls valid nxt s
             else (case get_numbers 16 (drop (Suc colon) line) of
                     None \<Rightarrow> net_loop src m ls False nxt s
                   | Some fs \<Rightarrow>
                       let (i, n) = net_row src m name fs
                       in net_loop src m ls (valid \<and> rx_bytes_per_second i \<noteq> None \<and> tx_bytes_per_second i \<noteq> None)
                            ((name, n) # nxt) (add_interface i s)))"

definition Network :: "LinuxSource \<Rightarrow> MetricsCollector \<Rightarrow> SystemSnapshot \<Rightarrow> outcome" where
  "Network src m s =
     (let file = Proc src ''net/dev''
      in if \<not> file_ok file then (Some (strerror src (file_error file)), m\<lparr>network_previous := []\<rparr>, s)
         else
           let s1 = s\<lparr>network := (network s)\<lparr>net_timestamp := timestamp s\<rparr>\<rparr>;
               (valid, nxt, s2) = net_loop src m (getlines (file_text file)) True [] s1
           in (None, m\<lparr>network_previous := nxt\<rparr>,
               if valid then s2 else State s2 (if network_previous m = [] then ''warming_up'' else ''partial'')))"

section \<open>Disks\<close>

definition sector :: double where
  "sector = Finite False 512"

definition disk_row :: "MetricsCollector \<Rightarrow> string \<Rightarrow> u64 list option \<Rightarrow> u64 list \<Rightarrow> DiskIoMetrics" where
  "disk_row m name old cs =
     (case old of
        None \<Rightarrow> \<lparr>device = name, read_bytes_per_second = None, write_bytes_per_second = None, iops = None, busy_percent = None\<rparr>
      | Some ps \<Rightarrow>
          let rate = (\<lambda>k. CounterRate (cs ! k) (ps ! k) (mc_seconds m))
          in \<lparr>device = name, read_bytes_per_second = map_option (\<lambda>r. dmul r sector) (rate 0),
              write_bytes_per_second = map_option (\<lambda>r. dmul r sector) (rate 1),
              iops = (case (rate 2, rate 3) of (Some a, Some b) \<Rightarrow> Some (dadd a b) | _ \<Rightarrow> None),
              busy_percent = map_option (\<lambda>b. dmin hundred (ddiv b (Finite False 10))) (rate 4)\<rparr>)"

definition disk_head :: "string \<Rightarrow> (string \<times> string \<times> string) option" where
  "disk_head line =
     (case get_unsigned (2 ^ 32) line of
        (True, major, r1) \<Rightarrow>
          (case get_unsigned (2 ^ 32) r1 of
             (True, minor, r2) \<Rightarrow>
               (case get_word r2 of
                  Some (name, r3) \<Rightarrow> Some (show_nat major @ '':'' @ show_nat minor @ '':'' @ name, name, r3)
                | None \<Rightarrow> None)
           | (False, _, _) \<Rightarrow> None)
      | (False, _, _) \<Rightarrow> None)"

fun disk_loop :: "MetricsCollector \<Rightarrow> string list \<Rightarrow> (string \<times> u64 list) list \<Rightarrow> SystemSnapshot \<Rightarrow>
    (string \<times> u64 list) list \<times> SystemSnapshot" where
  "disk_loop m [] nxt s = (nxt, s)"
| "disk_loop m (line # ls) nxt s =
     (case disk_head line of
        None \<Rightarrow> disk_loop m ls nxt s
      | Some (key, name, r) \<Rightarrow>
          (case get_numbers 11 r of
             None \<Rightarrow> disk_loop m ls nxt (State s ''partial'')
           | Some fs \<Rightarrow>
               let cs = [fs ! 2, fs ! 6, fs ! 0, fs ! 4, fs ! 9];
                   d = disk_row m name (map_of (disks_previous m) key) cs
               in disk_loop m ls ((key, cs) # nxt) (s\<lparr>telemetry := (telemetry s)\<lparr>disks := disks (telemetry s) @ [d]\<rparr>\<rparr>)))"

definition Disk :: "LinuxSource \<Rightarrow> MetricsCollector \<Rightarrow> SystemSnapshot \<Rightarrow> outcome" where
  "Disk src m s =
     (let file = Proc src ''diskstats''
      in if \<not> file_ok file then (Some (strerror src (file_error file)), m\<lparr>disks_previous := []\<rparr>, s)
         else
           let (nxt, s1) = disk_loop m (getlines (file_text file)) [] s
           in (None, m\<lparr>disks_previous := nxt\<rparr>,
               if disks_previous m = [] \<and> nxt \<noteq> [] then State s1 ''warming_up'' else s1))"

section \<open>File system, load and pressure\<close>

definition Filesystem :: "LinuxSource \<Rightarrow> MetricsCollector \<Rightarrow> SystemSnapshot \<Rightarrow> outcome" where
  "Filesystem src m s =
     (case statvfs_of src of
        Inl ec \<Rightarrow> (Some (strerror src ec), m, s)
      | Inr st \<Rightarrow>
          let tot = f_blocks st * f_frsize st;
              used = (if f_bfree st \<le> f_blocks st then f_blocks st - f_bfree st else 0) * f_frsize st
          in (None, m, s\<lparr>disk := (disk s)\<lparr>disk_timestamp := timestamp s, disk_total_bytes := tot,
                disk_available_bytes := f_bavail st * f_frsize st, disk_used_bytes := used,
                disk_used_percent := (if tot \<noteq> 0 then percent_u64 used tot else disk_used_percent (disk s))\<rparr>\<rparr>))"

definition Load :: "LinuxSource \<Rightarrow> MetricsCollector \<Rightarrow> SystemSnapshot \<Rightarrow> outcome" where
  "Load src m s =
     (let file = Proc src ''loadavg''
      in if \<not> file_ok file then (Some (strerror src (file_error file)), m, s)
         else
           let l = (loadavg s)\<lparr>load_timestamp := timestamp s\<rparr>; bad_load = Some ''malformed loadavg'';
               (ok1, a, r1) = get_double (file_text file); l1 = l\<lparr>load_1m := a\<rparr>
           in if \<not> ok1 then (bad_load, m, s\<lparr>loadavg := l1\<rparr>)
              else let (ok2, b, r2) = get_double r1; l2 = l1\<lparr>load_5m := b\<rparr>
                   in if \<not> ok2 then (bad_load, m, s\<lparr>loadavg := l2\<rparr>)
                      else let (ok3, c, r3) = get_double r2; l3 = l2\<lparr>load_15m := c\<rparr>
                           in (if ok3 then None else bad_load, m, s\<lparr>loadavg := l3\<rparr>))"

definition resources :: "string list" where
  "resources = [''cpu'', ''memory'', ''io'']"

definition text_if_ok :: "FileResult \<Rightarrow> string" where
  "text_if_ok f = (if file_ok f then file_text f else [])"

definition Pressure :: "LinuxSource \<Rightarrow> MetricsCollector \<Rightarrow> SystemSnapshot \<Rightarrow> outcome" where
  "Pressure src m s =
     (let ps = map (\<lambda>r. ParsePressure r (text_if_ok (Proc src (''pressure/'' @ r)))) resources;
          available = length (filter (\<lambda>p. some_avg10 p \<noteq> None) ps);
          s1 = s\<lparr>telemetry := (telemetry s)\<lparr>pressure := pressure (telemetry s) @ ps\<rparr>\<rparr>
      in (None, m, if available < 3 then State s1 (if available \<noteq> 0 then ''partial'' else ''unavailable'') else s1))"

section \<open>Control group\<close>

definition upd_cgroup :: "(CgroupMetrics \<Rightarrow> CgroupMetrics) \<Rightarrow> SystemSnapshot \<Rightarrow> SystemSnapshot" where
  "upd_cgroup f s = s\<lparr>telemetry := (telemetry s)\<lparr>cgroup := f (cgroup (telemetry s))\<rparr>\<rparr>"

definition cg_memory :: "LinuxSource \<Rightarrow> CgroupMetrics \<Rightarrow> CgroupMetrics" where
  "cg_memory src c =
     (let mm = Cgroup_file src ''memory.max''; ev = Cgroup_file src ''memory.events'';
          kills = (if file_ok ev then map_of (KeyValues (file_text ev)) ''oom_kill'' else None)
      in c\<lparr>memory_current := Scalar (Cgroup_file src ''memory.current''), memory_max := Scalar mm,
           memory_unlimited := (file_ok mm \<and> Trim (file_text mm) = ''max''),
           oom_kill := (case kills of Some v \<Rightarrow> Some v | None \<Rightarrow> oom_kill c)\<rparr>)"

text \<open>\<^verbatim>\<open>input >> quota >> period\<close>: when the period is out of range it is stored as the largest number.\<close>

definition cg_quota :: "LinuxSource \<Rightarrow> CgroupMetrics \<Rightarrow> CgroupMetrics" where
  "cg_quota src c =
     (let f = Cgroup_file src ''cpu.max''
      in if \<not> file_ok f then c
         else case get_word (file_text f) of
             None \<Rightarrow> c
           | Some (quota, r) \<Rightarrow>
               let (ok, period, r2) = get_unsigned (2 ^ 64) r
               in if period = 0 then c
                  else let c1 = c\<lparr>cpu_unlimited := (quota = ''max'')\<rparr>
                       in case Scalar \<lparr>file_text = quota, file_error = 0\<rparr> of
                            None \<Rightarrow> c1
                          | Some q \<Rightarrow> c1\<lparr>cpu_quota_cores := Some (ddiv (of_nat_double (unat q)) (of_nat_double period))\<rparr>)"

definition cg_rate :: "MetricsCollector \<Rightarrow> u64 option \<Rightarrow> u64 option \<Rightarrow> double \<Rightarrow> double option" where
  "cg_rate m current previous divisor =
     (case (current, previous) of
        (Some n, Some p) \<Rightarrow> map_option (\<lambda>rate. ddiv rate divisor) (CounterRate n p (mc_seconds m))
      | _ \<Rightarrow> None)"

definition set_if :: "'a option \<Rightarrow> 'a option \<Rightarrow> 'a option" where
  "set_if new old = (case new of Some v \<Rightarrow> Some v | None \<Rightarrow> old)"

definition cg_stat :: "LinuxSource \<Rightarrow> MetricsCollector \<Rightarrow> CgroupMetrics \<Rightarrow> MetricsCollector \<times> CgroupMetrics" where
  "cg_stat src m c =
     (let f = Cgroup_file src ''cpu.stat''
      in if \<not> file_ok f then (m\<lparr>cg_usage := None, cg_throttled := None\<rparr>, c)
         else
           let kv = map_of (KeyValues (file_text f)); usage = kv ''usage_usec''; throttled = kv ''throttled_usec''
           in (m\<lparr>cg_usage := usage, cg_throttled := throttled\<rparr>,
               c\<lparr>cg_cpu_percent := set_if (cg_rate m usage (cg_usage m) (Finite False 10000)) (cg_cpu_percent c),
                 throttled_ms_per_second := set_if (cg_rate m throttled (cg_throttled m) (Finite False 1000)) (throttled_ms_per_second c),
                 nr_throttled := set_if (kv ''nr_throttled'') (nr_throttled c)\<rparr>))"

definition Cgroup :: "LinuxSource \<Rightarrow> MetricsCollector \<Rightarrow> SystemSnapshot \<Rightarrow> outcome" where
  "Cgroup src m s =
     (let ident = CgroupIdentity src;
          s1 = upd_cgroup (\<lambda>c. c\<lparr>cg_path := cgroup_path (mc_config m), cg_state := ''unavailable''\<rparr>) s;
          m1 = (if ident = [] \<or> ident \<noteq> cg_identity m then m\<lparr>cg_usage := None, cg_throttled := None\<rparr> else m);
          m2 = m1\<lparr>cg_identity := ident\<rparr>
      in if ident = [] then (None, m2, State s1 ''unavailable'')
         else
           let c1 = cg_quota src (cg_memory src (cgroup (telemetry s1)));
               (m3, c2) = cg_stat src m2 c1;
               stat_ok = file_ok (Cgroup_file src ''cpu.stat'');
               ps = map (\<lambda>r. ParsePressure r (text_if_ok (Cgroup_file src (r @ ''.pressure'')))) resources;
               have_memory = (memory_current c2 \<noteq> None);
               st = (if have_memory \<and> stat_ok then ''ok'' else if have_memory \<or> stat_ok then ''partial'' else ''unavailable'');
               c3 = c2\<lparr>cg_pressure := cg_pressure c2 @ ps, cg_state := st\<rparr>
           in (None, m3, State (upd_cgroup (\<lambda>_. c3) s1) st))"

section \<open>Collecting\<close>

definition collect :: "(string \<Rightarrow> u64) \<Rightarrow> string \<Rightarrow> (MetricsCollector \<Rightarrow> SystemSnapshot \<Rightarrow> outcome) \<Rightarrow>
    MetricsCollector \<times> SystemSnapshot \<Rightarrow> MetricsCollector \<times> SystemSnapshot" where
  "collect dur name action ms =
     (let (m, s) = ms;
          status = \<lparr>ss_name = name, ss_state = ''ok'', ss_error = [], ss_duration_us = 0\<rparr>;
          s1 = s\<lparr>telemetry := (telemetry s)\<lparr>collectors := collectors (telemetry s) @ [status]\<rparr>\<rparr>;
          (thrown, m1, s2) = action m s1;
          s3 = (case thrown of None \<Rightarrow> s2 | Some what \<Rightarrow> upd_status (\<lambda>x. x\<lparr>ss_state := ''unavailable'', ss_error := what\<rparr>) s2)
      in (m1, upd_status (\<lambda>x. x\<lparr>ss_duration_us := dur name\<rparr>) s3))"

definition elapsed_seconds :: "int \<Rightarrow> int option \<Rightarrow> double" where
  "elapsed_seconds t previous =
     (case previous of None \<Rightarrow> dzero | Some p \<Rightarrow> ddiv (of_int_double (t - p)) (Finite False 1000000000))"

definition start_snapshot :: "clocks \<Rightarrow> MetricsCollector \<Rightarrow> SystemSnapshot" where
  "start_snapshot k m =
     default_snapshot\<lparr>timestamp := started_ms k,
       telemetry := default_telemetry\<lparr>collection_started_at := started_ms k,
         interval_ms := of_nat (poll_interval (mc_config m)), boot_id := mc_boot_id m, hostname := mc_hostname m\<rparr>\<rparr>"

definition Collect :: "LinuxSource \<Rightarrow> clocks \<Rightarrow> MetricsCollector \<Rightarrow> MetricsCollector \<times> SystemSnapshot" where
  "Collect src k m =
     (let m1 = m\<lparr>mc_seconds := elapsed_seconds (steady_now k) (previous_time m)\<rparr>;
          c = collect (duration_us_of k);
          ms = (m1, start_snapshot k m);
          ms = c ''cpu'' (Cpu src) ms;
          ms = c ''memory'' (Memory src) ms;
          ms = c ''processes'' (Processes src (stop_requested k)) ms;
          ms = c ''network'' (Network src) ms;
          ms = c ''disk_io'' (Disk src) ms;
          ms = c ''filesystem'' (Filesystem src) ms;
          ms = c ''load'' (Load src) ms;
          ms = c ''psi'' (Pressure src) ms;
          ms = (if cgroup_path (mc_config m) \<noteq> [] then c ''cgroup'' (Cgroup src) ms else ms);
          (m2, s) = ms
      in (m2\<lparr>previous_time := Some (steady_now k)\<rparr>,
          s\<lparr>telemetry := (telemetry s)\<lparr>collection_finished_at := finished_ms k, collection_us := whole_us k\<rparr>\<rparr>))"

text \<open>The constructor: what it takes from \<^verbatim>\<open>sysconf\<close>, the boot identifier and the host name.\<close>

definition new_collector :: "ServerConfig \<Rightarrow> LinuxSource \<Rightarrow> int \<Rightarrow> int \<Rightarrow> string option \<Rightarrow> MetricsCollector result" where
  "new_collector c src ticks pages host =
     (if ticks \<le> 0 \<or> pages \<le> 0 then Inl (Runtime_error ''sysconf clock/page size unavailable'')
      else
        let b = Proc src ''sys/kernel/random/boot_id''
        in Inr \<lparr>mc_config = c, cpu_previous = [], processes_previous = [], network_previous = [], disks_previous = [],
             cg_usage = None, cg_throttled = None, cg_identity = [], mc_boot_id = (if file_ok b then Trim (file_text b) else []),
             mc_hostname = (case host of Some h \<Rightarrow> h | None \<Rightarrow> []), previous_time = None, mc_seconds = dzero,
             clock_ticks = ticks, page_size = pages\<rparr>)"

end
