(* ===== verification/Linux_Source.thy ===== *)
theory Linux_Source
  imports Metrics_Collector
begin

text \<open>
  The reads of \<^verbatim>\<open>server/system/linux_source.cpp\<close>. What the kernel answers while the files are read is a
  record: the answers of successive \<^verbatim>\<open>read\<close> calls on a path (end of file when they are used up), the names in a
  directory with the error that ended the iteration, \<^verbatim>\<open>statvfs\<close> and \<^verbatim>\<open>stat\<close>. Error codes are the numbers of
  Linux.
\<close>

datatype read_answer = Chunk string | Read_error int

record kernel =
  k_open :: "string \<Rightarrow> int + read_answer list"
  k_dir :: "string \<Rightarrow> int + (string list \<times> int)"
  k_statvfs :: "string \<Rightarrow> int + statvfs"
  k_stat :: "string \<Rightarrow> (u64 \<times> u64) option"
  k_strerror :: "int \<Rightarrow> string"

definition eintr :: int where "eintr = 4"
definition efbig :: int where "efbig = 27"

definition kMaxFile :: nat where
  "kMaxFile = 8 * 1024 * 1024"

fun file_loop :: "read_answer list \<Rightarrow> string \<Rightarrow> FileResult" where
  "file_loop [] acc = \<lparr>file_text = acc, file_error = 0\<rparr>"
| "file_loop (Read_error err # as) acc =
     (if err = eintr then file_loop as acc else \<lparr>file_text = [], file_error = err\<rparr>)"
| "file_loop (Chunk bytes # as) acc =
     (if bytes = [] then \<lparr>file_text = acc, file_error = 0\<rparr>
      else if length acc + length bytes > kMaxFile then \<lparr>file_text = [], file_error = efbig\<rparr>
      else file_loop as (acc @ bytes))"

definition Read_file :: "kernel \<Rightarrow> string \<Rightarrow> FileResult" where
  "Read_file k path =
     (case k_open k path of
        Inl err \<Rightarrow> \<lparr>file_text = [], file_error = err\<rparr>
      | Inr as \<Rightarrow> file_loop as [])"

definition directory_pid :: "string \<Rightarrow> int option" where
  "directory_pid name = (case Parse_int name of Some i \<Rightarrow> if i > 0 then Some i else None | None \<Rightarrow> None)"

definition list_pids :: "kernel \<Rightarrow> string \<Rightarrow> int list \<times> int" where
  "list_pids k path =
     (case k_dir k path of
        Inl err \<Rightarrow> ([], err)
      | Inr (names, err) \<Rightarrow> (List.map_filter directory_pid names, err))"

definition cgroup_identity :: "kernel \<Rightarrow> string \<Rightarrow> string" where
  "cgroup_identity k path =
     (case k_stat k path of
        None \<Rightarrow> []
      | Some (dev, ino) \<Rightarrow> show_nat (unat dev) @ '':'' @ show_nat (unat ino))"

text \<open>The object the collector reads through.\<close>

definition linux_source :: "ServerConfig \<Rightarrow> kernel \<Rightarrow> LinuxSource" where
  "linux_source c k =
     \<lparr>Proc = (\<lambda>relative. Read_file k (proc_root c @ ''/'' @ relative)),
      Sys = (\<lambda>relative. Read_file k (sys_root c @ ''/'' @ relative)),
      Cgroup_file = (\<lambda>relative. Read_file k (cgroup_path c @ ''/'' @ relative)),
      Pids = list_pids k (proc_root c),
      statvfs_of = k_statvfs k (mount_path c),
      CgroupIdentity = cgroup_identity k (cgroup_path c),
      strerror = k_strerror k\<rparr>"

section \<open>Reading a file\<close>

text \<open>The answers up to the end of the file, without the interruptions.\<close>

definition until_eof :: "read_answer list \<Rightarrow> read_answer list" where
  "until_eof as = filter (\<lambda>a. a \<noteq> Read_error eintr) (takeWhile (\<lambda>a. a \<noteq> Chunk []) as)"

definition chunk_bytes :: "read_answer list \<Rightarrow> string" where
  "chunk_bytes as = concat (map (\<lambda>a. case a of Chunk b \<Rightarrow> b | Read_error _ \<Rightarrow> []) as)"

definition failed :: "read_answer \<Rightarrow> bool" where
  "failed a \<longleftrightarrow> (case a of Chunk _ \<Rightarrow> False | Read_error _ \<Rightarrow> True)"

lemma file_loop_text: "length acc \<le> kMaxFile \<Longrightarrow> length (file_text (file_loop as acc)) \<le> kMaxFile"
  by (induction as acc rule: file_loop.induct) auto

lemma file_loop_cases:
  assumes "\<forall>err. Read_error err \<in> set as \<longrightarrow> err \<noteq> 0" "length acc \<le> kMaxFile"
  shows "if list_all (\<lambda>a. \<not> failed a) (until_eof as) \<and> length acc + length (chunk_bytes (until_eof as)) \<le> kMaxFile
    then file_loop as acc = \<lparr>file_text = acc @ chunk_bytes (until_eof as), file_error = 0\<rparr>
    else \<not> file_ok (file_loop as acc) \<and> file_text (file_loop as acc) = []"
  using assms
  by (induction as acc rule: file_loop.induct)
    (auto simp: until_eof_def chunk_bytes_def failed_def file_ok_def efbig_def eintr_def split: if_splits)

text \<open>
  C25: a file is read whole or not at all. Interrupted reads are repeated and do not change the
  result; without another error, a file of at most 8 MiB is the concatenation of what \<^verbatim>\<open>read\<close> returned
  before the end of the file; otherwise the result carries an error and no text, never a part of the file.
\<close>

theorem file_whole_or_nothing:
  assumes "k_open k path = Inr as" "\<forall>err. Read_error err \<in> set as \<longrightarrow> err \<noteq> 0"
  shows "if list_all (\<lambda>a. \<not> failed a) (until_eof as) \<and> length (chunk_bytes (until_eof as)) \<le> 8 * 1024 * 1024
    then Read_file k path = \<lparr>file_text = chunk_bytes (until_eof as), file_error = 0\<rparr>
    else \<not> file_ok (Read_file k path) \<and> file_text (Read_file k path) = []"
  using file_loop_cases [OF assms(2), of "[]"] assms(1) by (simp add: Read_file_def kMaxFile_def)

theorem file_whole_or_nothing_witness:
  "let k = \<lparr>k_open = (\<lambda>_. Inr [Chunk ''ab'', Read_error 4, Chunk ''c'', Chunk [], Chunk ''d'']), k_dir = (\<lambda>_. Inl 2),
       k_statvfs = (\<lambda>_. Inl 2), k_stat = (\<lambda>_. None), k_strerror = (\<lambda>_. [])\<rparr>
   in Read_file k ''x'' = \<lparr>file_text = ''abc'', file_error = 0\<rparr>"
proof -
  let ?as = "[Chunk ''ab'', Read_error 4, Chunk ''c'', Chunk [], Chunk ''d'']"
  let ?k = "\<lparr>k_open = (\<lambda>_. Inr ?as), k_dir = (\<lambda>_. Inl 2), k_statvfs = (\<lambda>_. Inl 2), k_stat = (\<lambda>_. None), k_strerror = (\<lambda>_. [])\<rparr>"
  have "list_all (\<lambda>a. \<not> failed a) (until_eof ?as)" "chunk_bytes (until_eof ?as) = ''abc''"
    by (simp_all add: until_eof_def chunk_bytes_def failed_def eintr_def)
  then show ?thesis using file_whole_or_nothing [of ?k "''x''" ?as] by simp
qed

text \<open>What the other components rely on: texts are bounded and process identifiers are positive.\<close>

lemma Read_file_text: "length (file_text (Read_file k path)) \<le> kMaxFile"
  using file_loop_text [of "[]"] by (cases "k_open k path") (simp_all add: Read_file_def)

lemma linux_source_text: "length (file_text (Proc (linux_source c k) p)) \<le> kMaxFile"
  using Read_file_text by (simp add: linux_source_def)

lemma Parse_int_bound: "Parse_int s = Some i \<Longrightarrow> i < 2 ^ 31"
  by (auto simp: Parse_int_def parsed_whole_def from_chars_signed_def Let_def split: if_splits list.splits)

lemma directory_pid_bound: "directory_pid name = Some i \<Longrightarrow> 0 < i \<and> i < 2 ^ 31"
  using Parse_int_bound [of name] by (auto simp: directory_pid_def split: option.splits if_splits)

lemma linux_source_pids: "i \<in> set (fst (Pids (linux_source c k))) \<Longrightarrow> 0 < i \<and> i < 2 ^ 31"
  using directory_pid_bound
  by (cases "k_dir k (proc_root c)") (fastforce simp: linux_source_def list_pids_def List.map_filter_def)+

end
