(* ===== verification/Collector_Status.thy ===== *)
theory Collector_Status
  imports Metrics_Collector
begin

text \<open>
  The contract of one collector, as \<open>Collect\<close> relies on it, and what follows for a whole snapshot:
  whatever the files hold and whichever of them cannot be read, each collector reports its own status and leaves
  the sections of the others alone.
\<close>

definition known_states :: "string set" where
  "known_states = {''ok'', ''warming_up'', ''partial'', ''unavailable''}"

abbreviation statuses :: "SystemSnapshot \<Rightarrow> SampleStatus list" where
  "statuses s \<equiv> collectors (telemetry s)"

abbreviation sections :: "SystemSnapshot \<Rightarrow> CPUMetrics \<times> MemoryMetrics \<times> DiskMetrics \<times> NetworkMetrics \<times> LoadavgMetrics \<times> ProcessMetrics" where
  "sections s \<equiv> (cpu s, memory s, disk s, network s, loadavg s, process s)"

text \<open>Only the state of the last status may change, and only to a known one.\<close>

definition status_only :: "SystemSnapshot \<Rightarrow> SystemSnapshot \<Rightarrow> bool" where
  "status_only s s' \<longleftrightarrow>
     (\<exists>st \<in> known_states. statuses s' = statuses s \<or> statuses s' = set_last (\<lambda>x. x\<lparr>ss_state := st\<rparr>) (statuses s)) \<and>
     timestamp s' = timestamp s \<and> interval_ms (telemetry s') = interval_ms (telemetry s) \<and>
     instance_id (telemetry s') = instance_id (telemetry s)"

lemma status_only_refl [simp]: "status_only s s"
  by (auto simp: status_only_def known_states_def)

lemma set_last_twice [simp]: "set_last f (set_last g xs) = set_last (f \<circ> g) xs"
  by (simp add: set_last_def)

lemma status_only_trans: "status_only s s1 \<Longrightarrow> status_only s1 s2 \<Longrightarrow> status_only s s2"
  by (auto simp: status_only_def comp_def)

lemma status_only_State: "st \<in> known_states \<Longrightarrow> status_only s (State s st)"
  by (auto simp: status_only_def State_def upd_status_def)

lemma status_onlyI:
  "statuses s' = statuses s \<Longrightarrow> timestamp s' = timestamp s \<Longrightarrow> interval_ms (telemetry s') = interval_ms (telemetry s) \<Longrightarrow>
   instance_id (telemetry s') = instance_id (telemetry s) \<Longrightarrow> status_only s s'"
  by (auto simp: status_only_def known_states_def)

lemma status_only_after: "st \<in> known_states \<Longrightarrow> status_only s s1 \<Longrightarrow> status_only s (State s1 st)"
  by (rule status_only_trans [OF _ status_only_State])

text \<open>The sections play no role in \<open>status_only\<close>.\<close>

lemma status_only_sections [simp]:
  "status_only (s\<lparr>cpu := a\<rparr>) t = status_only s t" "status_only s (t\<lparr>cpu := a\<rparr>) = status_only s t"
  "status_only (s\<lparr>memory := b\<rparr>) t = status_only s t" "status_only s (t\<lparr>memory := b\<rparr>) = status_only s t"
  "status_only (s\<lparr>disk := c\<rparr>) t = status_only s t" "status_only s (t\<lparr>disk := c\<rparr>) = status_only s t"
  "status_only (s\<lparr>network := d\<rparr>) t = status_only s t" "status_only s (t\<lparr>network := d\<rparr>) = status_only s t"
  "status_only (s\<lparr>loadavg := e\<rparr>) t = status_only s t" "status_only s (t\<lparr>loadavg := e\<rparr>) = status_only s t"
  "status_only (s\<lparr>process := f\<rparr>) t = status_only s t" "status_only s (t\<lparr>process := f\<rparr>) = status_only s t"
  by (simp_all add: status_only_def)

lemma State_sections [simp]:
  "cpu (State s st) = cpu s" "memory (State s st) = memory s" "disk (State s st) = disk s" "network (State s st) = network s"
  "loadavg (State s st) = loadavg s" "process (State s st) = process s" "timestamp (State s st) = timestamp s"
  "interfaces (telemetry (State s st)) = interfaces (telemetry s)" "disks (telemetry (State s st)) = disks (telemetry s)"
  "pressure (telemetry (State s st)) = pressure (telemetry s)" "cgroup (telemetry (State s st)) = cgroup (telemetry s)"
  by (simp_all add: State_def upd_status_def)

lemma known [simp]:
  "''ok'' \<in> known_states" "''warming_up'' \<in> known_states" "''partial'' \<in> known_states" "''unavailable'' \<in> known_states"
  by (simp_all add: known_states_def)

section \<open>The contract\<close>

locale collector_action =
  fixes action :: "MetricsCollector \<Rightarrow> SystemSnapshot \<Rightarrow> outcome"
  assumes reports: "action m s = (x, m', s') \<Longrightarrow> status_only s s'"
    and settings: "action m s = (x, m', s') \<Longrightarrow> mc_config m' = mc_config m \<and> mc_seconds m' = mc_seconds m"
begin

lemma collect_status:
  assumes "collect dur name action (m, s) = (m', s')"
  shows "\<exists>st \<in> known_states. \<exists>err. statuses s' = statuses s @ [\<lparr>ss_name = name, ss_state = st, ss_error = err, ss_duration_us = dur name\<rparr>]"
    and "mc_config m' = mc_config m" "mc_seconds m' = mc_seconds m"
    and "timestamp s' = timestamp s" "interval_ms (telemetry s') = interval_ms (telemetry s)" "instance_id (telemetry s') = instance_id (telemetry s)"
proof -
  let ?st = "\<lparr>ss_name = name, ss_state = ''ok'', ss_error = [], ss_duration_us = 0\<rparr>"
  let ?s1 = "s\<lparr>telemetry := (telemetry s)\<lparr>collectors := statuses s @ [?st]\<rparr>\<rparr>"
  obtain x m1 s2 where a: "action m ?s1 = (x, m1, s2)" by (metis prod_cases3)
  note r = reports [OF a] and f = settings [OF a]
  have c: "m' = m1" "s' = upd_status (\<lambda>x. x\<lparr>ss_duration_us := dur name\<rparr>)
      (case x of None \<Rightarrow> s2 | Some what \<Rightarrow> upd_status (\<lambda>x. x\<lparr>ss_state := ''unavailable'', ss_error := what\<rparr>) s2)"
    using assms a by (auto simp: collect_def Let_def)
  obtain st where "st \<in> known_states" "statuses s2 = statuses s @ [?st\<lparr>ss_state := st\<rparr>]"
    using r by (auto simp: status_only_def set_last_def intro: that [of "''ok''"])
  then show "\<exists>st \<in> known_states. \<exists>err. statuses s' = statuses s @ [\<lparr>ss_name = name, ss_state = st, ss_error = err, ss_duration_us = dur name\<rparr>]"
    by (cases x) (auto simp: c upd_status_def set_last_def)
  show "mc_config m' = mc_config m" "mc_seconds m' = mc_seconds m" using f c(1) by simp_all
  show "timestamp s' = timestamp s" "interval_ms (telemetry s') = interval_ms (telemetry s)" "instance_id (telemetry s') = instance_id (telemetry s)"
    using r by (cases x; simp add: c upd_status_def status_only_def)+
qed

text \<open>The sections and the members come from the action, which runs on the same sections.\<close>

lemma collect_outcome:
  assumes "collect dur name action (m, s) = (m', s')"
  obtains x t s2 where "action m (s\<lparr>telemetry := t\<rparr>) = (x, m', s2)" "sections s' = sections s2"
proof -
  let ?t = "(telemetry s)\<lparr>collectors := statuses s @ [\<lparr>ss_name = name, ss_state = ''ok'', ss_error = [], ss_duration_us = 0\<rparr>]\<rparr>"
  obtain x m1 s2 where a: "action m (s\<lparr>telemetry := ?t\<rparr>) = (x, m1, s2)" by (metis prod_cases3)
  have "m' = m1" "sections s' = sections s2" using assms a by (cases x; auto simp: collect_def Let_def upd_status_def)+
  with a show thesis using that by blast
qed

end

section \<open>The collectors keep it\<close>

lemma cpu_loop_status:
  "cpu_loop prev xs valid s = (v, s') \<Longrightarrow> status_only s s'"
proof (induction prev xs valid s rule: cpu_loop.induct)
  case (2 prev i ts more_cpus valid s)
  show ?case
    by (rule status_only_trans [OF _ "2.IH"]) (use "2.prems" in \<open>auto simp: Let_def intro!: status_onlyI\<close>)
qed simp

lemma process_loop_status: "process_loop src stop m n is nxt s = (nxt', s') \<Longrightarrow> status_only s s'"
proof (induction src stop m n "is" nxt s rule: process_loop.induct)
  case (2 src stop m n i "is" nxt s)
  have 1: "status_only s (s\<lparr>telemetry := count_error k (telemetry s)\<rparr>)" for k
    by (rule status_onlyI) (simp_all add: count_error_def)
  have 2: "status_only s (add_process m p s)" for p
    by (rule status_onlyI) (simp_all add: add_process_def Let_def)
  show ?case
    using "2.prems" "2.IH"(1) [THEN status_only_trans [OF 1]] "2.IH"(2) [THEN status_only_trans [OF 1]]
      "2.IH"(3) [THEN status_only_trans [OF 1]] "2.IH"(4) [THEN status_only_trans [OF 2]]
    by (auto simp: Let_def status_only_State split: if_splits option.splits)
qed simp

lemma net_loop_status: "net_loop src m ls valid nxt s = (v, nxt', s') \<Longrightarrow> status_only s s'"
proof (induction src m ls valid nxt s rule: net_loop.induct)
  case (2 src m line ls valid nxt s)
  have 1: "status_only s (add_interface i s)" for i
    by (rule status_onlyI) (simp_all add: add_interface_def Let_def)
  show ?case
    using "2.prems" "2.IH"(1,2,3) "2.IH"(4) [THEN status_only_trans [OF 1]]
    by (auto simp: Let_def split: if_splits option.splits prod.splits)
qed simp

lemma disk_loop_status: "disk_loop m ls nxt s = (nxt', s') \<Longrightarrow> status_only s s'"
proof (induction m ls nxt s rule: disk_loop.induct)
  case (2 m line ls nxt s)
  have 1: "status_only s (s\<lparr>telemetry := (telemetry s)\<lparr>disks := ds\<rparr>\<rparr>)" for ds by (rule status_onlyI) simp_all
  show ?case
    using "2.prems" "2.IH"(1) "2.IH"(2) [THEN status_only_trans [OF status_only_State [OF known(3)]]]
      "2.IH"(3) [THEN status_only_trans [OF 1]]
    by (auto simp: Let_def split: if_splits option.splits)
qed simp

lemmas loop_status = cpu_loop_status process_loop_status net_loop_status disk_loop_status

interpretation cpu_action: collector_action "Cpu src"
  by unfold_locales
    (auto simp: Cpu_def Let_def dest!: loop_status intro!: status_only_after split: if_splits prod.splits)

interpretation memory_action: collector_action "Memory src"
  by unfold_locales (auto simp: Memory_def Let_def split: if_splits option.splits)

lemma status_only_truncated [simp]:
  "status_only s (t\<lparr>process := q, telemetry := (telemetry t)\<lparr>processes_truncated := b\<rparr>\<rparr>) = status_only s t"
  "status_only s (t\<lparr>telemetry := (telemetry t)\<lparr>pressure := p\<rparr>\<rparr>) = status_only s t"
  "status_only s (upd_cgroup f t) = status_only s t"
  by (simp_all add: status_only_def upd_cgroup_def)

interpretation processes_action: collector_action "Processes src stop"
  by unfold_locales
    (auto simp: Processes_def Let_def dest!: loop_status intro!: status_only_after split: if_splits prod.splits)

interpretation network_action: collector_action "Network src"
  by unfold_locales
    (auto simp: Network_def Let_def dest!: loop_status intro!: status_only_after split: if_splits prod.splits)

interpretation disk_action: collector_action "Disk src"
  by unfold_locales
    (auto simp: Disk_def Let_def dest!: loop_status intro!: status_only_after split: if_splits prod.splits)

interpretation filesystem_action: collector_action "Filesystem src"
  by unfold_locales (auto simp: Filesystem_def Let_def split: sum.splits)

interpretation load_action: collector_action "Load src"
  by unfold_locales (auto simp: Load_def Let_def split: if_splits prod.splits)

interpretation pressure_action: collector_action "Pressure src"
  by unfold_locales (auto simp: Pressure_def Let_def intro!: status_only_after split: if_splits)

interpretation cgroup_action: collector_action "Cgroup src"
  by unfold_locales
    (auto simp: Cgroup_def cg_stat_def Let_def intro!: status_only_after split: if_splits prod.splits)

section \<open>A whole snapshot\<close>

text \<open>The collectors in the order they run, as a chain of states.\<close>

lemma Collect_chain:
  obtains m1 s1 m2 s2 m3 s3 m4 s4 m5 s5 m6 s6 m7 s7 m8 s8 m9 s9 where
    "collect (duration_us_of k) ''cpu'' (Cpu src) (m\<lparr>mc_seconds := elapsed_seconds (steady_now k) (previous_time m)\<rparr>, start_snapshot k m) = (m1, s1)"
    "collect (duration_us_of k) ''memory'' (Memory src) (m1, s1) = (m2, s2)"
    "collect (duration_us_of k) ''processes'' (Processes src (stop_requested k)) (m2, s2) = (m3, s3)"
    "collect (duration_us_of k) ''network'' (Network src) (m3, s3) = (m4, s4)"
    "collect (duration_us_of k) ''disk_io'' (Disk src) (m4, s4) = (m5, s5)"
    "collect (duration_us_of k) ''filesystem'' (Filesystem src) (m5, s5) = (m6, s6)"
    "collect (duration_us_of k) ''load'' (Load src) (m6, s6) = (m7, s7)"
    "collect (duration_us_of k) ''psi'' (Pressure src) (m7, s7) = (m8, s8)"
    "(if cgroup_path (mc_config m) \<noteq> [] then collect (duration_us_of k) ''cgroup'' (Cgroup src) (m8, s8) else (m8, s8)) = (m9, s9)"
    "Collect src k m = (m9\<lparr>previous_time := Some (steady_now k)\<rparr>,
       s9\<lparr>telemetry := (telemetry s9)\<lparr>collection_finished_at := finished_ms k, collection_us := whole_us k\<rparr>\<rparr>)"
proof -
  let ?c = "collect (duration_us_of k)"
  obtain m1 s1 where 1: "?c ''cpu'' (Cpu src) (m\<lparr>mc_seconds := elapsed_seconds (steady_now k) (previous_time m)\<rparr>, start_snapshot k m) = (m1, s1)"
    by fastforce
  obtain m2 s2 where 2: "?c ''memory'' (Memory src) (m1, s1) = (m2, s2)" by fastforce
  obtain m3 s3 where 3: "?c ''processes'' (Processes src (stop_requested k)) (m2, s2) = (m3, s3)" by fastforce
  obtain m4 s4 where 4: "?c ''network'' (Network src) (m3, s3) = (m4, s4)" by fastforce
  obtain m5 s5 where 5: "?c ''disk_io'' (Disk src) (m4, s4) = (m5, s5)" by fastforce
  obtain m6 s6 where 6: "?c ''filesystem'' (Filesystem src) (m5, s5) = (m6, s6)" by fastforce
  obtain m7 s7 where 7: "?c ''load'' (Load src) (m6, s6) = (m7, s7)" by fastforce
  obtain m8 s8 where 8: "?c ''psi'' (Pressure src) (m7, s7) = (m8, s8)" by fastforce
  obtain m9 s9 where 9: "(if cgroup_path (mc_config m) \<noteq> [] then ?c ''cgroup'' (Cgroup src) (m8, s8) else (m8, s8)) = (m9, s9)"
    by fastforce
  show thesis by (rule that [OF 1 2 3 4 5 6 7 8 9]) (simp only: Collect_def Let_def 1 2 3 4 5 6 7 8 9 prod.case)
qed

definition core_names :: "string list" where
  "core_names = [''cpu'', ''memory'', ''processes'', ''network'', ''disk_io'', ''filesystem'', ''load'', ''psi'']"

definition collector_names :: "ServerConfig \<Rightarrow> string list" where
  "collector_names c = core_names @ (if cgroup_path c \<noteq> [] then [''cgroup''] else [])"

text \<open>
  C22: one bad source never spoils the snapshot. Whatever the files hold, however many of them
  cannot be read or parsed, the snapshot carries one status per collector, in order, with its name,
  its measured duration and one of the four documented states.
\<close>

theorem every_collector_reports:
  "list_all2 (\<lambda>name st. ss_name st = name \<and> ss_state st \<in> {''ok'', ''warming_up'', ''partial'', ''unavailable''} \<and>
       ss_duration_us st = duration_us_of k name)
     (collector_names (mc_config m)) (statuses (snd (Collect src k m)))"
proof -
  obtain m1 s1 m2 s2 m3 s3 m4 s4 m5 s5 m6 s6 m7 s7 m8 s8 m9 s9 where chain:
    "collect (duration_us_of k) ''cpu'' (Cpu src) (m\<lparr>mc_seconds := elapsed_seconds (steady_now k) (previous_time m)\<rparr>, start_snapshot k m) = (m1, s1)"
    "collect (duration_us_of k) ''memory'' (Memory src) (m1, s1) = (m2, s2)"
    "collect (duration_us_of k) ''processes'' (Processes src (stop_requested k)) (m2, s2) = (m3, s3)"
    "collect (duration_us_of k) ''network'' (Network src) (m3, s3) = (m4, s4)"
    "collect (duration_us_of k) ''disk_io'' (Disk src) (m4, s4) = (m5, s5)"
    "collect (duration_us_of k) ''filesystem'' (Filesystem src) (m5, s5) = (m6, s6)"
    "collect (duration_us_of k) ''load'' (Load src) (m6, s6) = (m7, s7)"
    "collect (duration_us_of k) ''psi'' (Pressure src) (m7, s7) = (m8, s8)"
    "(if cgroup_path (mc_config m) \<noteq> [] then collect (duration_us_of k) ''cgroup'' (Cgroup src) (m8, s8) else (m8, s8)) = (m9, s9)"
    "statuses (snd (Collect src k m)) = statuses s9"
    by (rule Collect_chain [of k src m]) simp
  have "statuses (start_snapshot k m) = []" by (simp add: start_snapshot_def default_telemetry_def)
  with cpu_action.collect_status(1) [OF chain(1)] memory_action.collect_status(1) [OF chain(2)]
    processes_action.collect_status(1) [OF chain(3)] network_action.collect_status(1) [OF chain(4)]
    disk_action.collect_status(1) [OF chain(5)] filesystem_action.collect_status(1) [OF chain(6)]
    load_action.collect_status(1) [OF chain(7)] pressure_action.collect_status(1) [OF chain(8)]
  have s8: "list_all2 (\<lambda>name st. ss_name st = name \<and> ss_state st \<in> known_states \<and> ss_duration_us st = duration_us_of k name)
      core_names (statuses s8)"
    by (auto simp: core_names_def)
  show ?thesis
    using s8 chain(9,10) cgroup_action.collect_status(1) [of "duration_us_of k" "''cgroup''" src m8 s8 m9 s9]
    by (auto simp: collector_names_def known_states_def [symmetric] intro!: list_all2_appendI split: if_splits)
qed

end
