(* ===== verification/Collector_Valid.thy ===== *)
theory Collector_Valid
  imports Collector_Status "HOL-Library.Multiset" "HOL-Library.Product_Lexorder"
begin

text \<open>
  What the collectors put into a snapshot: the published process list is the top of the whole list,
  and every number is in the range that the client demands of a snapshot.
\<close>

section \<open>The process list\<close>

text \<open>The order of importance: a larger CPU share first, then more memory, then the smaller identifier.\<close>

definition rank :: "ProcessInfo \<Rightarrow> rat \<times> int \<times> int" where
  "rank p = (- dval (cpu_percent p), - uint (memory_bytes p), sint (pid p))"

lemma better_rank:
  "isfinite (cpu_percent a) \<Longrightarrow> isfinite (cpu_percent b) \<Longrightarrow> better a b \<longleftrightarrow> rank a < rank b"
  by (cases "cpu_percent a"; cases "cpu_percent b")
    (auto simp: better_def rank_def less_prod_def' word_less_def word_uint_eq_iff)

lemma mset_insert_process: "mset (insert_process p qs) = add_mset p (mset qs)"
  by (induction qs) auto

lemma set_insert_process [simp]: "set (insert_process p qs) = insert p (set qs)"
  using mset_insert_process [of p qs] by (metis set_mset_add_mset_insert set_mset_mset)

lemma sorted_insert_process:
  "\<forall>q \<in> set (p # qs). isfinite (cpu_percent q) \<Longrightarrow> sorted (map rank qs) \<Longrightarrow> sorted (map rank (insert_process p qs))"
  by (induction qs) (auto simp: better_rank)

lemma sort_facts:
  assumes "\<forall>q \<in> set ps. isfinite (cpu_percent q)"
  shows "mset (foldr insert_process ps []) = mset ps \<and> sorted (map rank (foldr insert_process ps []))"
  using assms
proof (induction ps)
  case (Cons p ps)
  then have "mset (foldr insert_process ps []) = mset ps" by simp
  then have "set (foldr insert_process ps []) = set ps" by (metis set_mset_mset)
  with Cons show ?case by (simp add: mset_insert_process sorted_insert_process)
qed simp



section \<open>Bounds of doubles\<close>

definition dbl_le :: "double \<Rightarrow> rat \<Rightarrow> bool" where
  "dbl_le d b \<longleftrightarrow> (\<exists>a. d = Finite False a \<and> 0 \<le> a \<and> a \<le> b)"

lemma dbl_le_mono: "dbl_le d b \<Longrightarrow> b \<le> c \<Longrightarrow> dbl_le d c"
  by (auto simp: dbl_le_def intro: order.trans)

lemma dbl_le_rate: "dbl_le d b \<Longrightarrow> rate_valid d"
  by (auto simp: dbl_le_def rate_valid_def)

lemma dbl_le_zero [simp]: "0 \<le> b \<Longrightarrow> dbl_le dzero b"
  by (simp add: dbl_le_def)

lemma representable_scaled: "m < 2 ^ 53 \<Longrightarrow> of_nat m * 2 ^ k < (2 :: rat) ^ 1024 \<Longrightarrow> representable (of_nat m * 2 ^ k)"
  unfolding representable_def by (intro conjI exI [of _ "int m"] exI [of _ "int k"]) auto

lemma to_double_le:
  assumes "0 \<le> q" "q \<le> of_nat m * 2 ^ k" "m < 2 ^ 53" "k \<le> 900"
  shows "dbl_le (to_double False q) (of_nat m * 2 ^ k)"
proof -
  have "(of_nat m :: rat) \<le> 2 ^ 53" using assms(3) by (metis less_imp_le of_nat_le_iff of_nat_numeral of_nat_power)
  moreover have "(2 :: rat) ^ k \<le> 2 ^ 900" using assms(4) by (rule power_increasing) simp
  ultimately have "(of_nat m :: rat) * 2 ^ k \<le> 2 ^ 53 * 2 ^ 900" by (intro mult_mono) simp_all
  also have "(2 ^ 53 * 2 ^ 900 :: rat) < 2 ^ 1024" by (simp only: power_add [symmetric]) (rule power_strict_increasing; simp)
  finally have small: "(of_nat m :: rat) * 2 ^ k < 2 ^ 1024" .
  have "round_mag q \<le> of_nat m * 2 ^ k"
    using round_mag_mono [OF assms(1,2)] round_mag_representable [OF representable_scaled [OF assms(3) small]] by simp
  with small round_mag_nonneg [OF assms(1)] show ?thesis by (auto simp: to_double_def dbl_le_def)
qed

lemma to_double_le_pow: "0 \<le> q \<Longrightarrow> q \<le> 2 ^ k \<Longrightarrow> k \<le> 900 \<Longrightarrow> dbl_le (to_double False q) (2 ^ k)"
  using to_double_le [of q 1 k] by simp

lemma of_nat_double_le: "n \<le> 2 ^ k \<Longrightarrow> k \<le> 900 \<Longrightarrow> dbl_le (of_nat_double n) (2 ^ k)"
  unfolding of_nat_double_def using of_nat_le_iff [where 'a = rat, of n "2 ^ k"] by (intro to_double_le_pow) simp_all

lemma dmul_le:
  assumes "dbl_le x (2 ^ i)" "dbl_le y (2 ^ j)" "i + j \<le> 900"
  shows "dbl_le (dmul x y) (2 ^ (i + j))"
proof -
  obtain a b where ab: "x = Finite False a" "0 \<le> a" "a \<le> 2 ^ i" "y = Finite False b" "0 \<le> b" "b \<le> 2 ^ j"
    using assms(1,2) by (auto simp: dbl_le_def)
  then have "a * b \<le> 2 ^ (i + j)" unfolding power_add by (intro mult_mono) simp_all
  with ab assms(3) show ?thesis using to_double_le_pow [of "a * b" "i + j"] by simp
qed

lemma ddiv_le:
  assumes "dbl_le x (2 ^ i)" "y = Finite False b" "1 \<le> b * 2 ^ j" "i + j \<le> 900"
  shows "dbl_le (ddiv x y) (2 ^ (i + j))"
proof -
  obtain a where a: "x = Finite False a" "0 \<le> a" "a \<le> 2 ^ i" using assms(1) by (auto simp: dbl_le_def)
  have b: "0 < b" using assms(3) by (metis mult_nonpos_nonneg not_le order_trans zero_le_numeral zero_le_power zero_less_one leD)
  have "a \<le> 2 ^ i * (b * 2 ^ j)" using a(3) assms(3) mult_mono [of a "2 ^ i" 1 "b * 2 ^ j"] a(2) by simp
  then have "a / b \<le> 2 ^ (i + j)" using b by (simp add: divide_simps power_add mult_ac)
  with a b assms(2,4) show ?thesis using to_double_le_pow [of "a / b" "i + j"] by simp
qed

section \<open>Rates\<close>

text \<open>A positive time between two samples is at least a nanosecond.\<close>

lemma round_mag_ge_one: "1 \<le> q \<Longrightarrow> 1 \<le> round_mag q"
  using round_mag_mono [of 1 q] round_mag_nat [of 1] by simp

lemma elapsed_at_least:
  assumes "\<not> dle (elapsed_seconds t prev) dzero" "isfinite (elapsed_seconds t prev)"
  shows "\<exists>b. elapsed_seconds t prev = Finite False b \<and> 1 \<le> b * 2 ^ 30"
proof -
  obtain p where p: "prev = Some p" using assms(1) by (cases prev) (auto simp: elapsed_seconds_def)
  let ?n = "of_int (t - p) :: rat"
  have pos: "0 < t - p"
  proof (rule ccontr)
    assume "\<not> 0 < t - p"
    then have "?n \<le> 0" by simp
    then have "dle (ddiv (of_int_double (t - p)) (Finite False 1000000000)) dzero \<or> \<not> isfinite (ddiv (of_int_double (t - p)) (Finite False 1000000000))"
      using round_mag_nonneg [of "\<bar>?n\<bar>"] round_mag_nonneg [of "round_mag \<bar>?n\<bar> / 1000000000"]
      by (cases "?n = 0") (auto simp: of_int_double_def of_signed_def to_double_def round_mag_def)
    with assms p show False by (simp add: elapsed_seconds_def)
  qed
  then have one: "1 \<le> ?n" by simp
  have fin: "of_int_double (t - p) = Finite False (round_mag ?n)"
    using assms(2) p one by (auto simp: elapsed_seconds_def of_int_double_def of_signed_def to_double_def split: if_splits)
  let ?q = "round_mag ?n / 1000000000"
  have "1 / 2 ^ 30 \<le> ?q" using round_mag_ge_one [OF one] by (simp add: divide_simps)
  moreover have "representable (1 / 2 ^ 30)"
    unfolding representable_def
    by (intro conjI exI [of _ 1] exI [of _ "- 30"]) (simp_all add: power_int_minus divide_simps)
  ultimately have "1 / 2 ^ 30 \<le> round_mag ?q"
    using round_mag_mono [of "1 / 2 ^ 30" ?q] round_mag_representable [of "1 / 2 ^ 30"] by simp
  then have "1 \<le> round_mag ?q * 2 ^ 30" by (simp add: divide_simps)
  moreover have "elapsed_seconds t prev = Finite False (round_mag ?q)"
    using assms(2) p fin by (auto simp: elapsed_seconds_def to_double_def split: if_splits)
  ultimately show ?thesis by blast
qed

lemma unat_u64: "unat (w :: u64) < 2 ^ 64"
  using unsigned_less [of w] by simp

lemma u64_double_le: "dbl_le (of_nat_double (unat (w :: u64))) (2 ^ 64)"
proof -
  have "unat w \<le> 2 ^ 64" using unat_u64 [of w] by simp
  then show ?thesis by (rule of_nat_double_le) simp
qed

lemma CounterRate_le:
  assumes "CounterRate n p (elapsed_seconds t prev) = Some r"
  shows "dbl_le r (2 ^ 94)"
proof -
  have "\<not> dle (elapsed_seconds t prev) dzero" "isfinite (elapsed_seconds t prev)"
    and r: "r = ddiv (of_nat_double (unat (n - p))) (elapsed_seconds t prev)"
    using assms by (auto simp: CounterRate_def split: if_splits)
  then obtain b where "elapsed_seconds t prev = Finite False b" "1 \<le> b * 2 ^ 30" using elapsed_at_least by blast
  with ddiv_le [OF u64_double_le, of "elapsed_seconds t prev" b 30] r show ?thesis by simp
qed

text \<open>A whole number of at least one, as a divisor.\<close>

lemma of_int_divisor:
  assumes "1 \<le> i" "i < 2 ^ 64"
  shows "\<exists>b. of_int_double i = Finite False b \<and> 1 \<le> b * 2 ^ 0"
proof -
  have q: "(1 :: rat) \<le> of_int i" "(of_int i :: rat) \<le> 2 ^ 64"
    using assms of_int_le_iff [where 'a = rat, of i "2 ^ 64"] by simp_all
  then obtain a where "to_double False (of_int i) = Finite False a"
    using to_double_le_pow [of "of_int i" 64] by (auto simp: dbl_le_def)
  with q(1) round_mag_ge_one [OF q(1)] show ?thesis
    by (auto simp: of_int_double_def of_signed_def to_double_def split: if_splits)
qed

lemma hundred_le: "dbl_le hundred (2 ^ 7)"
  by (simp add: dbl_le_def hundred_def)

lemma percent_u64_rate: "w \<noteq> 0 \<Longrightarrow> rate_valid (percent_u64 v w)"
proof -
  assume "w \<noteq> 0"
  then have "0 < unat w" by (simp add: unat_gt_0)
  then have "1 \<le> int (unat w)" by linarith
  moreover have "int (unat w) < 2 ^ 64" using unat_u64 [of w] by (simp del: of_nat_unat)
  ultimately obtain b where "of_int_double (int (unat w)) = Finite False b" "1 \<le> b * 2 ^ 0" using of_int_divisor by blast
  moreover have conv: "of_int_double (int n) = of_nat_double n" for n
    by (simp add: of_int_double_def of_nat_double_def of_signed_def)
  moreover have "dbl_le (dmul hundred (of_nat_double (unat v))) (2 ^ (7 + 64))" by (rule dmul_le [OF hundred_le u64_double_le]) simp
  ultimately have "dbl_le (percent_u64 v w) (2 ^ (7 + 64 + 0))"
    unfolding percent_u64_def conv [symmetric] by (intro ddiv_le) simp_all
  then show ?thesis by (rule dbl_le_rate)
qed

section \<open>CPU section\<close>

definition sample_shape :: "CpuSample \<Rightarrow> bool" where
  "sample_shape m \<longleftrightarrow> sorted_wrt (<) (map fst m) \<and> (\<forall>(i, ts) \<in> set m. length ts = 8)"

lemma cpu_fields_length: "cpu_fields n line = Some ts \<Longrightarrow> length ts = n"
  by (induction n arbitrary: line ts) (auto simp: Let_def split: prod.splits if_splits option.splits)

lemma set_map_emplace: "set (map_emplace k v m) \<subseteq> insert (k, v) (set m)"
  by (induction m rule: map_emplace.induct) auto

lemma sorted_map_emplace: "sorted_wrt (<) (map fst m) \<Longrightarrow> sorted_wrt (<) (map fst (map_emplace k v m))"
proof (induction k v m rule: map_emplace.induct)
  case (2 k v l w m)
  then have "\<forall>x \<in> set (map fst (map_emplace k v m)). x = k \<or> l < x"
    using set_map_emplace [of k v m] by fastforce
  with 2 show ?case by (auto dest: order.strict_trans)
qed simp

lemma sample_shape_emplace: "sample_shape m \<Longrightarrow> length ts = 8 \<Longrightarrow> sample_shape (map_emplace i ts m)"
  using set_map_emplace [of i ts m] sorted_map_emplace [of m i ts] by (auto simp: sample_shape_def)

lemma sample_shape_ParseCpu: "sample_shape (ParseCpu s)"
proof -
  have "sample_shape m \<Longrightarrow> sample_shape (cpu_lines s m)" for s m
    by (induction s m rule: cpu_lines.induct)
      (subst cpu_lines.simps,
       auto simp: cpu_line_def Let_def sample_shape_emplace cpu_fields_length split: prod.splits option.splits)
  from this [of "[]" s] show ?thesis unfolding ParseCpu_def by (simp add: sample_shape_def)
qed

lemma sorted_one_key:
  fixes m :: "('k::linorder \<times> 'v) list"
  assumes "sorted_wrt (<) (map fst m)" "map_of m k \<noteq> None"
  shows "length (filter (\<lambda>(i, ts). i \<noteq> k) m) = length m - 1"
  using assms
proof (induction m)
  case (Cons p m)
  obtain i ts where p: "p = (i, ts)" by fastforce
  show ?case
  proof (cases "i = k")
    case True
    with Cons.prems p have above: "\<forall>x \<in> set m. k < fst x" by simp
    have "case x of (i, ts) \<Rightarrow> i \<noteq> k" if "x \<in> set m" for x using bspec [OF above that] by (cases x) auto
    then have "filter (\<lambda>(i, ts). i \<noteq> k) m = m" by (intro filter_True) blast
    with True p show ?thesis by simp
  next
    case False
    with Cons p have "length (filter (\<lambda>(i, ts). i \<noteq> k) m) = length m - 1" "m \<noteq> []" by auto
    with False p show ?thesis by (cases m) auto
  qed
qed simp

definition usage_of :: "CpuSample \<Rightarrow> int \<times> CpuTimes \<Rightarrow> double" where
  "usage_of prev = (\<lambda>(i, ts). value_or_zero (case map_of prev i of None \<Rightarrow> None | Some old \<Rightarrow> CpuUsage ts old))"

lemma cpu_loop_section:
  assumes "cpu_loop prev xs valid s = (v, s')" "\<forall>x \<in> set xs. percent_valid (usage_of prev x)" "percent_valid (total_usage_percent (cpu s))"
  shows "per_core_usage_percent (cpu s') = per_core_usage_percent (cpu s) @ map (usage_of prev) (filter (\<lambda>(i, ts). i \<noteq> - 1) xs)"
    and "percent_valid (total_usage_percent (cpu s'))" "core_count (cpu s') = core_count (cpu s)"
    and "memory s' = memory s" "disk s' = disk s" "network s' = network s" "loadavg s' = loadavg s" "process s' = process s"
proof -
  have "per_core_usage_percent (cpu s') = per_core_usage_percent (cpu s) @ map (usage_of prev) (filter (\<lambda>(i, ts). i \<noteq> - 1) xs) \<and>
    percent_valid (total_usage_percent (cpu s')) \<and> core_count (cpu s') = core_count (cpu s) \<and>
    memory s' = memory s \<and> disk s' = disk s \<and> network s' = network s \<and> loadavg s' = loadavg s \<and> process s' = process s"
    using assms
  proof (induction prev xs valid s rule: cpu_loop.induct)
    case (2 prev i ts more_cpus valid s)
    let ?s = "if i = - 1 then s\<lparr>cpu := (cpu s)\<lparr>total_usage_percent := usage_of prev (i, ts)\<rparr>\<rparr>
        else s\<lparr>telemetry := (telemetry s)\<lparr>cpu_ids := cpu_ids (telemetry s) @ [of_int i]\<rparr>,
               cpu := (cpu s)\<lparr>per_core_usage_percent := per_core_usage_percent (cpu s) @ [usage_of prev (i, ts)]\<rparr>\<rparr>"
    have "percent_valid (total_usage_percent (cpu ?s))" using "2.prems"(2,3) by auto
    with "2.IH" [OF refl refl] "2.prems" show ?case by (auto simp: Let_def usage_of_def split: if_splits)
  qed simp
  then show "per_core_usage_percent (cpu s') = per_core_usage_percent (cpu s) @ map (usage_of prev) (filter (\<lambda>(i, ts). i \<noteq> - 1) xs)"
    and "percent_valid (total_usage_percent (cpu s'))" "core_count (cpu s') = core_count (cpu s)"
    and "memory s' = memory s" "disk s' = disk s" "network s' = network s" "loadavg s' = loadavg s" "process s' = process s"
    by simp_all
qed

lemma percent_valid_zero [simp]: "percent_valid dzero"
  by (simp add: percent_valid_def percent_in_range_def hundred_def)

lemma usage_valid:
  assumes "sample_shape prev" "length ts = 8" "\<forall>t \<in> set ts. unat t < 2 ^ 43"
  shows "percent_valid (usage_of prev (i, ts))"
proof (cases "map_of prev i")
  case None
  then show ?thesis by (simp add: usage_of_def value_or_zero_def)
next
  case (Some old)
  then have len: "length old = 8" using assms(1) by (auto simp: sample_shape_def dest: map_of_SomeD)
  have "sum_list (deltas ts old) \<le> sum_list (map (\<lambda>_. 2 ^ 43 - 1) (zip ts old))"
    unfolding deltas_def using assms(3) by (intro sum_list_mono) (auto dest!: set_zip_leftD simp: less_eq_Suc_le)
  also have "\<dots> < 2 ^ 46" using len assms(2) by (simp add: sum_list_triv)
  finally show ?thesis
    using cpu_usage_exact [OF assms(2) len] Some by (auto simp: usage_of_def value_or_zero_def split: option.splits)
qed

section \<open>The sections of a snapshot\<close>

text \<open>
  What is asked of the machine: counters and sizes of a size that no machine reaches (fewer than
  \<open>2 ^ 43\<close> ticks per counter, 64 TiB of memory, file systems below 64 TiB), ASCII process states, no
  negative load, and no more available than total blocks.
\<close>

definition source_sane :: "LinuxSource \<Rightarrow> bool" where
  "source_sane src \<longleftrightarrow>
     length (ParseCpu (file_text (Proc src ''stat''))) \<le> 65537 \<and>
     (\<forall>(i, ts) \<in> set (ParseCpu (file_text (Proc src ''stat''))). \<forall>t \<in> set ts. unat t < 2 ^ 43) \<and>
     (case map_of (KeyValues (file_text (Proc src ''meminfo''))) ''MemTotal'' of None \<Rightarrow> True | Some tot \<Rightarrow> unat tot < 2 ^ 36) \<and>
     (\<forall>i \<in> set (fst (Pids src)). case ParseProcess (file_text (Proc src (show_int i @ ''/stat''))) of
        None \<Rightarrow> True | Some p \<Rightarrow> byte (ps_state p) < 128) \<and>
     length (file_text (Proc src ''net/dev'')) \<le> 8388608 \<and>
     (case statvfs_of src of Inl _ \<Rightarrow> True
      | Inr st \<Rightarrow> unat (f_blocks st) * unat (f_frsize st) < 2 ^ 46 \<and> f_bavail st \<le> f_blocks st) \<and>
     CHR ''-'' \<notin> set (file_text (Proc src ''loadavg''))"

definition cpu_section :: "CPUMetrics \<Rightarrow> bool" where
  "cpu_section c \<longleftrightarrow>
     unat (core_count c) = length (per_core_usage_percent c) \<and> unat (core_count c) \<le> 65536 \<and>
     percent_valid (total_usage_percent c) \<and> list_all percent_valid (per_core_usage_percent c)"

definition memory_section :: "MemoryMetrics \<Rightarrow> bool" where
  "memory_section x \<longleftrightarrow>
     mem_available_bytes x \<le> mem_total_bytes x \<and> mem_used_bytes x \<le> mem_total_bytes x \<and> percent_valid (mem_used_percent x)"

definition disk_section :: "DiskMetrics \<Rightarrow> bool" where
  "disk_section x \<longleftrightarrow>
     disk_available_bytes x \<le> disk_total_bytes x \<and> disk_used_bytes x \<le> disk_total_bytes x \<and> percent_valid (disk_used_percent x)"

definition network_section :: "NetworkMetrics \<Rightarrow> bool" where
  "network_section x \<longleftrightarrow> rate_valid (rx_kbps x) \<and> rate_valid (tx_kbps x)"

definition load_section :: "LoadavgMetrics \<Rightarrow> bool" where
  "load_section x \<longleftrightarrow> rate_valid (load_1m x) \<and> rate_valid (load_5m x) \<and> rate_valid (load_15m x)"

definition process_section :: "ProcessMetrics \<Rightarrow> bool" where
  "process_section x \<longleftrightarrow> length (processes x) \<le> 10000 \<and> list_all info_valid (processes x)"

lemma snapshot_valid_sections:
  "snapshot_valid s \<longleftrightarrow> cpu_section (cpu s) \<and> memory_section (memory s) \<and> disk_section (disk s) \<and> network_section (network s) \<and>
     load_section (loadavg s) \<and> process_section (process s) \<and> instance_id (telemetry s) \<noteq> [] \<and>
     100 \<le> interval_ms (telemetry s) \<and> interval_ms (telemetry s) \<le> 60000"
  by (auto simp: snapshot_valid_def cpu_section_def memory_section_def disk_section_def network_section_def load_section_def
      process_section_def)

lemma Cpu_section:
  assumes "Cpu src m s = (x, m', s')" "source_sane src" "sample_shape (cpu_previous m)" "cpu s = default_cpu"
  shows "cpu_section (cpu s')" "sample_shape (cpu_previous m')"
    and "memory s' = memory s" "disk s' = disk s" "network s' = network s" "loadavg s' = loadavg s" "process s' = process s"
proof -
  let ?sample = "ParseCpu (file_text (Proc src ''stat''))"
  let ?s1 = "s\<lparr>cpu := (cpu s)\<lparr>cpu_timestamp := timestamp s, core_count := of_nat (length ?sample - 1)\<rparr>\<rparr>"
  have def: "cpu_section default_cpu" by (simp add: cpu_section_def default_cpu_def)
  have shape: "sample_shape ?sample" by (rule sample_shape_ParseCpu)
  have "cpu_section (cpu s') \<and> sample_shape (cpu_previous m') \<and>
    memory s' = memory s \<and> disk s' = disk s \<and> network s' = network s \<and> loadavg s' = loadavg s \<and> process s' = process s"
  proof (cases "file_ok (Proc src ''stat'') \<and> map_of ?sample (- 1) \<noteq> None")
    case False
    with assms(1) def assms(4) show ?thesis by (auto simp: Cpu_def Let_def sample_shape_def split: if_splits)
  next
    case True
    obtain v s2 where L: "cpu_loop (cpu_previous m) ?sample True ?s1 = (v, s2)" by fastforce
    have valid: "\<forall>y \<in> set ?sample. percent_valid (usage_of (cpu_previous m) y)"
      using usage_valid [OF assms(3)] shape assms(2) by (fastforce simp: sample_shape_def source_sane_def)
    note sec = cpu_loop_section [OF L valid]
    have len: "length (filter (\<lambda>(i, ts). i \<noteq> - 1) ?sample) = length ?sample - 1"
      using sorted_one_key [of ?sample "- 1"] shape True by (simp add: sample_shape_def)
    have small: "length ?sample - 1 \<le> 65536" using assms(2) by (auto simp: source_sane_def)
    then have "unat (of_nat (length ?sample - 1) :: u32) = length ?sample - 1" by (simp add: unat_of_nat)
    moreover have "list_all percent_valid (map (usage_of (cpu_previous m)) (filter (\<lambda>(i, ts). i \<noteq> - 1) ?sample))"
      using valid by (auto simp: list_all_iff)
    ultimately have "cpu_section (cpu s2)"
      using sec small len assms(4) by (simp add: cpu_section_def default_cpu_def)
    moreover have "(s' = s2 \<or> (\<exists>st. s' = State s2 st)) \<and> m' = m\<lparr>cpu_previous := ?sample\<rparr>"
      using assms(1) True L by (auto simp: Cpu_def Let_def split: if_splits)
    ultimately show ?thesis using sec(4-8) shape assms(4) by (auto simp: default_cpu_def)
  qed
  then show "cpu_section (cpu s')" "sample_shape (cpu_previous m')"
    and "memory s' = memory s" "disk s' = disk s" "network s' = network s" "loadavg s' = loadavg s" "process s' = process s"
    by simp_all
qed

lemma Memory_section:
  assumes "Memory src m s = (x, m', s')" "source_sane src" "memory_section (memory s)"
  shows "memory_section (memory s')" "m' = m"
    and "cpu s' = cpu s" "disk s' = disk s" "network s' = network s" "loadavg s' = loadavg s" "process s' = process s"
proof -
  have "memory_section (memory s')"
  proof (cases "memory s' = memory s")
    case False
    then obtain tot avail where kv: "map_of (KeyValues (file_text (Proc src ''meminfo''))) ''MemTotal'' = Some tot"
      and v: "tot \<noteq> 0" "avail \<le> tot" and s': "memory s' = \<lparr>mem_timestamp = timestamp s, mem_total_bytes = tot * 1024, mem_available_bytes = avail * 1024,
            mem_used_bytes = tot * 1024 - avail * 1024, mem_used_percent = percent_u64 (tot * 1024 - avail * 1024) (tot * 1024)\<rparr>"
      using assms(1) by (auto simp: Memory_def Let_def not_less split: if_splits option.splits)
    have small: "unat tot < 2 ^ 36" using assms(2) kv by (simp add: source_sane_def)
    have le: "unat avail \<le> unat tot" using v(2) by (simp add: word_le_nat_alt)
    have mul: "unat (w * 1024) = unat w * 1024" if "unat w < 2 ^ 36" for w :: u64
      using that by (simp add: unat_mult_lem [THEN iffD1])
    have t: "unat (tot * 1024) = unat tot * 1024" "unat (avail * 1024) = unat avail * 1024" using mul small le by simp_all
    have ge: "avail * 1024 \<le> tot * 1024" using t le by (simp add: word_le_nat_alt)
    then have used: "unat (tot * 1024 - avail * 1024) = unat tot * 1024 - unat avail * 1024" using t by (simp add: unat_sub)
    have "percent_valid (percent_of (unat (tot * 1024 - avail * 1024)) (unat (tot * 1024)))"
      using small v(1) t used by (intro percent_of_valid) (simp_all add: unat_gt_0)
    then have "percent_valid (percent_u64 (tot * 1024 - avail * 1024) (tot * 1024))"
      by (simp add: percent_of_def percent_u64_def)
    then show ?thesis using s' ge used t by (simp add: memory_section_def word_le_nat_alt)
  qed (use assms(3) in simp)
  then show "memory_section (memory s')" .
  show "m' = m" "cpu s' = cpu s" "disk s' = disk s" "network s' = network s" "loadavg s' = loadavg s" "process s' = process s"
    using assms(1) by (auto simp: Memory_def Let_def split: if_splits option.splits)
qed

lemma Filesystem_section:
  assumes "Filesystem src m s = (x, m', s')" "source_sane src" "disk s = default_disk"
  shows "disk_section (disk s')" "m' = m"
    and "cpu s' = cpu s" "memory s' = memory s" "network s' = network s" "loadavg s' = loadavg s" "process s' = process s"
proof -
  show "disk_section (disk s')"
  proof (cases "statvfs_of src")
    case (Inl ec)
    with assms show ?thesis by (auto simp: Filesystem_def disk_section_def default_disk_def)
  next
    case (Inr st)
    let ?u = "if f_bfree st \<le> f_blocks st then f_blocks st - f_bfree st else 0"
    have b: "unat (f_blocks st) * unat (f_frsize st) < 2 ^ 46" "unat (f_bavail st) \<le> unat (f_blocks st)"
      using assms(2) Inr by (simp_all add: source_sane_def word_le_nat_alt)
    have u: "unat ?u \<le> unat (f_blocks st)" by (simp add: unat_sub)
    have mul: "unat (w * f_frsize st) = unat w * unat (f_frsize st)" if "unat w \<le> unat (f_blocks st)" for w
    proof -
      have "unat w * unat (f_frsize st) \<le> unat (f_blocks st) * unat (f_frsize st)" using that by (rule mult_right_mono) simp
      also have "\<dots> < 2 ^ LENGTH(64)" using b(1) by simp
      finally show ?thesis by (rule unat_mult_lem [THEN iffD1])
    qed
    have le: "w * f_frsize st \<le> f_blocks st * f_frsize st" if "unat w \<le> unat (f_blocks st)" for w
      using mul [OF that] mul [of "f_blocks st"] that by (simp add: word_le_nat_alt)
    have "percent_valid (percent_u64 (?u * f_frsize st) (f_blocks st * f_frsize st))" if "f_blocks st * f_frsize st \<noteq> 0"
    proof -
      have "0 < unat (f_blocks st * f_frsize st)" using that by (simp add: unat_gt_0)
      then have "percent_valid (percent_of (unat (?u * f_frsize st)) (unat (f_blocks st * f_frsize st)))"
        using le [OF u] mul [of "f_blocks st"] b(1) by (intro percent_of_valid) (simp_all add: word_le_nat_alt)
      then show ?thesis by (simp add: percent_of_def percent_u64_def)
    qed
    with Inr assms(1,3) le [OF b(2)] le [OF u] show ?thesis
      by (auto simp: Filesystem_def disk_section_def Let_def default_disk_def)
  qed
  show "m' = m" "cpu s' = cpu s" "memory s' = memory s" "network s' = network s" "loadavg s' = loadavg s" "process s' = process s"
    using assms(1) by (auto simp: Filesystem_def Let_def split: sum.splits)
qed

text \<open>The load: text without a minus sign yields nonnegative finite numbers.\<close>

lemma set_suffixes: "set (dropWhile P s) \<subseteq> set s" "set (tl s) \<subseteq> set s"
  by (auto dest: set_dropWhileD list.set_sel(2) [rotated]) (cases s; auto)

lemma scan_mantissa_suffix: "scan_mantissa s = Some (n, e, u) \<Longrightarrow> set u \<subseteq> set s"
  unfolding scan_mantissa_def Let_def
  using set_suffixes(1) [of is_digit s] set_suffixes(2) [of "dropWhile is_digit s"] set_suffixes(1) [of is_digit "tl (dropWhile is_digit s)"]
  by (auto split: if_splits)

lemma scan_exponent_suffix: "set (snd (scan_exponent s)) \<subseteq> set s"
  unfolding scan_exponent_def Let_def
  using set_suffixes(2) [of s] set_suffixes(2) [of "tl s"] set_suffixes(1) [of is_digit "tl s"] set_suffixes(1) [of is_digit "tl (tl s)"]
  by (auto split: if_splits)

lemma get_double_nonneg:
  assumes "get_double s = (ok, d, r)" "CHR ''-'' \<notin> set s"
  shows "rate_valid d" "CHR ''-'' \<notin> set r"
proof -
  let ?t = "dropWhile is_space s" and ?u = "if signed_at (dropWhile is_space s) then tl (dropWhile is_space s) else dropWhile is_space s"
  have t: "set ?t \<subseteq> set s" and u: "set ?u \<subseteq> set s"
    using set_suffixes(1) [of is_space s] set_suffixes(2) [of ?t] by auto
  have pos: "\<not> (?t \<noteq> [] \<and> hd ?t = CHR ''-'')" using t assms(2) by (metis hd_in_set subsetD)
  have max: "rate_valid (Finite False max_double)" by (simp add: rate_valid_def max_double_def)
  have fin: "rate_valid (to_double False (dec_value n x))" if "isfinite (to_double False (dec_value n x))" for n x
    using that round_mag_nonneg [of "dec_value n x"] by (auto simp: rate_valid_def to_double_def dec_value_def split: if_splits)
  have "rate_valid d \<and> set r \<subseteq> set s"
  proof (cases "scan_mantissa ?u")
    case None
    then show ?thesis using assms(1) u set_suffixes(2) [of ?u] by (auto simp: get_double_def Let_def rate_valid_def split: if_splits)
  next
    case (Some a)
    obtain n e w where a: "scan_mantissa ?u = Some (n, e, w)" using Some by (cases a) auto
    have w: "set w \<subseteq> set s" using scan_mantissa_suffix [OF a] u by blast
    have r: "set r \<subseteq> set w"
      using assms(1) a scan_exponent_suffix [of w] set_suffixes(2) [of w] set_suffixes(2) [of "tl w"]
      by (auto simp: get_double_def Let_def split: if_splits prod.splits)
    have "rate_valid d"
      using assms(1) a pos max fin by (auto simp: get_double_def Let_def rate_valid_def split: if_splits prod.splits)
    with r w show ?thesis by blast
  qed
  then show "rate_valid d" "CHR ''-'' \<notin> set r" using assms(2) by blast+
qed

lemma Load_section:
  assumes "Load src m s = (x, m', s')" "source_sane src" "loadavg s = default_loadavg"
  shows "load_section (loadavg s')" "m' = m"
    and "cpu s' = cpu s" "memory s' = memory s" "disk s' = disk s" "network s' = network s" "process s' = process s"
proof -
  have no: "CHR ''-'' \<notin> set (file_text (Proc src ''loadavg''))" using assms(2) by (simp add: source_sane_def)
  have zero: "rate_valid dzero" by (simp add: rate_valid_def)
  show "load_section (loadavg s')"
    using assms(1,3) zero get_double_nonneg(1) [OF _ no] get_double_nonneg(1) [OF _ get_double_nonneg(2) [OF _ no]]
      get_double_nonneg(1) [OF _ get_double_nonneg(2) [OF _ get_double_nonneg(2) [OF _ no]]]
    by (auto simp: Load_def Let_def load_section_def default_loadavg_def split: if_splits prod.splits)
  show "m' = m" "cpu s' = cpu s" "memory s' = memory s" "disk s' = disk s" "network s' = network s" "process s' = process s"
    using assms(1) by (auto simp: Load_def Let_def split: if_splits prod.splits)
qed

subsection \<open>Processes\<close>

text \<open>The collector's own state, as the constructor sets it up and each \<open>Collect\<close> keeps it.\<close>

definition collector_inv :: "MetricsCollector \<Rightarrow> bool" where
  "collector_inv m \<longleftrightarrow> sample_shape (cpu_previous m) \<and> 0 < clock_ticks m \<and> clock_ticks m < 2 ^ 63"

lemma ParseProcess_pid: "ParseProcess s = Some p \<Longrightarrow> 0 < ps_pid p \<and> ps_pid p < 2 ^ 31"
  by (auto simp: ParseProcess_def process_fields_def Parse_int_def parsed_whole_def from_chars_signed_def Let_def
      split: option.splits if_splits sum.splits list.splits)

lemma sint_pid: "0 < i \<Longrightarrow> i < 2 ^ 31 \<Longrightarrow> 0 < sint (of_int i :: u32)"
proof -
  assume i: "0 < i" "i < 2 ^ 31"
  then obtain n where n: "i = int n" "n < 2 ^ 31" using zero_less_imp_eq_int by fastforce
  then have "unat (of_nat n :: u32) = n" by (simp add: unat_of_nat)
  then have "sint (of_nat n :: u32) = int n" using n(2) sint_small [of "of_nat n"] by simp
  with i n show ?thesis by simp
qed

lemma cpu_share_rate:
  assumes "mc_seconds m = elapsed_seconds t prev" "0 < clock_ticks m" "clock_ticks m < 2 ^ 63"
  shows "rate_valid (value_or_zero (cpu_share m p))"
proof (cases "cpu_share m p")
  case None
  then show ?thesis by (simp add: value_or_zero_def rate_valid_def)
next
  case (Some d)
  then obtain n old r where r: "CounterRate n old (mc_seconds m) = Some r" "d = ddiv (dmul r hundred) (of_int_double (clock_ticks m))"
    by (auto simp: cpu_share_def split: option.splits prod.splits if_splits)
  obtain b where b: "of_int_double (clock_ticks m) = Finite False b" "1 \<le> b * 2 ^ 0"
    using of_int_divisor [of "clock_ticks m"] assms(2,3) by auto
  have "dbl_le r (2 ^ 94)" using r(1) assms(1) CounterRate_le by simp
  then have "dbl_le (dmul r hundred) (2 ^ (94 + 7))" using hundred_le by (rule dmul_le) simp
  from ddiv_le [OF this b] r(2) have "dbl_le d (2 ^ (94 + 7 + 0))" by simp
  with Some show ?thesis by (simp add: value_or_zero_def dbl_le_rate)
qed

lemma process_info_valid:
  assumes "mc_seconds m = elapsed_seconds t prev" "collector_inv m" "ParseProcess file = Some p" "byte (ps_state p) < 128"
  shows "info_valid (process_info m tot p)"
  using cpu_share_rate [OF assms(1), of p] assms(2,4) ParseProcess_pid [OF assms(3)] sint_pid percent_u64_rate
  by (auto simp: info_valid_def process_info_def Let_def collector_inv_def rate_valid_def)

lemma process_loop_section:
  assumes "process_loop src stop m n is nxt s = (nxt', s')" "mc_seconds m = elapsed_seconds t prev" "collector_inv m"
    and "\<forall>i \<in> set is. case ParseProcess (file_text (Proc src (show_int i @ ''/stat''))) of None \<Rightarrow> True | Some p \<Rightarrow> byte (ps_state p) < 128"
    and "list_all info_valid (processes (process s))"
  shows "list_all info_valid (processes (process s')) \<and> cpu s' = cpu s \<and> memory s' = memory s \<and> disk s' = disk s \<and>
    network s' = network s \<and> loadavg s' = loadavg s"
  using assms
proof (induction src stop m n "is" nxt s rule: process_loop.induct)
  case (2 src stop m n i "is" nxt s)
  have keep: "list_all info_valid (processes (process (add_process m p s)))"
    if "ParseProcess (file_text (Proc src (show_int i @ ''/stat''))) = Some p" for p
    using process_info_valid [OF "2.prems"(2,3) that] "2.prems"(4,5) that by (simp add: add_process_def Let_def)
  have same: "cpu (add_process m p s) = cpu s" "memory (add_process m p s) = memory s" "disk (add_process m p s) = disk s"
    "network (add_process m p s) = network s" "loadavg (add_process m p s) = loadavg s" for p
    by (simp_all add: add_process_def Let_def)
  let ?f = "Proc src (show_int i @ ''/stat'')"
  consider "stop n" | "\<not> stop n" "\<not> file_ok ?f" | "\<not> stop n" "file_ok ?f" "ParseProcess (file_text ?f) = None"
    | p where "\<not> stop n" "file_ok ?f" "ParseProcess (file_text ?f) = Some p" "malformed m i p"
    | p where "\<not> stop n" "file_ok ?f" "ParseProcess (file_text ?f) = Some p" "\<not> malformed m i p"
    by blast
  then show ?case
  proof cases
    case 1
    with "2.prems" show ?thesis by auto
  next
    case 2
    with "2.IH"(1) "2.prems" show ?thesis by simp
  next
    case 3
    with "2.IH"(2) "2.prems" show ?thesis by simp
  next
    case 4
    with "2.IH"(3) "2.prems" show ?thesis by simp
  next
    case 5
    with "2.IH"(4) "2.prems" keep same show ?thesis by simp
  qed
qed simp

lemma Processes_section:
  assumes "Processes src stop m s = (x, m', s')" "source_sane src" "mc_seconds m = elapsed_seconds t prev" "collector_inv m"
    and "process s = default_process" "max_processes (mc_config m) \<le> 10000"
  shows "process_section (process s')" "collector_inv m'"
    and "cpu s' = cpu s" "memory s' = memory s" "disk s' = disk s" "network s' = network s" "loadavg s' = loadavg s"
proof -
  let ?s1 = "s\<lparr>process := (process s)\<lparr>proc_timestamp := timestamp s\<rparr>\<rparr>"
  obtain nxt s2 where L: "process_loop src stop m 0 (fst (Pids src)) [] ?s1 = (nxt, s2)" by fastforce
  have sec: "list_all info_valid (processes (process s2)) \<and> cpu s2 = cpu s \<and> memory s2 = memory s \<and> disk s2 = disk s \<and>
    network s2 = network s \<and> loadavg s2 = loadavg s"
    using process_loop_section [OF L assms(3,4)] assms(2,5) by (simp add: source_sane_def default_process_def)
  have sub: "set (partial_sort n ps) \<subseteq> set ps" for n ps
  proof -
    have "set (foldr insert_process ps []) = set ps" by (induction ps) auto
    then show ?thesis using set_take_subset [of n "foldr insert_process ps []"] by (simp add: partial_sort_def)
  qed
  have len: "length (partial_sort n ps) \<le> n" for n ps by (simp add: partial_sort_def)
  have all: "list_all info_valid (partial_sort n (processes (process s2)))" for n
    using sec sub [of n "processes (process s2)"] by (auto simp: list_all_iff)
  have def: "process_section default_process" by (simp add: process_section_def default_process_def)
  show "process_section (process s')"
    using assms(1,5,6) L all len [of "min (max_processes (mc_config m)) (length (processes (process s2)))" "processes (process s2)"] def
    by (auto simp: Processes_def process_section_def Let_def split: if_splits)
  show "collector_inv m'" using assms(1,4) L by (auto simp: Processes_def collector_inv_def Let_def split: if_splits)
  show "cpu s' = cpu s" "memory s' = memory s" "disk s' = disk s" "network s' = network s" "loadavg s' = loadavg s"
    using assms(1) L sec by (auto simp: Processes_def Let_def split: if_splits)
qed

subsection \<open>Network\<close>

lemma dadd_le:
  assumes "dbl_le x (of_nat n * 2 ^ k)" "dbl_le y (2 ^ k)" "Suc n < 2 ^ 53" "k \<le> 900"
  shows "dbl_le (dadd x y) (of_nat (Suc n) * 2 ^ k)"
proof -
  obtain a b where ab: "x = Finite False a" "0 \<le> a" "a \<le> of_nat n * 2 ^ k" "y = Finite False b" "0 \<le> b" "b \<le> 2 ^ k"
    using assms(1,2) by (auto simp: dbl_le_def)
  then have "a + b \<le> of_nat (Suc n) * 2 ^ k" by (simp add: distrib_right)
  then have "dbl_le (to_double False (a + b)) (of_nat (Suc n) * 2 ^ k)" using ab assms(3,4) by (intro to_double_le) simp_all
  with ab show ?thesis by (auto simp: of_signed_def Let_def dbl_le_def)
qed

lemma kbps_le:
  assumes "mc_seconds m = elapsed_seconds t prev"
  shows "dbl_le (ddiv (value_or_zero (rx_bytes_per_second (fst (net_row src m name fs)))) kilo) (2 ^ 94)"
    and "dbl_le (ddiv (value_or_zero (tx_bytes_per_second (fst (net_row src m name fs)))) kilo) (2 ^ 94)"
proof -
  have rate: "dbl_le (value_or_zero (Option.bind ob (\<lambda>p. CounterRate a (f p) (mc_seconds m)))) (2 ^ 94)" for a f and ob :: "NetSample option"
    using CounterRate_le assms by (cases ob) (auto simp: value_or_zero_def split: option.splits)
  have "dbl_le (ddiv d kilo) (2 ^ 94)" if "dbl_le d (2 ^ 94)" for d
    using ddiv_le [OF that, of kilo 1024 0] by (simp add: kilo_def)
  with rate show "dbl_le (ddiv (value_or_zero (rx_bytes_per_second (fst (net_row src m name fs)))) kilo) (2 ^ 94)"
    and "dbl_le (ddiv (value_or_zero (tx_bytes_per_second (fst (net_row src m name fs)))) kilo) (2 ^ 94)"
    by (simp_all add: net_row_def Let_def)
qed

lemma net_loop_section:
  assumes "net_loop src m ls valid nxt s = (v, nxt', s')" "mc_seconds m = elapsed_seconds t prev" "n + length ls < 2 ^ 53"
    and "dbl_le (rx_kbps (network s)) (of_nat n * 2 ^ 94)" "dbl_le (tx_kbps (network s)) (of_nat n * 2 ^ 94)"
  shows "network_section (network s') \<and> cpu s' = cpu s \<and> memory s' = memory s \<and> disk s' = disk s \<and>
    process s' = process s \<and> loadavg s' = loadavg s"
  using assms
proof (induction ls arbitrary: valid nxt s n)
  case Nil
  then show ?case by (auto simp: network_section_def dest: dbl_le_rate)
next
  case (Cons line ls)
  show ?case
  proof (cases "\<exists>v2 n2. net_loop src m (line # ls) valid nxt s = net_loop src m ls v2 n2 s")
    case True
    with Cons.IH [of _ _ s n] Cons.prems show ?thesis by auto
  next
    case False
    then obtain name fs v2 n2 where
      eq: "net_loop src m (line # ls) valid nxt s = net_loop src m ls v2 n2 (add_interface (fst (net_row src m name fs)) s)"
      by (auto simp: Let_def case_prod_beta split: option.splits if_splits)
    let ?s = "add_interface (fst (net_row src m name fs)) s"
    have "dbl_le (rx_kbps (network ?s)) (of_nat (Suc n) * 2 ^ 94)" "dbl_le (tx_kbps (network ?s)) (of_nat (Suc n) * 2 ^ 94)"
      using Cons.prems(3) dadd_le [OF Cons.prems(4) kbps_le(1) [OF Cons.prems(2)]] dadd_le [OF Cons.prems(5) kbps_le(2) [OF Cons.prems(2)]]
      by (simp_all add: add_interface_def Let_def)
    moreover have "cpu ?s = cpu s" "memory ?s = memory s" "disk ?s = disk s" "process ?s = process s" "loadavg ?s = loadavg s"
      by (simp_all add: add_interface_def Let_def)
    ultimately show ?thesis using Cons.IH [of v2 n2 ?s "Suc n"] Cons.prems eq by simp
  qed
qed

lemma length_getlines: "length (getlines s) \<le> length s"
proof (induction s rule: getlines.induct)
  case (1 s)
  show ?case
  proof (cases "s = []")
    case False
    let ?l = "takeWhile (\<lambda>c. c \<noteq> CHR 0x0A) s"
    have "length (getlines (drop (Suc (length ?l)) s)) \<le> length s - Suc (length ?l)" using 1 [OF False refl] by simp
    moreover have "0 < length s" using False by simp
    moreover have eq: "getlines s = ?l # getlines (drop (Suc (length ?l)) s)" using False by (subst getlines.simps) (simp add: Let_def)
    ultimately show ?thesis by (simp only: eq list.size)
  qed (simp add: getlines.simps)
qed

lemma Network_section:
  assumes "Network src m s = (x, m', s')" "source_sane src" "mc_seconds m = elapsed_seconds t prev" "network s = default_network"
  shows "network_section (network s')" "collector_inv m' = collector_inv m"
    and "cpu s' = cpu s" "memory s' = memory s" "disk s' = disk s" "process s' = process s" "loadavg s' = loadavg s"
proof -
  let ?ls = "getlines (file_text (Proc src ''net/dev''))" and ?s1 = "s\<lparr>network := (network s)\<lparr>net_timestamp := timestamp s\<rparr>\<rparr>"
  obtain v nxt s2 where L: "net_loop src m ?ls True [] ?s1 = (v, nxt, s2)" by (metis prod_cases3)
  have "0 + length ?ls < 2 ^ 53" using length_getlines [of "file_text (Proc src ''net/dev'')"] assms(2) by (simp add: source_sane_def)
  from net_loop_section [OF L assms(3) this] have sec: "network_section (network s2) \<and> cpu s2 = cpu s \<and> memory s2 = memory s \<and>
      disk s2 = disk s \<and> process s2 = process s \<and> loadavg s2 = loadavg s"
    using assms(4) by (simp add: default_network_def)
  have def: "network_section default_network" by (simp add: network_section_def default_network_def rate_valid_def)
  show "network_section (network s')" "cpu s' = cpu s" "memory s' = memory s" "disk s' = disk s" "process s' = process s" "loadavg s' = loadavg s"
    using assms(1,4) L sec def by (auto simp: Network_def Let_def split: if_splits)
  show "collector_inv m' = collector_inv m" using assms(1) L by (auto simp: Network_def Let_def collector_inv_def split: if_splits)
qed

lemma disk_loop_section: "disk_loop m ls nxt s = (nxt', s') \<Longrightarrow>
    cpu s' = cpu s \<and> memory s' = memory s \<and> disk s' = disk s \<and> network s' = network s \<and> process s' = process s \<and> loadavg s' = loadavg s"
  by (induction m ls nxt s rule: disk_loop.induct) (auto simp: Let_def split: option.splits prod.splits)

lemma upd_cgroup_sections [simp]: "sections (upd_cgroup f s) = sections s"
  by (simp add: upd_cgroup_def)

lemma cg_stat_keeps: "cg_stat src m c = (m', c') \<Longrightarrow> cpu_previous m' = cpu_previous m \<and> clock_ticks m' = clock_ticks m"
  by (auto simp: cg_stat_def Let_def split: if_splits)

lemma Disk_sections:
  assumes "Disk src m s = (x, m', s')"
  shows "sections s' = sections s \<and> collector_inv m' = collector_inv m"
proof -
  obtain nxt s1 where L: "disk_loop m (getlines (file_text (Proc src ''diskstats''))) [] s = (nxt, s1)" by fastforce
  show ?thesis using disk_loop_section [OF L] assms L by (auto simp: Disk_def Let_def collector_inv_def split: if_splits)
qed

lemma Pressure_sections:
  "Pressure src m s = (x, m', s') \<Longrightarrow> sections s' = sections s \<and> collector_inv m' = collector_inv m"
  by (auto simp: Pressure_def Let_def split: if_splits)

lemma Cgroup_sections:
  assumes "Cgroup src m s = (x, m', s')"
  shows "sections s' = sections s \<and> collector_inv m' = collector_inv m"
proof -
  let ?m1 = "if CgroupIdentity src = [] \<or> CgroupIdentity src \<noteq> cg_identity m then m\<lparr>cg_usage := None, cg_throttled := None\<rparr> else m"
  let ?m2 = "?m1\<lparr>cg_identity := CgroupIdentity src\<rparr>"
  have k: "cpu_previous ?m2 = cpu_previous m \<and> clock_ticks ?m2 = clock_ticks m" by simp
  show ?thesis
  proof (cases "CgroupIdentity src = []")
    case True
    then show ?thesis using assms by (auto simp: Cgroup_def Let_def collector_inv_def upd_cgroup_def)
  next
    case False
    let ?s1 = "upd_cgroup (\<lambda>c. c\<lparr>cg_path := cgroup_path (mc_config m), cg_state := ''unavailable''\<rparr>) s"
    obtain m3 c2 where cg: "cg_stat src ?m2 (cg_quota src (cg_memory src (cgroup (telemetry ?s1)))) = (m3, c2)" by fastforce
    have r: "m' = m3 \<and> (\<exists>c3 st. s' = State (upd_cgroup (\<lambda>_. c3) ?s1) st)"
      using assms False unfolding Cgroup_def Let_def cg prod.case if_not_P [OF False] by (simp only: prod.inject) blast
    show ?thesis using cg_stat_keeps [OF cg] k r by (auto simp: collector_inv_def upd_cgroup_def)
  qed
qed

section \<open>The whole snapshot\<close>

lemma start_sections: "sections (start_snapshot k m) =
    (default_cpu, default_memory, default_disk, default_network, default_loadavg, default_process)"
  by (simp add: start_snapshot_def default_snapshot_def)

lemma Validate_limits:
  "Validate c = Inr () \<Longrightarrow> 100 \<le> poll_interval c \<and> poll_interval c \<le> 60000 \<and> max_processes c \<le> 10000"
  by (auto simp: Validate_def not_less split: if_splits)

lemma interval_word: "100 \<le> n \<Longrightarrow> n \<le> 60000 \<Longrightarrow> 100 \<le> (of_nat n :: u64) \<and> (of_nat n :: u64) \<le> 60000"
  by (simp add: word_le_nat_alt unat_of_nat)

text \<open>One collector after the other: each completes its section and keeps the others.\<close>

lemma collect_cpu:
  assumes "collect dur name (Cpu src) (m, s) = (m', s')" "source_sane src" "collector_inv m" "cpu s = default_cpu"
  shows "cpu_section (cpu s')" "collector_inv m'" "memory s' = memory s" "disk s' = disk s" "network s' = network s"
    "loadavg s' = loadavg s" "process s' = process s"
proof -
  obtain x t s2 where r: "Cpu src m (s\<lparr>telemetry := t\<rparr>) = (x, m', s2)" "sections s' = sections s2"
    using assms(1) by (rule cpu_action.collect_outcome)
  have "clock_ticks m' = clock_ticks m" using r(1) by (auto simp: Cpu_def Let_def split: if_splits prod.splits)
  then show "cpu_section (cpu s')" "collector_inv m'" "memory s' = memory s" "disk s' = disk s" "network s' = network s"
    "loadavg s' = loadavg s" "process s' = process s"
    using Cpu_section [OF r(1) assms(2)] assms(3,4) r(2) by (simp_all add: collector_inv_def)
qed

lemma collect_memory:
  assumes "collect dur name (Memory src) (m, s) = (m', s')" "source_sane src" "memory s = default_memory"
  shows "memory_section (memory s')" "m' = m" "cpu s' = cpu s" "disk s' = disk s" "network s' = network s"
    "loadavg s' = loadavg s" "process s' = process s"
proof -
  obtain x t s2 where r: "Memory src m (s\<lparr>telemetry := t\<rparr>) = (x, m', s2)" "sections s' = sections s2"
    using assms(1) by (rule memory_action.collect_outcome)
  have "memory_section default_memory" by (simp add: memory_section_def default_memory_def)
  then show "memory_section (memory s')" "m' = m" "cpu s' = cpu s" "disk s' = disk s" "network s' = network s"
    "loadavg s' = loadavg s" "process s' = process s"
    using Memory_section [OF r(1) assms(2)] assms(3) r(2) by simp_all
qed

lemma collect_processes:
  assumes "collect dur name (Processes src stop) (m, s) = (m', s')" "source_sane src" "mc_seconds m = elapsed_seconds t0 prev"
    "collector_inv m" "process s = default_process" "max_processes (mc_config m) \<le> 10000"
  shows "process_section (process s')" "collector_inv m'" "cpu s' = cpu s" "memory s' = memory s" "disk s' = disk s"
    "network s' = network s" "loadavg s' = loadavg s"
proof -
  obtain x t s2 where r: "Processes src stop m (s\<lparr>telemetry := t\<rparr>) = (x, m', s2)" "sections s' = sections s2"
    using assms(1) by (rule processes_action.collect_outcome)
  show "process_section (process s')" "collector_inv m'" "cpu s' = cpu s" "memory s' = memory s" "disk s' = disk s"
    "network s' = network s" "loadavg s' = loadavg s"
    using Processes_section [OF r(1) assms(2-4)] assms(5,6) r(2) by simp_all
qed

lemma collect_network:
  assumes "collect dur name (Network src) (m, s) = (m', s')" "source_sane src" "mc_seconds m = elapsed_seconds t0 prev"
    "network s = default_network"
  shows "network_section (network s')" "collector_inv m' = collector_inv m" "cpu s' = cpu s" "memory s' = memory s"
    "disk s' = disk s" "process s' = process s" "loadavg s' = loadavg s"
proof -
  obtain x t s2 where r: "Network src m (s\<lparr>telemetry := t\<rparr>) = (x, m', s2)" "sections s' = sections s2"
    using assms(1) by (rule network_action.collect_outcome)
  show "network_section (network s')" "collector_inv m' = collector_inv m" "cpu s' = cpu s" "memory s' = memory s"
    "disk s' = disk s" "process s' = process s" "loadavg s' = loadavg s"
    using Network_section [OF r(1) assms(2,3)] assms(4) r(2) by simp_all
qed

lemma collect_filesystem:
  assumes "collect dur name (Filesystem src) (m, s) = (m', s')" "source_sane src" "disk s = default_disk"
  shows "disk_section (disk s')" "m' = m" "cpu s' = cpu s" "memory s' = memory s" "network s' = network s"
    "loadavg s' = loadavg s" "process s' = process s"
proof -
  obtain x t s2 where r: "Filesystem src m (s\<lparr>telemetry := t\<rparr>) = (x, m', s2)" "sections s' = sections s2"
    using assms(1) by (rule filesystem_action.collect_outcome)
  show "disk_section (disk s')" "m' = m" "cpu s' = cpu s" "memory s' = memory s" "network s' = network s"
    "loadavg s' = loadavg s" "process s' = process s"
    using Filesystem_section [OF r(1) assms(2)] assms(3) r(2) by simp_all
qed

lemma collect_load:
  assumes "collect dur name (Load src) (m, s) = (m', s')" "source_sane src" "loadavg s = default_loadavg"
  shows "load_section (loadavg s')" "m' = m" "cpu s' = cpu s" "memory s' = memory s" "disk s' = disk s"
    "network s' = network s" "process s' = process s"
proof -
  obtain x t s2 where r: "Load src m (s\<lparr>telemetry := t\<rparr>) = (x, m', s2)" "sections s' = sections s2"
    using assms(1) by (rule load_action.collect_outcome)
  show "load_section (loadavg s')" "m' = m" "cpu s' = cpu s" "memory s' = memory s" "disk s' = disk s"
    "network s' = network s" "process s' = process s"
    using Load_section [OF r(1) assms(2)] assms(3) r(2) by simp_all
qed

lemma collect_rest:
  "collect dur name (Disk src) (m, s) = (m', s') \<Longrightarrow> sections s' = sections s \<and> collector_inv m' = collector_inv m"
  "collect dur name (Pressure src) (m, s) = (m', s') \<Longrightarrow> sections s' = sections s \<and> collector_inv m' = collector_inv m"
  "collect dur name (Cgroup src) (m, s) = (m', s') \<Longrightarrow> sections s' = sections s \<and> collector_inv m' = collector_inv m"
  by (erule disk_action.collect_outcome, drule Disk_sections, simp)
    (erule pressure_action.collect_outcome, drule Pressure_sections, simp,
     erule cgroup_action.collect_outcome, drule Cgroup_sections, simp)

lemma collected_snapshot_sound:
  assumes "source_sane src" "collector_inv m" "Validate (mc_config m) = Inr ()" "Collect src k m = (m', s)" "ident \<noteq> []"
  shows "snapshot_valid (s\<lparr>telemetry := (telemetry s)\<lparr>instance_id := ident\<rparr>\<rparr>) \<and> collector_inv m' \<and> mc_config m' = mc_config m"
proof -
  let ?m = "m\<lparr>mc_seconds := elapsed_seconds (steady_now k) (previous_time m)\<rparr>"
  obtain m1 s1 m2 s2 m3 s3 m4 s4 m5 s5 m6 s6 m7 s7 m8 s8 m9 s9 where c:
    "collect (duration_us_of k) ''cpu'' (Cpu src) (?m, start_snapshot k m) = (m1, s1)"
    "collect (duration_us_of k) ''memory'' (Memory src) (m1, s1) = (m2, s2)"
    "collect (duration_us_of k) ''processes'' (Processes src (stop_requested k)) (m2, s2) = (m3, s3)"
    "collect (duration_us_of k) ''network'' (Network src) (m3, s3) = (m4, s4)"
    "collect (duration_us_of k) ''disk_io'' (Disk src) (m4, s4) = (m5, s5)"
    "collect (duration_us_of k) ''filesystem'' (Filesystem src) (m5, s5) = (m6, s6)"
    "collect (duration_us_of k) ''load'' (Load src) (m6, s6) = (m7, s7)"
    "collect (duration_us_of k) ''psi'' (Pressure src) (m7, s7) = (m8, s8)"
    "(if cgroup_path (mc_config m) \<noteq> [] then collect (duration_us_of k) ''cgroup'' (Cgroup src) (m8, s8) else (m8, s8)) = (m9, s9)"
    "Collect src k m = (m9\<lparr>previous_time := Some (steady_now k)\<rparr>,
       s9\<lparr>telemetry := (telemetry s9)\<lparr>collection_finished_at := finished_ms k, collection_us := whole_us k\<rparr>\<rparr>)"
    by (rule Collect_chain [of k src m])
  have sec: "mc_seconds ?m = elapsed_seconds (steady_now k) (previous_time m)" and inv0: "collector_inv ?m"
    using assms(2) by (simp_all add: collector_inv_def)
  note cfg = cpu_action.collect_status(2,3,5) [OF c(1)] memory_action.collect_status(2,3,5) [OF c(2)]
    processes_action.collect_status(2,3,5) [OF c(3)] network_action.collect_status(2,3,5) [OF c(4)]
    disk_action.collect_status(2,3,5) [OF c(5)] filesystem_action.collect_status(2,3,5) [OF c(6)]
    load_action.collect_status(2,3,5) [OF c(7)] pressure_action.collect_status(2,3,5) [OF c(8)]
  have c9: "sections s9 = sections s8 \<and> collector_inv m9 = collector_inv m8 \<and> mc_config m9 = mc_config m8 \<and>
      interval_ms (telemetry s9) = interval_ms (telemetry s8)"
  proof (cases "cgroup_path (mc_config m) = []")
    case False
    then have d: "collect (duration_us_of k) ''cgroup'' (Cgroup src) (m8, s8) = (m9, s9)" using c(9) by simp
    show ?thesis using collect_rest(3) [OF d] cgroup_action.collect_status(2,5) [OF d] by simp
  qed (use c(9) in simp)
  note start = start_sections [of k m]
  note a1 = collect_cpu [OF c(1) assms(1) inv0]
  note a2 = collect_memory [OF c(2) assms(1)]
  note a3 = collect_processes [OF c(3) assms(1), of "steady_now k" "previous_time m"]
  note a4 = collect_network [OF c(4) assms(1), of "steady_now k" "previous_time m"]
  note a5 = collect_rest(1) [OF c(5)]
  note a6 = collect_filesystem [OF c(6) assms(1)]
  note a7 = collect_load [OF c(7) assms(1)]
  note a8 = collect_rest(2) [OF c(8)]
  have i1: "cpu_section (cpu s1)" "collector_inv m1" "memory s1 = default_memory" "disk s1 = default_disk"
    "network s1 = default_network" "loadavg s1 = default_loadavg" "process s1 = default_process"
    using a1 start by simp_all
  have i2: "memory_section (memory s2)" "collector_inv m2" "cpu s2 = cpu s1" "disk s2 = default_disk"
    "network s2 = default_network" "loadavg s2 = default_loadavg" "process s2 = default_process"
    using a2 i1 by simp_all
  have i3: "process_section (process s3)" "collector_inv m3" "cpu s3 = cpu s1" "memory s3 = memory s2" "disk s3 = default_disk"
    "network s3 = default_network" "loadavg s3 = default_loadavg"
    using a3 i2 cfg(1-6) Validate_limits [OF assms(3)] by simp_all
  have i4: "network_section (network s4)" "collector_inv m4" "cpu s4 = cpu s1" "memory s4 = memory s2" "disk s4 = default_disk"
    "process s4 = process s3" "loadavg s4 = default_loadavg"
    using a4 i3 cfg(1-9) by simp_all
  have i6: "disk_section (disk s6)" "collector_inv m6" "cpu s6 = cpu s1" "memory s6 = memory s2" "network s6 = network s4"
    "process s6 = process s3" "loadavg s6 = default_loadavg"
    using a6 a5 i4 by simp_all
  have i7: "load_section (loadavg s7)" "collector_inv m7" "cpu s7 = cpu s1" "memory s7 = memory s2" "network s7 = network s4"
    "process s7 = process s3" "disk s7 = disk s6"
    using a7 i6 by simp_all
  have ival: "interval_ms (telemetry s9) = of_nat (poll_interval (mc_config m))"
    using cfg c9 by (simp add: start_snapshot_def)
  have limits: "100 \<le> interval_ms (telemetry s9)" "interval_ms (telemetry s9) \<le> 60000"
    unfolding ival using Validate_limits [OF assms(3)] interval_word [of "poll_interval (mc_config m)"] by blast+
  have s: "s = s9\<lparr>telemetry := (telemetry s9)\<lparr>collection_finished_at := finished_ms k, collection_us := whole_us k\<rparr>\<rparr>"
    and m': "m' = m9\<lparr>previous_time := Some (steady_now k)\<rparr>" using c(10) assms(4) by simp_all
  have "mc_config m9 = mc_config m" using cfg c9 by simp
  moreover have "collector_inv m9" using i7(2) a8 c9 by simp
  ultimately show ?thesis
    using i1(1) i2(1) i3(1) i4(1) i6(1) i7 a8 c9 limits assms(5)
    by (simp add: s m' snapshot_valid_sections collector_inv_def)
qed


definition sample_source :: LinuxSource where
  "sample_source = \<lparr>Proc = (\<lambda>p. if p = ''loadavg'' then \<lparr>file_text = ''0.5 0.25 1'', file_error = 0\<rparr> else \<lparr>file_text = [], file_error = 2\<rparr>),
     Sys = (\<lambda>_. \<lparr>file_text = [], file_error = 2\<rparr>), Cgroup_file = (\<lambda>_. \<lparr>file_text = [], file_error = 2\<rparr>),
     Pids = ([], 0), statvfs_of = Inr \<lparr>f_frsize = 4096, f_blocks = 1000, f_bfree = 400, f_bavail = 300\<rparr>,
     CgroupIdentity = [], strerror = (\<lambda>_. ''No such file or directory'')\<rparr>"

definition sample_clocks :: clocks where
  "sample_clocks = \<lparr>started_ms = 1000, finished_ms = 1001, steady_now = 5, duration_us_of = (\<lambda>_. 7), whole_us = 9,
     stop_requested = (\<lambda>_. False)\<rparr>"

definition sample_collector :: MetricsCollector where
  "sample_collector = (case new_collector default_config sample_source 100 4096 None of Inr m \<Rightarrow> m | Inl _ \<Rightarrow> undefined)"

lemma sample_source_sane: "source_sane sample_source"
proof -
  have "ParseCpu [] = []" by code_simp
  moreover have "KeyValues [] = []" by (simp add: KeyValues_def getlines.simps)
  ultimately show ?thesis by (simp add: source_sane_def sample_source_def)
qed

lemma sample_collector_facts: "mc_config sample_collector = default_config" "collector_inv sample_collector"
  by (simp_all add: sample_collector_def new_collector_def collector_inv_def sample_shape_def Let_def)

lemma Validate_default: "Validate default_config = Inr ()"
  by (simp add: Validate_def default_config_def)


end
