(* ===== verification/Server_App.thy ===== *)
theory Server_App
  imports Linux_Source Collector_Valid Shared_State
begin

text \<open>
  The sampling worker of \<^verbatim>\<open>server/app/server_app.cpp\<close>: collect, number, publish, notify the reactor, and wait for the
  next point of the schedule. One round of the loop is a function of what happens during it: the
  files, the clock readings, whether a stop was requested before and after collecting, and how the
  writes to the event descriptor failed before one succeeded. Times are in nanoseconds.
\<close>

record Worker =
  wk_next :: int
  wk_sequence :: u64
  wk_skipped :: u64
  wk_collector :: MetricsCollector
  wk_state :: "PublishedSnapshot option"
  wk_notified :: bool

record tick =
  t_kernel :: kernel
  t_clocks :: clocks
  t_stop_before :: bool
  t_stop_after :: bool
  t_encode_begin :: int
  t_encode_end :: int
  t_write_errors :: "errno list"
  t_now :: int

definition start_worker :: "int \<Rightarrow> MetricsCollector \<Rightarrow> Worker" where
  "start_worker t m =
     \<lparr>wk_next = t, wk_sequence = 0, wk_skipped = 0, wk_collector = m, wk_state = None, wk_notified = False\<rparr>"

fun notify :: "errno list \<Rightarrow> bool" where
  "notify [] = True"
| "notify (err # errs) = (if err = EINTR then notify errs else False)"

definition interval_ns :: "ServerConfig \<Rightarrow> int" where
  "interval_ns c = int (poll_interval c) * 1000000"

definition schedule :: "int \<Rightarrow> int \<Rightarrow> Worker \<Rightarrow> Worker" where
  "schedule interval now_at w =
     (let nxt = wk_next w + interval
      in if nxt \<le> now_at then
           let missed = (now_at - nxt) div interval + 1
           in w\<lparr>wk_next := nxt + missed * interval, wk_skipped := wk_skipped w + of_int missed\<rparr>
         else w\<lparr>wk_next := nxt\<rparr>)"

definition number_snapshot :: "u64 \<Rightarrow> string \<Rightarrow> u64 \<Rightarrow> SystemSnapshot \<Rightarrow> SystemSnapshot" where
  "number_snapshot sq ident skipped s =
     s\<lparr>telemetry := (telemetry s)\<lparr>sequence := sq, instance_id := ident, skipped_ticks := skipped\<rparr>\<rparr>"

text \<open>One round: whether the loop ends, and the generation it published.\<close>

definition worker_step :: "ServerConfig \<Rightarrow> string \<Rightarrow> tick \<Rightarrow> Worker \<Rightarrow> bool \<times> PublishedSnapshot option \<times> Worker" where
  "worker_step c ident t w =
     (let (m, s) = Collect (linux_source c (t_kernel t)) (t_clocks t) (wk_collector w);
          w0 = w\<lparr>wk_collector := m\<rparr>
      in if t_stop_after t then (True, None, w0)
         else
           let w1 = w0\<lparr>wk_sequence := wk_sequence w0 + 1\<rparr>;
               s1 = number_snapshot (wk_sequence w1) ident (wk_skipped w1) s
           in case Publish s1 (t_encode_begin t) (t_encode_end t) of
                Inl _ \<Rightarrow> (False, None, schedule (interval_ns c) (t_now t) w1)
              | Inr g \<Rightarrow>
                  (False, Some g, schedule (interval_ns c) (t_now t)
                     (w1\<lparr>wk_state := Some g, wk_notified := (wk_notified w1 \<or> notify (t_write_errors t))\<rparr>)))"

fun worker_loop :: "ServerConfig \<Rightarrow> string \<Rightarrow> tick list \<Rightarrow> Worker \<Rightarrow> PublishedSnapshot list \<times> Worker" where
  "worker_loop c ident [] w = ([], w)"
| "worker_loop c ident (t # ts) w =
     (if t_stop_before t then ([], w)
      else case worker_step c ident t w of
             (True, _, w1) \<Rightarrow> ([], w1)
           | (False, published, w1) \<Rightarrow>
               let (gs, w2) = worker_loop c ident ts w1
               in ((case published of None \<Rightarrow> [] | Some g \<Rightarrow> [g]) @ gs, w2))"

section \<open>The schedule\<close>

lemma schedule_fields [simp]:
  "wk_sequence (schedule i n w) = wk_sequence w" "wk_collector (schedule i n w) = wk_collector w"
  "wk_state (schedule i n w) = wk_state w" "wk_notified (schedule i n w) = wk_notified w"
  by (simp_all add: schedule_def Let_def)

lemma schedule_next:
  assumes "0 < i"
  obtains n :: nat where "wk_next (schedule i t w) = wk_next w + (int n + 1) * i" "wk_skipped (schedule i t w) = wk_skipped w + of_nat n"
    "t < wk_next (schedule i t w)" "0 < n \<Longrightarrow> wk_next (schedule i t w) - i \<le> t"
proof (cases "wk_next w + i \<le> t")
  case True
  define d where "d = t - (wk_next w + i)"
  define m where "m = d div i"
  have d: "d = m * i + d mod i" "0 \<le> d mod i" "d mod i < i" using assms by (simp_all add: m_def)
  have m0: "0 \<le> m" using True assms by (simp add: m_def d_def pos_imp_zdiv_nonneg_iff)
  have step: "schedule i t w = w\<lparr>wk_next := wk_next w + i + (m + 1) * i, wk_skipped := wk_skipped w + of_int (m + 1)\<rparr>"
    using True by (simp add: schedule_def Let_def m_def d_def)
  have expand: "(m + 1) * i = m * i + i" "(m + 1 + 1) * i = m * i + i + i" by (simp_all add: algebra_simps)
  have t: "t = wk_next w + i + m * i + d mod i" using d(1) d_def by linarith
  show thesis
  proof (rule that [of "nat (m + 1)"])
    show "wk_next (schedule i t w) = wk_next w + (int (nat (m + 1)) + 1) * i" using m0 expand by (simp add: step)
    show "wk_skipped (schedule i t w) = wk_skipped w + of_nat (nat (m + 1))" using m0 by (simp add: step of_nat_nat)
    have nxt: "wk_next (schedule i t w) = wk_next w + i + (m * i + i)" unfolding step expand by simp
    show "t < wk_next (schedule i t w)" "wk_next (schedule i t w) - i \<le> t" unfolding nxt using t d(2,3) by linarith+
  qed
next
  case False
  then show thesis by (intro that [of 0]) (simp_all add: schedule_def Let_def)
qed


text \<open>
  C27: the schedule has no drift and accounts for what it skips. After every round the next sample is
  due at a point of the original grid, strictly in the future; the number of grid points left out is added to
  the counter that the snapshots carry, and one is left out only when it was already due.
\<close>

theorem schedule_on_grid:
  assumes "Validate c = Inr ()" "worker_step c ident t w = (False, g, w')"
  shows "\<exists>n :: nat. wk_next w' = wk_next w + (int n + 1) * interval_ns c \<and> wk_skipped w' = wk_skipped w + of_nat n \<and>
    t_now t < wk_next w' \<and> (0 < n \<longrightarrow> wk_next w' - interval_ns c \<le> t_now t)"
proof -
  have pos: "0 < interval_ns c" using Validate_limits [OF assms(1)] by (simp add: interval_ns_def)
  obtain w1 where w1: "w' = schedule (interval_ns c) (t_now t) w1" "wk_next w1 = wk_next w" "wk_skipped w1 = wk_skipped w"
    using assms(2) by (auto simp: worker_step_def Let_def split: if_splits sum.splits prod.splits)
  obtain n where "wk_next w' = wk_next w1 + (int n + 1) * interval_ns c" "wk_skipped w' = wk_skipped w1 + of_nat n"
    "t_now t < wk_next w'" "0 < n \<Longrightarrow> wk_next w' - interval_ns c \<le> t_now t"
    using schedule_next [OF pos, of "t_now t" w1] unfolding w1(1) by blast
  with w1 show ?thesis by auto
qed


definition blank_kernel :: kernel where
  "blank_kernel = \<lparr>k_open = (\<lambda>_. Inl 2), k_dir = (\<lambda>_. Inl 2), k_statvfs = (\<lambda>_. Inl 2), k_stat = (\<lambda>_. None),
     k_strerror = (\<lambda>_. ''No such file or directory'')\<rparr>"

definition sample_tick :: tick where
  "sample_tick = \<lparr>t_kernel = blank_kernel, t_clocks = sample_clocks, t_stop_before = False, t_stop_after = False,
     t_encode_begin = 7, t_encode_end = 8, t_write_errors = [EINTR], t_now = 1500000000\<rparr>"

lemma worker_step_stops: "fst (worker_step c ident t w) = t_stop_after t"
  by (auto simp: worker_step_def Let_def split: prod.splits sum.splits)

theorem schedule_on_grid_witness:
  "\<exists>g w'. worker_step default_config ''a'' sample_tick (start_worker 0 sample_collector) = (False, g, w') \<and>
     wk_next w' = 2000000000 \<and> wk_skipped w' = 1"
proof -
  obtain g w' where step: "worker_step default_config ''a'' sample_tick (start_worker 0 sample_collector) = (False, g, w')"
    using worker_step_stops [of default_config "''a''" sample_tick "start_worker 0 sample_collector"]
    by (cases "worker_step default_config ''a'' sample_tick (start_worker 0 sample_collector)") (simp add: sample_tick_def)
  obtain n :: nat where n: "wk_next w' = (int n + 1) * 1000000000" "wk_skipped w' = of_nat n" "1500000000 < wk_next w'"
    "0 < n \<longrightarrow> wk_next w' - 1000000000 \<le> 1500000000"
    using schedule_on_grid [OF Validate_default step]
    by (auto simp: start_worker_def sample_tick_def interval_ns_def default_config_def)
  then have "n = 1" by (cases n) auto
  with n step show ?thesis by auto
qed

section \<open>What is published\<close>

definition worker_ok :: "ServerConfig \<Rightarrow> Worker \<Rightarrow> bool" where
  "worker_ok c w \<longleftrightarrow> collector_inv (wk_collector w) \<and> mc_config (wk_collector w) = c"

definition seq_of :: "PublishedSnapshot \<Rightarrow> nat" where
  "seq_of g = unat (sequence (telemetry (snapshot g)))"

definition good_generation :: "string \<Rightarrow> PublishedSnapshot \<Rightarrow> bool" where
  "good_generation ident g \<longleftrightarrow>
     generation_ok g \<and> snapshot_valid (snapshot g) \<and> instance_id (telemetry (snapshot g)) = ident"

lemma snapshot_valid_numbered:
  "snapshot_valid (number_snapshot sq ident sk s) = snapshot_valid (s\<lparr>telemetry := (telemetry s)\<lparr>instance_id := ident\<rparr>\<rparr>)"
  by (simp add: number_snapshot_def snapshot_valid_def)

lemma worker_step_ok:
  assumes "Validate c = Inr ()" "ident \<noteq> []" "source_sane (linux_source c (t_kernel t))" "worker_ok c w"
    and "worker_step c ident t w = (stopped, published, w')"
  shows "worker_ok c w'"
    and "\<not> stopped \<Longrightarrow> wk_sequence w' = wk_sequence w + 1"
    and "published = Some g \<Longrightarrow> good_generation ident g \<and> sequence (telemetry (snapshot g)) = wk_sequence w + 1"
    and "wk_state w' = (case published of None \<Rightarrow> wk_state w | Some g \<Rightarrow> Some g)"
    and "stopped \<Longrightarrow> published = None"
proof -
  let ?src = "linux_source c (t_kernel t)"
  obtain m s where C: "Collect ?src (t_clocks t) (wk_collector w) = (m, s)" by fastforce
  have col: "snapshot_valid (s\<lparr>telemetry := (telemetry s)\<lparr>instance_id := ident\<rparr>\<rparr>)" "collector_inv m" "mc_config m = c"
    using collected_snapshot_sound [OF assms(3) _ _ C assms(2)] assms(1,4) by (simp_all add: worker_ok_def)
  let ?s1 = "number_snapshot (wk_sequence w + 1) ident (wk_skipped w) s"
  let ?P = "Publish ?s1 (t_encode_begin t) (t_encode_end t)"
  have good: "good_generation ident g \<and> sequence (telemetry (snapshot g)) = wk_sequence w + 1" if "?P = Inr g" for g
    using Publish_ok [OF that] col(1) snapshot_valid_numbered by (simp add: good_generation_def) (simp add: number_snapshot_def)
  note def = assms(5) [unfolded worker_step_def C Let_def prod.case]
  show "worker_ok c w'" using def col by (auto simp: worker_ok_def split: if_splits sum.splits)
  show "wk_sequence w' = wk_sequence w + 1" if "\<not> stopped" using def that by (auto split: if_splits sum.splits)
  show "good_generation ident g \<and> sequence (telemetry (snapshot g)) = wk_sequence w + 1" if "published = Some g"
    using def that good [of g] by (auto split: if_splits sum.splits)
  show "wk_state w' = (case published of None \<Rightarrow> wk_state w | Some g \<Rightarrow> Some g)"
    using def by (auto split: if_splits sum.splits)
  show "published = None" if "stopped" using def that by (auto split: if_splits sum.splits)
qed

lemma worker_loop_ok:
  assumes "Validate c = Inr ()" "ident \<noteq> []" "\<forall>t \<in> set ts. source_sane (linux_source c (t_kernel t))" "worker_ok c w"
    and "unat (wk_sequence w) + length ts < 2 ^ 64" "worker_loop c ident ts w = (gs, w')"
  shows "list_all (good_generation ident) gs \<and> sorted_wrt (\<lambda>g h. seq_of g < seq_of h) gs \<and>
    list_all (\<lambda>g. unat (wk_sequence w) < seq_of g) gs \<and> wk_state w' = (if gs = [] then wk_state w else Some (last gs))"
  using assms(3-)
proof (induction ts arbitrary: w gs)
  case (Cons t ts)
  obtain stopped published w1 where S: "worker_step c ident t w = (stopped, published, w1)" by (metis prod_cases3)
  note step = worker_step_ok [OF assms(1,2) _ _ S]
  have sane: "source_sane (linux_source c (t_kernel t))" using Cons.prems by simp
  show ?case
  proof (cases "t_stop_before t \<or> stopped")
    case True
    then show ?thesis using Cons.prems S step(4,5) [OF sane] by (auto split: if_splits)
  next
    case False
    obtain hs where L: "worker_loop c ident ts w1 = (hs, w')" "gs = (case published of None \<Rightarrow> [] | Some g \<Rightarrow> [g]) @ hs"
      using Cons.prems S False by (auto split: prod.splits)
    have sq: "wk_sequence w1 = wk_sequence w + 1" using step(2) [OF sane] Cons.prems False by simp
    have lt: "unat (wk_sequence w) + 1 < 2 ^ 64" using Cons.prems by simp
    then have u: "unat (wk_sequence w1) = unat (wk_sequence w) + 1" unfolding sq by (simp add: unat_add_lem [THEN iffD1])
    have IH: "list_all (good_generation ident) hs \<and> sorted_wrt (\<lambda>g h. seq_of g < seq_of h) hs \<and>
        list_all (\<lambda>g. unat (wk_sequence w1) < seq_of g) hs \<and> wk_state w' = (if hs = [] then wk_state w1 else Some (last hs))"
      using Cons.prems step(1) [OF sane] u by (intro Cons.IH [OF _ _ _ L(1)]) simp_all
    show ?thesis
    proof (cases published)
      case None
      then show ?thesis using IH L(2) u step(4) [OF sane] Cons.prems by (auto simp: list_all_iff)
    next
      case (Some g)
      have g: "good_generation ident g" "seq_of g = unat (wk_sequence w1)"
        using step(3) [OF sane _ Some] Cons.prems sq by (simp_all add: seq_of_def)
      then show ?thesis using IH L(2) u Some step(4) [OF sane] Cons.prems by (auto simp: list_all_iff)
    qed
  qed
qed simp



lemma blank_kernel_sane: "source_sane (linux_source c blank_kernel)"
proof -
  have "ParseCpu [] = []" by code_simp
  moreover have "KeyValues [] = []" by (simp add: KeyValues_def getlines.simps)
  ultimately show ?thesis by (simp add: source_sane_def linux_source_def blank_kernel_def Read_file_def list_pids_def)
qed


end
