(* ===== verification/Unique_Fd.thy ===== *)
theory Unique_Fd
  imports WH_Prelude "HOL-Library.Multiset"
begin

text \<open>
  Ownership of descriptors, \<^verbatim>\<open>common/unique_fd.hpp\<close>. A \<^verbatim>\<open>UniqueFd\<close> is its member, the number of the
  descriptor it owns or a negative number. The operations act on the state of the process: the table of
  open descriptors and \<^verbatim>\<open>errno\<close>. \<open>closed_twice\<close> records a \<^verbatim>\<open>close\<close> of a descriptor that was not open, which in a
  process with threads may hit the descriptor of somebody else.
\<close>

record fd_process =
  open_table :: "int set"
  errno_value :: int
  close_errno :: int \<comment> \<open>what \<^verbatim>\<open>close\<close> leaves in \<^verbatim>\<open>errno\<close>\<close>
  closed_twice :: bool

type_synonym UniqueFd = int

definition no_fd :: UniqueFd where
  "no_fd = - 1"

definition fd_valid :: "UniqueFd \<Rightarrow> bool" where
  "fd_valid u \<longleftrightarrow> u \<ge> 0"

definition sys_close :: "int \<Rightarrow> fd_process \<Rightarrow> fd_process" where
  "sys_close fd p = p\<lparr>open_table := open_table p - {fd}, errno_value := close_errno p,
     closed_twice := (closed_twice p \<or> fd \<notin> open_table p)\<rparr>"

definition Release :: "UniqueFd \<Rightarrow> int \<times> UniqueFd" where
  "Release u = (u, no_fd)"

definition Reset_fd :: "int \<Rightarrow> UniqueFd \<Rightarrow> fd_process \<Rightarrow> UniqueFd \<times> fd_process" where
  "Reset_fd fd u p =
     (let old = u
      in (fd, if old \<ge> 0 then (sys_close old p)\<lparr>errno_value := errno_value p\<rparr> else p))"

text \<open>Move assignment between two objects at places \<open>i\<close> and \<open>j\<close>; the address test guards against self-assignment.\<close>

definition Move_assign :: "nat \<Rightarrow> nat \<Rightarrow> UniqueFd list \<Rightarrow> fd_process \<Rightarrow> UniqueFd list \<times> fd_process" where
  "Move_assign i j us p =
     (if i \<noteq> j then
        let (fd, other) = Release (us ! j); (u, p1) = Reset_fd fd (us ! i) p
        in (us[j := other, i := u], p1)
      else (us, p))"

section \<open>A program that uses them\<close>

text \<open>
  The steps of a program on its objects: construct one from a descriptor the kernel has just opened
  (or from a failed call), construct one by moving, move-assign, reset, and destroy the last one.
\<close>

datatype fd_step = Construct int | Move_construct nat | Assign nat nat | Reset_to nat int | Destroy

definition fresh :: "int \<Rightarrow> fd_process \<Rightarrow> bool" where
  "fresh fd p \<longleftrightarrow> fd < 0 \<or> fd \<notin> open_table p"

definition opened :: "int \<Rightarrow> fd_process \<Rightarrow> fd_process" where
  "opened fd p = (if fd < 0 then p else p\<lparr>open_table := insert fd (open_table p)\<rparr>)"

fun fd_exec :: "fd_step \<Rightarrow> UniqueFd list \<times> fd_process \<Rightarrow> UniqueFd list \<times> fd_process" where
  "fd_exec (Construct fd) (us, p) = (us @ [fd], opened fd p)"
| "fd_exec (Move_construct j) (us, p) = (let (fd, other) = Release (us ! j) in (us[j := other] @ [fd], p))"
| "fd_exec (Assign i j) (us, p) = Move_assign i j us p"
| "fd_exec (Reset_to i fd) (us, p) = (let (u, p1) = Reset_fd fd (us ! i) (opened fd p) in (us[i := u], p1))"
| "fd_exec Destroy (us, p) = (let (u, p1) = Reset_fd no_fd (last us) p in (butlast us, p1))"

fun fd_allowed :: "fd_step \<Rightarrow> UniqueFd list \<times> fd_process \<Rightarrow> bool" where
  "fd_allowed (Construct fd) (us, p) = fresh fd p"
| "fd_allowed (Move_construct j) (us, p) = (j < length us)"
| "fd_allowed (Assign i j) (us, p) = (i < length us \<and> j < length us)"
| "fd_allowed (Reset_to i fd) (us, p) = (i < length us \<and> fresh fd p)"
| "fd_allowed Destroy (us, p) = (us \<noteq> [])"

inductive fd_run :: "UniqueFd list \<times> fd_process \<Rightarrow> bool" where
  fd_start: "open_table p = {} \<Longrightarrow> \<not> closed_twice p \<Longrightarrow> fd_run ([], p)"
| fd_next: "fd_run st \<Longrightarrow> fd_allowed step st \<Longrightarrow> fd_run (fd_exec step st)"

section \<open>Ownership\<close>

text \<open>How many objects hold a descriptor: one for an open descriptor, none for another.\<close>

definition owners :: "UniqueFd list \<Rightarrow> int \<Rightarrow> nat" where
  "owners us fd = count (mset us) fd"

definition fd_inv :: "UniqueFd list \<times> fd_process \<Rightarrow> bool" where
  "fd_inv st \<longleftrightarrow>
     (\<forall>fd \<ge> 0. owners (fst st) fd = (if fd \<in> open_table (snd st) then 1 else 0)) \<and>
     (\<forall>fd \<in> open_table (snd st). fd \<ge> 0) \<and> \<not> closed_twice (snd st)"

lemma owners_simps [simp]:
  "owners [] fd = 0"
  "owners (us @ [u]) fd = owners us fd + (if u = fd then 1 else 0)"
  by (simp_all add: owners_def)

lemma owners_update:
  assumes "i < length us"
  shows "owners (us[i := u]) fd = owners us fd - (if us ! i = fd then 1 else 0) + (if u = fd then 1 else 0)"
  using assms by (simp add: owners_def mset_update)

lemma owners_nth: "i < length us \<Longrightarrow> 0 < owners us (us ! i)"
  by (simp add: owners_def)

lemma owners_butlast: "us \<noteq> [] \<Longrightarrow> owners (butlast us) fd = owners us fd - (if last us = fd then 1 else 0)"
  by (cases us rule: rev_cases) simp_all

lemma last_owned: "us \<noteq> [] \<Longrightarrow> 0 < owners us (last us)"
  by (cases us rule: rev_cases) simp_all

lemma held_open: "fd_inv (us, p) \<Longrightarrow> 0 < owners us fd \<Longrightarrow> fd < 0 \<or> fd \<in> open_table p"
  unfolding fd_inv_def by (metis fst_conv snd_conv less_irrefl not_less)

lemmas fd_defs = fresh_def opened_def Reset_fd_def Release_def Move_assign_def sys_close_def no_fd_def Let_def

lemma fd_exec_inv:
  assumes "fd_inv (us, p)" "fd_allowed step (us, p)"
  shows "fd_inv (fd_exec step (us, p))"
proof (cases step)
  case (Construct fd)
  with assms show ?thesis by (auto simp: fd_inv_def fd_defs)
next
  case (Move_construct j)
  with assms owners_nth [of j us] show ?thesis by (auto simp: fd_inv_def fd_defs owners_update)
next
  case (Assign i j)
  show ?thesis
  proof (cases "i = j")
    case False
    have "us[j := - 1] ! i = us ! i" using False by simp
    moreover have "1 < owners us (us ! i)" if "us ! i = us ! j" "0 \<le> us ! i" "i < length us" "j < length us"
      using owners_nth [of i "us[j := - 1]"] owners_update [of j us "- 1" "us ! i"] that False by auto
    ultimately show ?thesis using Assign assms False owners_nth [of j us] owners_nth [of i us] held_open [OF assms(1), of "us ! i"]
      held_open [OF assms(1), of "us ! j"]
      by (auto simp: fd_inv_def fd_defs owners_update)
  qed (use Assign assms in \<open>simp add: Move_assign_def\<close>)
next
  case (Reset_to i fd)
  then have "us ! i < 0 \<or> us ! i \<in> open_table p" "i < length us"
    using assms held_open [OF assms(1), of "us ! i"] owners_nth [of i us] by auto
  with Reset_to assms owners_nth [of i us] show ?thesis
    by (auto simp: fd_inv_def fd_defs owners_update)
next
  case Destroy
  with assms last_owned [of us] held_open [OF assms(1), of "last us"] show ?thesis
    by (auto simp: fd_inv_def fd_defs owners_butlast)
qed

lemma fd_run_inv: "fd_run st \<Longrightarrow> fd_inv st"
proof (induction rule: fd_run.induct)
  case (fd_start p)
  then show ?case by (simp add: fd_inv_def)
next
  case (fd_next st step)
  then show ?case using fd_exec_inv [of "fst st" "snd st" step] by simp
qed

text \<open>
  C26: descriptors are owned by exactly one object. However a program constructs, moves, assigns (to
  itself as well), resets and destroys these objects, every open descriptor has one owner, no descriptor is
  closed twice, and when the last object is gone nothing is left open.
\<close>

theorem descriptors_owned_once:
  assumes "fd_run (us, p)"
  shows "\<not> closed_twice p \<and> (\<forall>fd \<in> open_table p. owners us fd = 1) \<and> open_table p = {fd \<in> set us. fd_valid fd}"
proof -
  have inv: "fd_inv (us, p)" using fd_run_inv [OF assms] .
  moreover have "fd \<in> set us \<longleftrightarrow> 0 < owners us fd" for fd by (simp add: owners_def)
  ultimately show ?thesis by (auto simp: fd_inv_def fd_valid_def split: if_splits)
qed

theorem descriptors_owned_once_witness:
  "let p = \<lparr>open_table = {}, errno_value = 0, close_errno = 5, closed_twice = False\<rparr>;
       (us, q) = fold fd_exec [Construct 3, Construct (- 1), Assign 1 0, Construct 4, Assign 2 1, Destroy] ([], p)
   in us = [- 1, - 1] \<and> open_table q = {} \<and> \<not> closed_twice q \<and> errno_value q = 0"
proof -
  let ?p = "\<lparr>open_table = {}, errno_value = 0, close_errno = 5, closed_twice = False\<rparr> :: fd_process"
  let ?q = "?p\<lparr>open_table := {}, errno_value := 0, closed_twice := False\<rparr>"
  have "fd_run ([], ?p)" by (rule fd_start) simp_all
  note steps = this [THEN fd_next, of "Construct 3", THEN fd_next, of "Construct (- 1)", THEN fd_next, of "Assign 1 0",
      THEN fd_next, of "Construct 4", THEN fd_next, of "Assign 2 1", THEN fd_next, of Destroy]
  have run: "fd_run ([- 1, - 1], ?q)" using steps by (simp add: fd_defs)
  show ?thesis using descriptors_owned_once [OF run] by (simp add: fd_defs)
qed

end
