(* ===== verification/Stream_Connection.thy ===== *)
theory Stream_Connection
  imports Protocol
begin

text \<open>
  The client's connection to the stream port, \<^verbatim>\<open>client/net/stream_connection.cpp\<close>: a state machine that the poll
  loop drives with \<open>Tick\<close> and \<open>Handle\<close>.

  \<open>sc_clock\<close> is the sequence of values that \<^verbatim>\<open>Clock::now()\<close> returns and \<open>sc_reads\<close> how many have been read;
  \<open>sc_random\<close> and \<open>sc_draws\<close> are the same for the random engine. Times are in nanoseconds. What the
  system calls answer is an argument; when the answers of \<^verbatim>\<open>recv\<close> are used up, the socket would block. The receiver is a
  function on a state \<open>'r\<close> of its own, which it may leave with an exception.
\<close>

record Address =
  address :: string
  addr_length :: nat
  family :: int

record StreamConnection =
  sc_addresses :: "Address list"
  sc_socket :: "int option"
  sc_decoder :: FrameDecoder
  sc_retry :: int
  sc_deadline :: int
  sc_last_frame :: int
  sc_frame_started :: int
  sc_address_index :: u64
  sc_attempts :: nat
  sc_connected :: bool
  sc_in_frame :: bool
  sc_status :: string
  sc_bytes :: u64
  sc_reconnects :: u64
  sc_clock :: "nat \<Rightarrow> int"
  sc_reads :: nat
  sc_random :: "nat \<Rightarrow> nat"
  sc_draws :: nat

datatype connect_answer = Socket_failed | Connect_done int | Connect_errno int errno

record poll_events =
  p_in :: bool
  p_out :: bool
  p_err :: bool
  p_hup :: bool
  p_nval :: bool

type_synonym 'r Receiver = "SystemSnapshot \<Rightarrow> 'r \<Rightarrow> exn option \<times> 'r"

definition seconds :: "int \<Rightarrow> int" where
  "seconds n = n * 1000000000"

definition milliseconds :: "int \<Rightarrow> int" where
  "milliseconds n = n * 1000000"

section \<open>Connecting\<close>

text \<open>The descriptor and the reference argument \<open>connecting\<close>, which a failed call leaves as it was.\<close>

definition Connect :: "connect_answer \<Rightarrow> bool \<Rightarrow> int option \<times> bool" where
  "Connect ans connecting =
     (case ans of
        Socket_failed \<Rightarrow> (None, connecting)
      | Connect_done fd \<Rightarrow> (Some fd, False)
      | Connect_errno fd err \<Rightarrow> if err = EINPROGRESS then (Some fd, True) else (None, connecting))"

definition Resolve :: "(string + Address list) \<Rightarrow> Address list result" where
  "Resolve ans =
     (case ans of
        Inl what \<Rightarrow> Inl (Runtime_error (''resolve: '' @ what))
      | Inr found \<Rightarrow>
          let usable = filter (\<lambda>a. addr_length a \<le> 128) found
          in if usable = [] then Inl (Runtime_error ''no usable server address'') else Inr usable)"

definition new_connection :: "Address list \<Rightarrow> (nat \<Rightarrow> int) \<Rightarrow> (nat \<Rightarrow> nat) \<Rightarrow> StreamConnection result" where
  "new_connection as clk rnd =
     (if as = [] then Inl (Invalid_argument ''empty address list'')
      else Inr \<lparr>sc_addresses = as, sc_socket = None, sc_decoder = new_decoder, sc_retry = 0, sc_deadline = 0,
             sc_last_frame = 0, sc_frame_started = 0, sc_address_index = 0, sc_attempts = 0, sc_connected = False,
             sc_in_frame = False, sc_status = ''connecting'', sc_bytes = 0, sc_reconnects = 0,
             sc_clock = clk, sc_reads = 0, sc_random = rnd, sc_draws = 0\<rparr>)"

section \<open>The state machine\<close>

definition clock_now :: "StreamConnection \<Rightarrow> int \<times> StreamConnection" where
  "clock_now c = (sc_clock c (sc_reads c), c\<lparr>sc_reads := sc_reads c + 1\<rparr>)"

text \<open>\<^verbatim>\<open>std::uniform_int_distribution\<close>: a number between the two bounds, which are ordered.\<close>

definition uniform :: "nat \<Rightarrow> nat \<Rightarrow> StreamConnection \<Rightarrow> nat \<times> StreamConnection" where
  "uniform lo hi c = (lo + sc_random c (sc_draws c) mod (hi - lo + 1), c\<lparr>sc_draws := sc_draws c + 1\<rparr>)"

definition backoff_cap :: "nat \<Rightarrow> nat" where
  "backoff_cap attempts = min 10000 (250 * 2 ^ min attempts 5)"

definition Disconnect :: "string \<Rightarrow> StreamConnection \<Rightarrow> StreamConnection" where
  "Disconnect why c =
     (let c1 = c\<lparr>sc_socket := None, sc_decoder := Reset (sc_decoder c), sc_connected := False, sc_in_frame := False,
                 sc_status := why\<rparr>;
          cap = backoff_cap (sc_attempts c1);
          (t, c2) = clock_now c1;
          (jitter, c3) = uniform (cap div 2) cap c2
      in c3\<lparr>sc_retry := t + milliseconds (int jitter), sc_attempts := min (sc_attempts c3 + 1) 16,
            sc_reconnects := sc_reconnects c3 + 1\<rparr>)"

text \<open>The address that the next attempt uses.\<close>

definition next_address :: "StreamConnection \<Rightarrow> Address" where
  "next_address c = sc_addresses c ! (unat (sc_address_index c) mod length (sc_addresses c))"

definition Tick :: "int \<Rightarrow> (Address \<Rightarrow> connect_answer) \<Rightarrow> StreamConnection \<Rightarrow> StreamConnection" where
  "Tick t net c =
     (if sc_socket c \<noteq> None then
        (if \<not> sc_connected c \<and> t \<ge> sc_deadline c then Disconnect ''connect timeout'' c
         else if sc_in_frame c \<and> t - sc_frame_started c > seconds 10 then Disconnect ''frame deadline exceeded'' c
         else if sc_connected c \<and> t - sc_last_frame c > seconds 180 then Disconnect ''stream idle timeout'' c
         else c)
      else if t < sc_retry c then c
      else
        let (fd, connecting) = Connect (net (next_address c)) False;
            c1 = c\<lparr>sc_socket := fd, sc_address_index := sc_address_index c + 1\<rparr>
        in if fd = None then Disconnect ''connect failed; retrying'' c1
           else c1\<lparr>sc_connected := \<not> connecting, sc_deadline := t + seconds 3, sc_last_frame := t,
                   sc_status := (if \<not> connecting then ''connected'' else ''connecting'')\<rparr>)"

definition Events :: "StreamConnection \<Rightarrow> poll_events" where
  "Events c = \<lparr>p_in = sc_connected c, p_out = \<not> sc_connected c, p_err = False, p_hup = False, p_nval = False\<rparr>"

section \<open>Receiving\<close>

text \<open>How a loop is left: it goes on, the handler returns, or an exception leaves the handler.\<close>

datatype flow = Go_on | Return | Throw exn

definition begin_frame :: "StreamConnection \<Rightarrow> StreamConnection" where
  "begin_frame c =
     (if sc_in_frame c then c
      else let (t, c1) = clock_now c in c1\<lparr>sc_in_frame := True, sc_frame_started := t\<rparr>)"

definition end_frame :: "StreamConnection \<Rightarrow> StreamConnection" where
  "end_frame c =
     (let c1 = c\<lparr>sc_decoder := Reset (sc_decoder c), sc_in_frame := False\<rparr>; (t, c2) = clock_now c1
      in c2\<lparr>sc_last_frame := t, sc_attempts := 0\<rparr>)"

text \<open>\<^verbatim>\<open>catch (std::length_error)\<close>: this exception ends the connection, another one leaves the handler.\<close>

definition caught :: "exn \<Rightarrow> StreamConnection \<Rightarrow> 'r \<Rightarrow> flow \<times> StreamConnection \<times> 'r" where
  "caught e c r = (case e of Length_error what \<Rightarrow> (Return, Disconnect what c, r) | _ \<Rightarrow> (Throw e, c, r))"

text \<open>The loop over one buffer. \<open>None\<close> is running out of fuel.\<close>

fun feed_buffer :: "nat \<Rightarrow> 'r Receiver \<Rightarrow> string \<Rightarrow> StreamConnection \<Rightarrow> 'r \<Rightarrow> (flow \<times> StreamConnection \<times> 'r) option" where
  "feed_buffer 0 receive bs c r = None"
| "feed_buffer (Suc fuel) receive bs c r =
     (if bs = [] then Some (Go_on, c, r)
      else
        let c1 = begin_frame c
        in case Feed (sc_decoder c1) bs of
             (d, Inl e) \<Rightarrow> Some (caught e (c1\<lparr>sc_decoder := d\<rparr>) r)
           | (d, Inr n) \<Rightarrow>
               let c2 = c1\<lparr>sc_decoder := d\<rparr>
               in if Complete d then
                    (case Decode (payload d) of
                       Inl err \<Rightarrow> Some (Return, Disconnect err c2, r)
                     | Inr s \<Rightarrow>
                         (case receive s r of
                            (Some e, r1) \<Rightarrow> Some (caught e c2 r1)
                          | (None, r1) \<Rightarrow> feed_buffer fuel receive (drop n bs) (end_frame c2) r1))
                  else feed_buffer fuel receive (drop n bs) c2 r)"

fun recv_loop :: "nat \<Rightarrow> 'r Receiver \<Rightarrow> recv_answer list \<Rightarrow> StreamConnection \<Rightarrow> 'r \<Rightarrow> (flow \<times> StreamConnection \<times> 'r) option" where
  "recv_loop 0 receive as c r = Some (Return, c, r)"
| "recv_loop (Suc n) receive [] c r = Some (Return, c, r)"
| "recv_loop (Suc n) receive (Recv_error err # as) c r =
     (if err = EINTR then recv_loop n receive as c r
      else if err = EAGAIN then Some (Return, c, r)
      else Some (Return, Disconnect ''receive failed'' c, r))"
| "recv_loop (Suc n) receive (Recv bs # as) c r =
     (if bs = [] then
        Some (Return, Disconnect (if sc_in_frame c then ''truncated frame'' else ''server closed stream'') c, r)
      else
        case feed_buffer (Suc (length bs)) receive bs (c\<lparr>sc_bytes := sc_bytes c + of_nat (length bs)\<rparr>) r of
          Some (Go_on, c1, r1) \<Rightarrow> recv_loop n receive as c1 r1
        | stopped \<Rightarrow> stopped)"

text \<open>\<open>check_ok\<close> is the answer of \<^verbatim>\<open>getsockopt(SO_ERROR)\<close> in \<^verbatim>\<open>CheckConnected\<close>.\<close>

definition Handle :: "poll_events \<Rightarrow> bool \<Rightarrow> 'r Receiver \<Rightarrow> recv_answer list \<Rightarrow> StreamConnection \<Rightarrow> 'r \<Rightarrow>
    (flow \<times> StreamConnection \<times> 'r) option" where
  "Handle ev check_ok receive as c r =
     (if sc_socket c = None then Some (Return, c, r)
      else if p_nval ev then Some (Return, Disconnect ''invalid socket'' c, r)
      else if \<not> sc_connected c \<and> \<not> (p_out ev \<or> p_err ev \<or> p_hup ev) then Some (Return, c, r)
      else if \<not> sc_connected c \<and> \<not> check_ok then Some (Return, Disconnect ''connect refused; retrying'' c, r)
      else
        let c1 = (if sc_connected c then c
                  else let (t, c2) = clock_now (c\<lparr>sc_connected := True, sc_status := ''connected''\<rparr>)
                       in c2\<lparr>sc_last_frame := t\<rparr>)
        in if \<not> (p_in ev \<or> p_hup ev \<or> p_err ev) then Some (Return, c1, r)
           else recv_loop 16 receive as c1 r)"

end
