(* ===== verification/Stream_Client.thy ===== *)
theory Stream_Client
  imports Stream_Connection Shared_State
begin

text \<open>
  What the stream connection guarantees: an invariant of its state, that it hands the
  receiver exactly the snapshots that the bytes encode, and that it always comes back after a failure.
\<close>

section \<open>Invariant\<close>

definition conn_inv :: "StreamConnection \<Rightarrow> bool" where
  "conn_inv c \<longleftrightarrow>
     sc_addresses c \<noteq> [] \<and> sc_attempts c \<le> 16 \<and> decoder_inv (sc_decoder c) \<and> \<not> Complete (sc_decoder c) \<and>
     (if sc_in_frame c then header_bytes (sc_decoder c) \<noteq> 0 else sc_decoder c = new_decoder) \<and>
     (sc_in_frame c \<longrightarrow> sc_connected c) \<and> (sc_connected c \<longrightarrow> sc_socket c \<noteq> None)"

definition closed :: "StreamConnection \<Rightarrow> bool" where
  "closed c \<longleftrightarrow> sc_socket c = None \<and> \<not> sc_connected c \<and> \<not> sc_in_frame c"

lemma Disconnect_fields [simp]:
  "sc_addresses (Disconnect why c) = sc_addresses c" "sc_socket (Disconnect why c) = None"
  "sc_connected (Disconnect why c) = False" "sc_in_frame (Disconnect why c) = False"
  "sc_decoder (Disconnect why c) = new_decoder" "sc_status (Disconnect why c) = why"
  "sc_attempts (Disconnect why c) = min (sc_attempts c + 1) 16" "sc_reconnects (Disconnect why c) = sc_reconnects c + 1"
  "sc_clock (Disconnect why c) = sc_clock c" "sc_address_index (Disconnect why c) = sc_address_index c"
  by (simp_all add: Disconnect_def Let_def clock_now_def uniform_def decoder_inv_new)

lemma Disconnect_inv: "sc_addresses c \<noteq> [] \<Longrightarrow> conn_inv (Disconnect why c) \<and> closed (Disconnect why c)"
  by (simp add: conn_inv_def closed_def decoder_inv_new)

lemma begin_frame_fields [simp]:
  "sc_addresses (begin_frame c) = sc_addresses c" "sc_socket (begin_frame c) = sc_socket c"
  "sc_connected (begin_frame c) = sc_connected c" "sc_decoder (begin_frame c) = sc_decoder c" "sc_in_frame (begin_frame c)"
  "sc_attempts (begin_frame c) = sc_attempts c" "sc_clock (begin_frame c) = sc_clock c"
  by (simp_all add: begin_frame_def clock_now_def)

lemma end_frame_fields [simp]:
  "sc_addresses (end_frame c) = sc_addresses c" "sc_socket (end_frame c) = sc_socket c"
  "sc_connected (end_frame c) = sc_connected c" "sc_decoder (end_frame c) = new_decoder" "\<not> sc_in_frame (end_frame c)"
  "sc_attempts (end_frame c) = 0" "sc_clock (end_frame c) = sc_clock c"
  by (simp_all add: end_frame_def clock_now_def Let_def decoder_inv_new)

lemma Tick_inv:
  assumes "conn_inv c"
  shows "conn_inv (Tick t net c)"
  using assms Disconnect_inv [of c] Disconnect_inv [of "c\<lparr>sc_socket := None, sc_address_index := sc_address_index c + 1\<rparr>"]
  by (auto simp: Tick_def Let_def conn_inv_def split: prod.splits)

section \<open>The reference\<close>

text \<open>What should happen to the payloads of a stream: decode one after the other and hand it to the receiver.\<close>

datatype stop = Undecodable string | Thrown exn

fun deliver :: "'r Receiver \<Rightarrow> string list \<Rightarrow> 'r \<Rightarrow> stop option \<times> 'r" where
  "deliver receive [] r = (None, r)"
| "deliver receive (p # ps) r =
     (case Decode p of
        Inl err \<Rightarrow> (Some (Undecodable err), r)
      | Inr s \<Rightarrow>
          (case receive s r of
             (Some e, r1) \<Rightarrow> (Some (Thrown e), r1)
           | (None, r1) \<Rightarrow> deliver receive ps r1))"

definition flow_of :: "stop option \<Rightarrow> exn option \<Rightarrow> flow" where
  "flow_of st e =
     (case st of
        Some (Undecodable _) \<Rightarrow> Return
      | Some (Thrown (Length_error _)) \<Rightarrow> Return
      | Some (Thrown x) \<Rightarrow> Throw x
      | None \<Rightarrow> (case e of None \<Rightarrow> Go_on | Some _ \<Rightarrow> Return))"

lemma feed_header_error: "feed_header d bs n = (d1, Inl e) \<Longrightarrow> \<exists>what. e = Length_error what"
  by (induction d bs n rule: feed_header.induct) (auto simp: Let_def split: if_splits)

lemma Feed_error: "Feed d bs = (d1, Inl e) \<Longrightarrow> \<exists>what. e = Length_error what"
  using feed_header_error by (auto simp: Feed_def Let_def split: prod.splits sum.splits if_splits)

lemma feed_header_started:
  "feed_header d bs n = (d1, Inr x) \<Longrightarrow> bs \<noteq> [] \<or> header_bytes d \<noteq> 0 \<Longrightarrow> header_bytes d1 \<noteq> 0"
proof (induction d bs n rule: feed_header.induct)
  case (2 d b bs n)
  then show ?case by (cases "header_bytes d < 4") (auto simp: Let_def split: if_splits)
qed simp

lemma Feed_started: "Feed d bs = (d1, Inr n) \<Longrightarrow> bs \<noteq> [] \<Longrightarrow> header_bytes d1 \<noteq> 0"
  using feed_header_started [of d bs 0]
  by (auto simp: Feed_def feed_payload_def Let_def split: prod.splits sum.splits if_splits)


section \<open>The handler follows the reference\<close>

definition fed :: "flow \<Rightarrow> FrameDecoder \<Rightarrow> StreamConnection \<Rightarrow> StreamConnection \<Rightarrow> bool" where
  "fed fl d c c' \<longleftrightarrow>
     (case fl of
        Go_on \<Rightarrow> conn_inv c' \<and> sc_connected c' \<and> sc_decoder c' = d \<and> sc_socket c' = sc_socket c
      | Return \<Rightarrow> conn_inv c' \<and> closed c'
      | Throw _ \<Rightarrow> True)"

lemma fed_caught:
  assumes "caught e c r = (fl, c', r')" "sc_addresses c \<noteq> []"
  shows "r' = r \<and> fl = flow_of (Some (Thrown e)) e2 \<and> fed fl d c0 c'"
  using assms Disconnect_inv [of c]
  by (cases e) (auto simp: caught_def flow_of_def fed_def split: exn.splits)

lemma feed_buffer_deliver:
  assumes "conn_inv c" "sc_connected c" "length bs < fuel" "bytewise (sc_decoder c) bs = (d, ps, e)"
    and "deliver receive ps r = (st, r')"
  shows "\<exists>c'. feed_buffer fuel receive bs c r = Some (flow_of st e, c', r') \<and> fed (flow_of st e) d c c'"
  using assms
proof (induction fuel arbitrary: c r bs ps)
  case (Suc fuel)
  have a: "sc_addresses c \<noteq> []" "decoder_inv (sc_decoder c)" "\<not> Complete (sc_decoder c)" "sc_attempts c \<le> 16"
    using Suc.prems(1) by (simp_all add: conn_inv_def)
  show ?case
  proof (cases "bs = []")
    case True
    with Suc.prems show ?thesis by (auto simp: flow_of_def fed_def)
  next
    case False
    let ?c1 = "begin_frame c"
    obtain d1 x where F: "Feed (sc_decoder c) bs = (d1, x)" by fastforce
    note step = Feed_bytewise [OF a(2,3) F]
    show ?thesis
    proof (cases x)
      case (Inl e1)
      then obtain what where "e1 = Length_error what" using Feed_error F by blast
      moreover have "ps = []" "e = Some e1" using step Inl Suc.prems(4) by auto
      ultimately show ?thesis
        using F Inl False Suc.prems(5) Disconnect_inv [of "?c1\<lparr>sc_decoder := d1\<rparr>" what] a(1)
        by (auto simp: caught_def flow_of_def fed_def Let_def)
    next
      case (Inr n)
      let ?c2 = "?c1\<lparr>sc_decoder := d1\<rparr>"
      have n: "0 < n" "n \<le> length bs" "decoder_inv d1" "header_bytes d1 \<noteq> 0"
        using step Inr False Feed_started F by auto
      then have less: "length (drop n bs) < fuel" using Suc.prems(3) False by simp
      show ?thesis
      proof (cases "Complete d1")
        case False
        then have B: "bytewise d1 (drop n bs) = (d, ps, e)" using step Inr Suc.prems(4) by simp
        have inv: "conn_inv ?c2" "sc_connected ?c2" "sc_decoder ?c2 = d1"
          using n False a Suc.prems(1,2) by (simp_all add: conn_inv_def)
        obtain c' where "feed_buffer fuel receive (drop n bs) ?c2 r = Some (flow_of st e, c', r')" "fed (flow_of st e) d ?c2 c'"
          using Suc.IH [OF inv(1,2) less _ Suc.prems(5)] B inv(3) by auto
        with F Inr False \<open>bs \<noteq> []\<close> show ?thesis by (auto simp: Let_def fed_def split: flow.splits)
      next
        case True
        obtain ps' where B: "bytewise new_decoder (drop n bs) = (d, ps', e)" "ps = payload d1 # ps'"
          using step Inr Suc.prems(4) True by (auto simp: decoder_inv_new split: prod.splits)
        have inv: "conn_inv (end_frame ?c2)" "sc_connected (end_frame ?c2)"
          using a Suc.prems(1,2) by (simp_all add: conn_inv_def decoder_inv_new)
        show ?thesis
        proof (cases "Decode (payload d1)")
          case (Inl err)
          then show ?thesis
            using Suc.prems(5) B(2) F Inr True \<open>bs \<noteq> []\<close> Disconnect_inv [of ?c2 err] a(1)
            by (auto simp: Let_def flow_of_def fed_def)
        next
          case (Inr s)
          obtain o1 r1 where R: "receive s r = (o1, r1)" by fastforce
          show ?thesis
          proof (cases o1)
            case None
            then have D: "deliver receive ps' r1 = (st, r')" using Suc.prems(5) B(2) Inr R by simp
            obtain c' where "feed_buffer fuel receive (drop n bs) (end_frame ?c2) r1 = Some (flow_of st e, c', r')"
              "fed (flow_of st e) d (end_frame ?c2) c'"
              using Suc.IH [OF inv less _ D] B(1) by auto
            with F \<open>x = Inr n\<close> True \<open>bs \<noteq> []\<close> Inr R None show ?thesis by (auto simp: Let_def fed_def split: flow.splits)
          next
            case (Some e1)
            then have "st = Some (Thrown e1)" "r' = r1" using Suc.prems(5) B(2) Inr R by auto
            then show ?thesis
              using F \<open>x = Inr n\<close> True \<open>bs \<noteq> []\<close> Inr R Some fed_caught [of e1 ?c2 r1 _ _ _ e d c] a(1)
              by (cases "caught e1 ?c2 r1") (auto simp: Let_def)
          qed
        qed
      qed
    qed
  qed
qed simp


lemma deliver_append:
  "deliver receive (ps @ qs) r = (case deliver receive ps r of (Some x, r1) \<Rightarrow> (Some x, r1) | (None, r1) \<Rightarrow> deliver receive qs r1)"
  by (induction ps arbitrary: r) (auto split: sum.splits prod.splits option.splits)

text \<open>The same for the pieces that one event delivers: going on becomes returning when they are used up.\<close>

definition left :: "flow \<Rightarrow> flow" where
  "left fl = (if fl = Go_on then Return else fl)"

lemma flow_of_Go_on: "flow_of st e = Go_on \<longleftrightarrow> st = None \<and> e = None"
  by (auto simp: flow_of_def split: option.splits stop.splits exn.splits)

lemma left_not_Go_on: "fl \<noteq> Go_on \<Longrightarrow> left fl = fl"
  by (simp add: left_def)

lemma conn_inv_bytes: "conn_inv (c\<lparr>sc_bytes := n\<rparr>) = conn_inv c"
  by (simp add: conn_inv_def)

lemma bytewise_stops: "bytewise d (xs @ ys) = (d2, ps, e) \<Longrightarrow> bytewise d xs = (d1, qs, Some e1) \<Longrightarrow> ps = qs \<and> e = Some e1"
  by (auto simp: bytewise_append)

lemma recv_loop_deliver:
  assumes "conn_inv c" "sc_connected c" "length chunks \<le> n" "[] \<notin> set chunks"
    and "bytewise (sc_decoder c) (concat chunks) = (d, ps, e)" "deliver receive ps r = (st, r')"
  shows "\<exists>c'. recv_loop n receive (map Recv chunks) c r = Some (left (flow_of st e), c', r') \<and> fed (flow_of st e) d c c'"
  using assms
proof (induction chunks arbitrary: n c r ps)
  case Nil
  then show ?case by (cases n) (auto simp: flow_of_def fed_def left_def)
next
  case (Cons bs chunks)
  obtain m where n: "n = Suc m" using Cons.prems(3) by (cases n) auto
  let ?c = "c\<lparr>sc_bytes := sc_bytes c + of_nat (length bs)\<rparr>"
  obtain d1 qs e1 where B: "bytewise (sc_decoder c) bs = (d1, qs, e1)" by (metis prod_cases3)
  obtain st1 r1 where D: "deliver receive qs r = (st1, r1)" by fastforce
  obtain c1 where F: "feed_buffer (Suc (length bs)) receive bs ?c r = Some (flow_of st1 e1, c1, r1)" "fed (flow_of st1 e1) d1 ?c c1"
    using feed_buffer_deliver [of ?c bs "Suc (length bs)" d1 qs e1 receive r st1 r1] Cons.prems(1,2) B D
    by (auto simp: conn_inv_bytes)
  have loop: "recv_loop n receive (map Recv (bs # chunks)) c r =
      (case Some (flow_of st1 e1, c1, r1) of Some (Go_on, c2, r2) \<Rightarrow> recv_loop m receive (map Recv chunks) c2 r2 | stopped \<Rightarrow> stopped)"
    using F(1) Cons.prems(4) by (auto simp: n simp del: feed_buffer.simps)
  show ?case
  proof (cases "flow_of st1 e1 = Go_on")
    case True
    then have none: "st1 = None" "e1 = None" by (simp_all add: flow_of_Go_on)
    have c1: "conn_inv c1" "sc_connected c1" "sc_decoder c1 = d1" "sc_socket c1 = sc_socket c" using F(2) True by (simp_all add: fed_def)
    obtain qs2 where B2: "bytewise (sc_decoder c1) (concat chunks) = (d, qs2, e)" "ps = qs @ qs2"
      using Cons.prems(5) B none c1(3) by (auto simp: bytewise_append split: prod.splits)
    have D2: "deliver receive qs2 r1 = (st, r')" using Cons.prems(6) B2(2) D none by (simp add: deliver_append)
    have len: "length chunks \<le> m" "[] \<notin> set chunks" using Cons.prems(3,4) n by simp_all
    obtain c' where "recv_loop m receive (map Recv chunks) c1 r1 = Some (left (flow_of st e), c', r')" "fed (flow_of st e) d c1 c'"
      using Cons.IH [OF c1(1,2) len B2(1) D2] by blast
    with loop True c1(4) show ?thesis by (auto simp: fed_def split: flow.splits)
  next
    case False
    have eq: "flow_of st e = flow_of st1 e1 \<and> r' = r1"
    proof (cases st1)
      case None
      then obtain x where "e1 = Some x" using False flow_of_Go_on by (cases e1) auto
      then have "ps = qs" "e = Some x" using bytewise_stops [OF _ B [unfolded \<open>e1 = Some x\<close>]] Cons.prems(5) by auto
      with D None Cons.prems(6) \<open>e1 = Some x\<close> show ?thesis by simp
    next
      case (Some x)
      obtain qs2 where "ps = qs @ qs2"
        using Cons.prems(5) B by (cases e1) (auto simp: bytewise_append split: prod.splits)
      then have "st = Some x" "r' = r1" using Cons.prems(6) D Some by (simp_all add: deliver_append)
      with Some show ?thesis by (simp add: flow_of_def)
    qed
    have "fed (flow_of st e) d c c1" using F(2) False eq by (auto simp: fed_def split: flow.splits)
    with loop False eq show ?thesis by (cases "flow_of st1 e1") (auto simp: left_def)
  qed
qed

lemma Handle_deliver:
  assumes "conn_inv c" "sc_connected c" "length chunks \<le> 16" "[] \<notin> set chunks" "p_in ev" "\<not> p_nval ev"
    and "bytewise (sc_decoder c) (concat chunks) = (d, ps, e)" "deliver receive ps r = (st, r')"
  shows "\<exists>c'. Handle ev ok receive (map Recv chunks) c r = Some (left (flow_of st e), c', r') \<and>
    (case flow_of st e of
       Go_on \<Rightarrow> conn_inv c' \<and> sc_connected c' \<and> sc_decoder c' = d \<and> sc_socket c' = sc_socket c
     | Return \<Rightarrow> sc_socket c' = None \<and> \<not> sc_connected c'
     | Throw x \<Rightarrow> st = Some (Thrown x))"
proof -
  have "sc_socket c \<noteq> None" using assms(1,2) by (simp add: conn_inv_def)
  moreover obtain c' where "recv_loop 16 receive (map Recv chunks) c r = Some (left (flow_of st e), c', r')" "fed (flow_of st e) d c c'"
    using recv_loop_deliver [OF assms(1-4,7,8)] by blast
  moreover have "st = Some (Thrown x)" if "flow_of st e = Throw x" for x
    using that by (auto simp: flow_of_def split: option.splits stop.splits exn.splits)
  ultimately show ?thesis using assms(2,5,6) by (auto simp: Handle_def fed_def closed_def Let_def split: flow.splits)
qed


text \<open>
  C29: the client receives exactly what the server sent. When a connected client handles an event that
  brings any pieces of the stream, the receiver is called with exactly the snapshots that the
  reference decoder finds in those bytes, in order, up to the first one that cannot be decoded or that it
  refuses; the connection stays open and keeps the position inside the next frame unless the
  stream is broken, and then it is closed.
\<close>

theorem handler_refines_reference:
  assumes "conn_inv c" "sc_connected c" "length chunks \<le> 16" "[] \<notin> set chunks" "p_in ev" "\<not> p_nval ev"
    and "bytewise (sc_decoder c) (concat chunks) = (d, ps, e)" "deliver receive ps r = (st, r')"
  shows "\<exists>c'. Handle ev ok receive (map Recv chunks) c r = Some (left (flow_of st e), c', r') \<and>
    (case flow_of st e of
       Go_on \<Rightarrow> sc_connected c' \<and> sc_decoder c' = d \<and> sc_socket c' = sc_socket c
     | Return \<Rightarrow> sc_socket c' = None \<and> \<not> sc_connected c'
     | Throw x \<Rightarrow> st = Some (Thrown x))"
  using Handle_deliver [OF assms, of ok] by (auto split: flow.splits)

definition log_receiver :: "SystemSnapshot list Receiver" where
  "log_receiver s r = (None, r @ [s])"

definition sample_connection :: StreamConnection where
  "sample_connection = \<lparr>sc_addresses = [\<lparr>address = ''x'', addr_length = 1, family = 2\<rparr>], sc_socket = Some 3,
     sc_decoder = new_decoder, sc_retry = 0, sc_deadline = 0, sc_last_frame = 0, sc_frame_started = 0, sc_address_index = 1,
     sc_attempts = 0, sc_connected = True, sc_in_frame = False, sc_status = ''connected'', sc_bytes = 0, sc_reconnects = 0,
     sc_clock = int, sc_reads = 0, sc_random = (\<lambda>_. 0), sc_draws = 0\<rparr>"

definition readable :: poll_events where
  "readable = \<lparr>p_in = True, p_out = False, p_err = False, p_hup = False, p_nval = False\<rparr>"

lemma sample_connection_inv: "conn_inv sample_connection" "sc_connected sample_connection" "sc_decoder sample_connection = new_decoder"
  by (simp_all add: sample_connection_def conn_inv_def decoder_inv_new)

theorem handler_refines_reference_witness:
  "\<exists>g c'. generation_ok g \<and> Handle readable True log_receiver [Recv (frame g)] sample_connection [] = Some (Return, c', [sample_snapshot]) \<and>
     sc_connected c'"
proof -
  obtain g where g: "generation_ok g" "snapshot g = sample_snapshot" "length (json g) \<le> 2000" using sample_published by blast
  have enc: "Encode sample_snapshot = Inr (json g)" "Frame (json g) = Inr (frame g)" using g by (auto simp: generation_ok_def)
  then have fr: "valid_payload (json g)" "frame g = frame_bytes (json g)" by (simp_all add: Frame_Inr)
  have dec: "Decode (json g) = Inr sample_snapshot"
    using decode_encoded [OF sample_ok(1,2) enc(1) _ sample_ok(3)] g(3) by (simp add: kMaxPayload_def)
  have ne: "[] \<notin> set [frame g]" using frame_nonempty [OF enc(2)] by simp
  have B: "bytewise (sc_decoder sample_connection) (concat [frame g]) = (new_decoder, [json g], None)"
    using bytewise_frame [OF fr(1)] fr(2) by (simp add: sample_connection_inv)
  have D: "deliver log_receiver [json g] [] = (None, [sample_snapshot])" using dec by (simp add: log_receiver_def)
  show ?thesis
    using handler_refines_reference [OF sample_connection_inv(1,2) _ ne _ _ B D, of readable True] g(1)
    by (auto simp: readable_def flow_of_def left_def)
qed

section \<open>Whatever the network does\<close>

text \<open>What the receiver preserves on decoded snapshots, and which exceptions it throws on them.\<close>

definition decoded :: "SystemSnapshot \<Rightarrow> bool" where
  "decoded s \<longleftrightarrow> (\<exists>text_in. Decode text_in = Inr s)"

lemma decoded_snapshot_valid: "decoded s \<Longrightarrow> snapshot_valid s"
  by (auto simp: decoded_def dest: decoded_valid)

definition keeps :: "'r Receiver \<Rightarrow> ('r \<Rightarrow> bool) \<Rightarrow> bool" where
  "keeps receive J \<longleftrightarrow> (\<forall>s r. decoded s \<longrightarrow> J r \<longrightarrow> J (snd (receive s r)))"

definition throws :: "'r Receiver \<Rightarrow> ('r \<Rightarrow> bool) \<Rightarrow> exn \<Rightarrow> bool" where
  "throws receive J x \<longleftrightarrow> (\<exists>s r. decoded s \<and> J r \<and> fst (receive s r) = Some x)"

lemma deliver_keeps: "deliver receive ps r = (st, r') \<Longrightarrow> keeps receive J \<Longrightarrow> J r \<Longrightarrow> J r'"
proof (induction ps arbitrary: r)
  case (Cons p ps)
  then show ?case
    by (cases "Decode p") (fastforce simp: keeps_def decoded_def split: prod.splits option.splits)+
qed simp

lemma deliver_throws: "deliver receive ps r = (Some (Thrown x), r') \<Longrightarrow> keeps receive J \<Longrightarrow> J r \<Longrightarrow> throws receive J x"
proof (induction ps arbitrary: r)
  case (Cons p ps)
  obtain s where s: "Decode p = Inr s" using Cons.prems by (cases "Decode p") auto
  then have dec: "decoded s" by (auto simp: decoded_def)
  obtain o1 r1 where R: "receive s r = (o1, r1)" by fastforce
  show ?case
  proof (cases o1)
    case (Some e)
    then have "e = x" using Cons.prems s R by simp
    then show ?thesis unfolding throws_def using R Some dec Cons.prems(3) by (intro exI [of _ s] exI [of _ r]) simp
  next
    case None
    have "J r1" using Cons.prems(2,3) dec R by (auto simp: keeps_def dest!: spec [of _ s] spec [of _ r])
    with Cons s R None show ?thesis by simp
  qed
qed simp

definition handled :: "'r Receiver \<Rightarrow> ('r \<Rightarrow> bool) \<Rightarrow> (flow \<times> StreamConnection \<times> 'r) option \<Rightarrow> bool" where
  "handled receive J out \<longleftrightarrow>
     (\<exists>fl c r. out = Some (fl, c, r) \<and> J r \<and> (fl = Return \<and> conn_inv c \<or> (\<exists>x. fl = Throw x \<and> throws receive J x)))"

lemma recv_loop_handled:
  assumes "keeps receive J" "conn_inv c" "sc_connected c" "J r"
  shows "handled receive J (recv_loop n receive as c r)"
  using assms
proof (induction n receive as c r rule: recv_loop.induct)
  case (4 n receive bs as c r)
  show ?case
  proof (cases "bs = []")
    case True
    then show ?thesis using 4 Disconnect_inv [of c] by (auto simp: handled_def conn_inv_def)
  next
    case False
    let ?c = "c\<lparr>sc_bytes := sc_bytes c + of_nat (length bs)\<rparr>"
    obtain d qs e where B: "bytewise (sc_decoder c) bs = (d, qs, e)" by (metis prod_cases3)
    obtain st r1 where D: "deliver receive qs r = (st, r1)" by fastforce
    obtain c1 where F: "feed_buffer (Suc (length bs)) receive bs ?c r = Some (flow_of st e, c1, r1)" "fed (flow_of st e) d ?c c1"
      using feed_buffer_deliver [of ?c bs "Suc (length bs)" d qs e receive r st r1] "4.prems" B D by (auto simp: conn_inv_bytes)
    have J: "J r1" using deliver_keeps [OF D "4.prems"(1,4)] .
    have th: "throws receive J x" if "flow_of st e = Throw x" for x
      using that D deliver_throws [of receive qs r x r1 J] "4.prems"(1,4) by (auto simp: flow_of_def split: option.splits stop.splits exn.splits)
    show ?thesis
    proof (cases "flow_of st e")
      case Go_on
      with F(2) have c1: "conn_inv c1" "sc_connected c1" by (simp_all add: fed_def)
      have "recv_loop (Suc n) receive (Recv bs # as) c r = recv_loop n receive as c1 r1"
        using F(1) Go_on False by (simp del: feed_buffer.simps)
      moreover have "handled receive J (recv_loop n receive as c1 r1)"
        using "4.IH" [OF False F(1) [unfolded Go_on] refl refl refl "4.prems"(1) c1 J] .
      ultimately show ?thesis by simp
    next
      case Return
      with F J False show ?thesis by (auto simp: fed_def handled_def simp del: feed_buffer.simps)
    next
      case (Throw x)
      with F J th False show ?thesis by (auto simp: handled_def simp del: feed_buffer.simps)
    qed
  qed
qed (auto simp: handled_def conn_inv_def decoder_inv_new)


lemma Handle_handled:
  assumes "keeps receive J" "conn_inv c" "J r"
  shows "handled receive J (Handle ev ok receive as c r)"
proof -
  let ?c2 = "snd (clock_now (c\<lparr>sc_connected := True, sc_status := ''connected''\<rparr>))\<lparr>sc_last_frame := fst (clock_now (c\<lparr>sc_connected := True, sc_status := ''connected''\<rparr>))\<rparr>"
  have a: "sc_addresses c \<noteq> []" using assms(2) by (simp add: conn_inv_def)
  have c2: "conn_inv ?c2" "sc_connected ?c2" if "sc_socket c \<noteq> None" "\<not> sc_connected c"
    using assms(2) that by (auto simp: conn_inv_def clock_now_def decoder_inv_new)
  have dis: "handled receive J (Some (Return, Disconnect why c, r))" for why
    using Disconnect_inv [OF a] assms(3) by (simp add: handled_def)
  have same: "handled receive J (Some (Return, c, r))" using assms by (simp add: handled_def)
  show ?thesis
  proof (cases "sc_connected c")
    case True
    then show ?thesis using dis same recv_loop_handled [OF assms(1,2) True assms(3)] by (simp add: Handle_def)
  next
    case False
    show ?thesis
    proof (cases "sc_socket c = None")
      case None: False
      have "handled receive J (Some (Return, ?c2, r))" using c2 [OF None False] assms(3) by (simp add: handled_def)
      then show ?thesis
        using dis same recv_loop_handled [OF assms(1) c2 [OF None False] assms(3), of 16 as] False None
        by (simp add: Handle_def case_prod_beta Let_def)
    qed (use same in \<open>simp add: Handle_def\<close>)
  qed
qed

text \<open>The states a connection and its receiver go through, from the constructor on.\<close>

inductive stream_run :: "'r Receiver \<Rightarrow> 'r \<Rightarrow> StreamConnection \<Rightarrow> 'r \<Rightarrow> bool" for receive :: "'r Receiver" and r0 :: 'r where
  started: "new_connection as clk rnd = Inr c \<Longrightarrow> stream_run receive r0 c r0"
| ticked: "stream_run receive r0 c r \<Longrightarrow> stream_run receive r0 (Tick t net c) r"
| handled_event: "stream_run receive r0 c r \<Longrightarrow> Handle ev ok receive answers c r = Some (Return, c', r') \<Longrightarrow>
    stream_run receive r0 c' r'"

lemma stream_run_inv:
  assumes "stream_run receive r0 c r" "keeps receive J" "J r0"
  shows "conn_inv c \<and> J r"
  using assms(1)
proof (induction rule: stream_run.induct)
  case (started as clk rnd c)
  then show ?case using assms(3) by (auto simp: new_connection_def conn_inv_def decoder_inv_new split: if_splits)
next
  case (ticked c r t net)
  then show ?case using Tick_inv by blast
next
  case (handled_event c r ev ok answers c' r')
  then show ?case using Handle_handled [OF assms(2), of c r ev ok answers] by (auto simp: handled_def)
qed

text \<open>
  C30: whatever the network sends, the client survives it. From the constructor on, through any
  sequence of ticks and events with any bytes and errors: the receiver is only ever called
  with snapshots in the documented ranges; a handler always returns, and an exception that leaves
  it is one the receiver threw; never more than one frame of at most 8 MiB is buffered; and a
  closed connection holds no part of a frame.
\<close>

theorem client_survives_network:
  assumes "stream_run receive r0 c r"
  shows "(\<forall>J. J r0 \<and> (\<forall>s q. snapshot_valid s \<longrightarrow> J q \<longrightarrow> J (snd (receive s q))) \<longrightarrow> J r) \<and>
    (\<exists>fl c' r'. Handle ev ok receive answers c r = Some (fl, c', r') \<and>
       (fl = Return \<or> (\<exists>x s q. fl = Throw x \<and> snapshot_valid s \<and> fst (receive s q) = Some x))) \<and>
    length (payload (sc_decoder c)) \<le> 8 * 1024 * 1024 \<and>
    (sc_socket c = None \<longrightarrow> payload (sc_decoder c) = [] \<and> \<not> sc_in_frame c)"
proof -
  have inv: "conn_inv c" using stream_run_inv [OF assms, of "\<lambda>_. True"] by (simp add: keeps_def)
  then have d: "decoder_inv (sc_decoder c)" by (simp add: conn_inv_def)
  have "length (payload (sc_decoder c)) \<le> 8 * 1024 * 1024"
    using d by (cases "header_bytes (sc_decoder c) = 4") (auto simp: decoder_inv_def kMaxPayload_def)
  moreover have "payload (sc_decoder c) = [] \<and> \<not> sc_in_frame c" if "sc_socket c = None"
    using inv that by (auto simp: conn_inv_def new_decoder_def)
  moreover have "handled receive (\<lambda>_. True) (Handle ev ok receive answers c r)"
    by (rule Handle_handled [OF _ inv]) (simp_all add: keeps_def)
  moreover have "J r" if "J r0 \<and> (\<forall>s q. snapshot_valid s \<longrightarrow> J q \<longrightarrow> J (snd (receive s q)))" for J
    using stream_run_inv [OF assms, of J] that decoded_snapshot_valid by (auto simp: keeps_def)
  ultimately show ?thesis using decoded_snapshot_valid by (fastforce simp: handled_def throws_def)
qed


lemma sample_run: "\<exists>c. stream_run log_receiver [] c [] \<and> sc_socket c = Some 3 \<and> sc_connected c \<and> sc_last_frame c = 5 \<and> \<not> sc_in_frame c \<and>
    sc_clock c (sc_reads c) \<le> 1000"
proof -
  let ?a = "\<lparr>address = ''x'', addr_length = 1, family = 2\<rparr>"
  obtain c where c: "new_connection [?a] int (\<lambda>_. 0) = Inr c" by (simp add: new_connection_def)
  have "stream_run log_receiver [] (Tick 5 (\<lambda>_. Connect_done 3) c) []" by (rule ticked [OF started [OF c]])
  moreover have "sc_socket c = None" "sc_retry c = 0" "\<not> sc_in_frame c" "sc_clock c = int" "sc_reads c = 0" using c by (auto simp: new_connection_def)
  ultimately show ?thesis by (auto simp: Tick_def Connect_def Let_def)
qed

theorem client_survives_network_witness:
  "\<exists>c fl c' r'. stream_run log_receiver [] c [] \<and>
     Handle readable True log_receiver [Recv [CHR 0xFF, CHR 0xFF, CHR 0xFF, CHR 0xFF]] c [] = Some (fl, c', r') \<and> fl = Return"
proof -
  obtain c where c: "stream_run log_receiver [] c []" using sample_run by blast
  from client_survives_network [OF c, of readable True "[Recv [CHR 0xFF, CHR 0xFF, CHR 0xFF, CHR 0xFF]]"] c
  show ?thesis by (auto simp: log_receiver_def)
qed

section \<open>Deadlines and recovery\<close>



lemma backoff_cap_bounds: "250 \<le> backoff_cap n \<and> backoff_cap n \<le> 8000"
proof -
  have "(1 :: nat) \<le> 2 ^ min n 5" "(2 :: nat) ^ min n 5 \<le> 2 ^ 5" by (simp, rule power_increasing) simp_all
  then show ?thesis by (auto simp: backoff_cap_def)
qed

lemma next_address_in: "sc_addresses c \<noteq> [] \<Longrightarrow> next_address c \<in> set (sc_addresses c)"
  by (simp add: next_address_def)

lemma Disconnect_retry:
  obtains j where "sc_retry (Disconnect why c) = sc_clock c (sc_reads c) + milliseconds (int j)"
    "backoff_cap (sc_attempts c) div 2 \<le> j" "j \<le> backoff_cap (sc_attempts c)"
proof -
  let ?cap = "backoff_cap (sc_attempts c)"
  let ?j = "?cap div 2 + sc_random c (sc_draws c) mod (?cap - ?cap div 2 + 1)"
  have "sc_random c (sc_draws c) mod (?cap - ?cap div 2 + 1) < ?cap - ?cap div 2 + 1" by simp
  then have "?j \<le> ?cap" by linarith
  then show thesis by (intro that [of ?j]) (simp_all add: Disconnect_def clock_now_def uniform_def Let_def)
qed

text \<open>
  C32: the client always comes back. After every loss of the connection it waits between an eighth
  of a second and eight seconds, and then the next tick tries the next address of the list and
  either holds a socket or is closed again with a new, later attempt due.
\<close>

theorem reconnects:
  assumes "stream_run receive r0 c r"
  shows "let lost = Disconnect why c; t0 = sc_clock c (sc_reads c); again = Tick t net lost
    in t0 + 125000000 \<le> sc_retry lost \<and> sc_retry lost \<le> t0 + 8000000000 \<and>
       (t < sc_retry lost \<longrightarrow> again = lost) \<and>
       (t \<ge> sc_retry lost \<longrightarrow> next_address lost \<in> set (sc_addresses c) \<and> sc_address_index again = sc_address_index c + 1 \<and>
          sc_socket again = fst (Connect (net (next_address lost)) False) \<and>
          (sc_socket again = None \<longrightarrow> sc_retry again \<ge> sc_clock c (sc_reads c + 1) + 125000000))"
proof -
  have a: "sc_addresses c \<noteq> []" using stream_run_inv [OF assms, of "\<lambda>_. True"] by (simp add: keeps_def conn_inv_def)
  obtain j where j: "sc_retry (Disconnect why c) = sc_clock c (sc_reads c) + milliseconds (int j)"
    "backoff_cap (sc_attempts c) div 2 \<le> j" "j \<le> backoff_cap (sc_attempts c)" by (rule Disconnect_retry)
  have b: "125 \<le> j" "j \<le> 8000" using j(2,3) backoff_cap_bounds [of "sc_attempts c"] by auto
  have reads: "sc_reads (Disconnect why c) = sc_reads c + 1" by (simp add: Disconnect_def clock_now_def uniform_def Let_def)
  have later: "sc_clock x (sc_reads x) + 125000000 \<le> sc_retry (Disconnect w x)" for x w
  proof -
    obtain k where k: "sc_retry (Disconnect w x) = sc_clock x (sc_reads x) + milliseconds (int k)"
      "backoff_cap (sc_attempts x) div 2 \<le> k" by (rule Disconnect_retry)
    then have "125 \<le> k" using backoff_cap_bounds [of "sc_attempts x"] by auto
    with k(1) show ?thesis by (simp add: milliseconds_def)
  qed
  let ?lost = "Disconnect why c"
  let ?x = "?lost\<lparr>sc_socket := None, sc_address_index := sc_address_index ?lost + 1\<rparr>"
  have "sc_retry (Disconnect ''connect failed; retrying'' ?x) \<ge> sc_clock c (sc_reads c + 1) + 125000000"
    using later [of ?x] reads by simp
  moreover have "next_address ?lost \<in> set (sc_addresses c)" using next_address_in [of ?lost] a by simp
  ultimately show ?thesis using j(1) b by (auto simp: Tick_def Let_def case_prod_beta milliseconds_def)
qed

theorem reconnects_witness:
  "\<exists>c. stream_run log_receiver [] c [] \<and> sc_socket (Tick 20000000000 (\<lambda>_. Connect_done 9) (Disconnect ''x'' c)) = Some 9"
proof -
  obtain c where c: "stream_run log_receiver [] c []" "sc_clock c (sc_reads c) \<le> 1000" using sample_run by blast
  from reconnects [OF c(1), of "''x''" 20000000000 "\<lambda>_. Connect_done 9"] c show ?thesis
    by (auto simp: Let_def Connect_def)
qed

end
