(* ===== verification/Http_Probe.thy ===== *)
theory Http_Probe
  imports Stream_Connection Http_Request
begin

text \<open>
  The client's diagnostics probe, \<^verbatim>\<open>HttpProbe\<close> in \<^verbatim>\<open>client/net/stream_connection.cpp\<close>: one small HTTP request
  every two seconds, driven by the same poll loop. \<open>hp_sent_bytes\<close> is what the kernel took from \<^verbatim>\<open>send\<close> on the
  present socket; the clock is a sequence of readings as in the stream connection.
\<close>

record HttpProbe =
  hp_addresses :: "Address list"
  hp_socket :: "int option"
  hp_connecting :: bool
  hp_writing :: bool
  hp_sent :: nat
  hp_address_index :: u64
  hp_input :: string
  hp_value :: "JSONValue option"
  hp_retry :: int
  hp_deadline :: int
  hp_updated :: int
  hp_clock :: "nat \<Rightarrow> int"
  hp_reads :: nat
  hp_sent_bytes :: string

definition kProbeRequest :: string where
  "kProbeRequest = ''GET /diagnostics HTTP/1.1'' @ CRLF @ ''Host: web-htop'' @ CRLF @ ''Connection: close'' @ CRLF @ CRLF"

definition new_probe :: "Address list \<Rightarrow> (nat \<Rightarrow> int) \<Rightarrow> HttpProbe" where
  "new_probe as clk =
     \<lparr>hp_addresses = as, hp_socket = None, hp_connecting = False, hp_writing = False, hp_sent = 0, hp_address_index = 0,
      hp_input = [], hp_value = None, hp_retry = 0, hp_deadline = 0, hp_updated = 0, hp_clock = clk, hp_reads = 0,
      hp_sent_bytes = []\<rparr>"

definition probe_now :: "HttpProbe \<Rightarrow> int \<times> HttpProbe" where
  "probe_now p = (hp_clock p (hp_reads p), p\<lparr>hp_reads := hp_reads p + 1\<rparr>)"

definition starts_with :: "string \<Rightarrow> string \<Rightarrow> bool" where
  "starts_with pre s \<longleftrightarrow> take (length pre) s = pre"

definition probe_body :: "string \<Rightarrow> JSONValue option" where
  "probe_body inp =
     (case find_sub (CRLF @ CRLF) inp of
        None \<Rightarrow> None
      | Some split \<Rightarrow>
          if starts_with ''HTTP/1.1 200 '' inp then
            (case Parse (drop (split + 4) inp) of
               Some v \<Rightarrow> if IsObject v then Some v else None
             | None \<Rightarrow> None)
          else None)"

definition Finish :: "bool \<Rightarrow> HttpProbe \<Rightarrow> HttpProbe" where
  "Finish success p =
     (let p1 = (case (if success then probe_body (hp_input p) else None) of
                  None \<Rightarrow> p
                | Some v \<Rightarrow> let (t, q) = probe_now p in q\<lparr>hp_value := Some v, hp_updated := t\<rparr>);
          (t, p2) = probe_now p1
      in p2\<lparr>hp_socket := None, hp_retry := t + seconds 2\<rparr>)"

definition probe_Tick :: "(Address \<Rightarrow> connect_answer) \<Rightarrow> HttpProbe \<Rightarrow> HttpProbe" where
  "probe_Tick net p0 =
     (let (t, p) = probe_now p0
      in if hp_socket p \<noteq> None then (if t \<ge> hp_deadline p then Finish False p else p)
         else if t < hp_retry p \<or> hp_addresses p = [] then p
         else
           let a = hp_addresses p ! (unat (hp_address_index p) mod length (hp_addresses p));
               (fd, connecting) = Connect (net a) (hp_connecting p);
               p1 = p\<lparr>hp_socket := fd, hp_connecting := connecting, hp_address_index := hp_address_index p + 1\<rparr>
           in if fd = None then Finish False p1
              else p1\<lparr>hp_writing := True, hp_sent := 0, hp_input := [], hp_deadline := t + seconds 2, hp_sent_bytes := []\<rparr>)"

definition probe_Events :: "HttpProbe \<Rightarrow> poll_events" where
  "probe_Events p =
     \<lparr>p_in = \<not> (hp_connecting p \<or> hp_writing p), p_out = hp_connecting p \<or> hp_writing p, p_err = False, p_hup = False, p_nval = False\<rparr>"

text \<open>The send step: whether the handler returns, and the new state.\<close>

definition probe_send :: "send_answer \<Rightarrow> HttpProbe \<Rightarrow> bool \<times> HttpProbe" where
  "probe_send ans p =
     (case ans of
        Send_error err \<Rightarrow> (True, if err = EINTR \<or> err = EAGAIN then p else Finish False p)
      | Room k \<Rightarrow>
          let n = min k (length kProbeRequest - hp_sent p);
              p1 = p\<lparr>hp_sent := hp_sent p + n, hp_sent_bytes := hp_sent_bytes p @ take n (drop (hp_sent p) kProbeRequest)\<rparr>
          in (False, if hp_sent p1 = length kProbeRequest then p1\<lparr>hp_writing := False\<rparr> else p1))"

fun probe_recv :: "nat \<Rightarrow> recv_answer list \<Rightarrow> HttpProbe \<Rightarrow> HttpProbe" where
  "probe_recv 0 as p = p"
| "probe_recv (Suc n) [] p = p"
| "probe_recv (Suc n) (Recv_error err # as) p =
     (if err = EINTR then probe_recv n as p else if err = EAGAIN then p else Finish False p)"
| "probe_recv (Suc n) (Recv bs # as) p =
     (if bs = [] then Finish True p
      else
        let p1 = p\<lparr>hp_input := hp_input p @ bs\<rparr>
        in if length (hp_input p1) > 65536 then Finish False p1 else probe_recv n as p1)"

definition probe_Handle :: "poll_events \<Rightarrow> bool \<Rightarrow> send_answer \<Rightarrow> recv_answer list \<Rightarrow> HttpProbe \<Rightarrow> HttpProbe" where
  "probe_Handle ev check_ok snd_ans as p =
     (if hp_socket p = None then p
      else if p_err ev \<or> p_nval ev then Finish False p
      else if hp_connecting p \<and> \<not> check_ok then Finish False p
      else
        let p1 = p\<lparr>hp_connecting := False\<rparr>;
            (returned, p2) = (if hp_writing p1 \<and> p_out ev then probe_send snd_ans p1 else (False, p1))
        in if returned then p2
           else if \<not> hp_writing p2 \<and> (p_in ev \<or> p_hup ev) then probe_recv 16 as p2
           else p2)"

section \<open>Invariant\<close>

text \<open>What is on the wire is a prefix of the request; the answer is bounded; the value is an object.\<close>

definition probe_inv :: "HttpProbe \<Rightarrow> bool" where
  "probe_inv p \<longleftrightarrow>
     (hp_socket p \<noteq> None \<longrightarrow>
        hp_sent p \<le> length kProbeRequest \<and> hp_sent_bytes p = take (hp_sent p) kProbeRequest \<and>
        (hp_writing p \<longleftrightarrow> hp_sent p < length kProbeRequest) \<and> length (hp_input p) \<le> 65536) \<and>
     (case hp_value p of None \<Rightarrow> True | Some v \<Rightarrow> IsObject v)"

lemma probe_now_fields [simp]:
  "hp_socket (snd (probe_now p)) = hp_socket p" "hp_value (snd (probe_now p)) = hp_value p"
  by (simp_all add: probe_now_def)

lemma probe_body_object: "probe_body inp = Some v \<Longrightarrow> IsObject v"
  by (auto simp: probe_body_def split: option.splits if_splits)

lemma Finish_fields [simp]:
  "hp_socket (Finish b p) = None"
  "hp_value (Finish b p) = (if b \<and> probe_body (hp_input p) \<noteq> None then probe_body (hp_input p) else hp_value p)"
  by (auto simp: Finish_def Let_def probe_now_def split: option.splits)

lemma Finish_inv: "probe_inv p \<or> hp_socket p = None \<and> (case hp_value p of None \<Rightarrow> True | Some v \<Rightarrow> IsObject v) \<Longrightarrow> probe_inv (Finish b p)"
  by (auto simp: probe_inv_def split: option.splits dest: probe_body_object)

lemma kProbeRequest_nonempty: "0 < length kProbeRequest"
  by (simp add: kProbeRequest_def)

lemma probe_Tick_inv: "probe_inv p \<Longrightarrow> probe_inv (probe_Tick net p)"
proof -
  assume inv: "probe_inv p"
  let ?p = "snd (probe_now p)"
  have p: "probe_inv ?p" using inv by (simp add: probe_inv_def probe_now_def)
  have val: "case hp_value q of None \<Rightarrow> True | Some v \<Rightarrow> IsObject v" if "hp_value q = hp_value ?p" for q
    using p that by (simp add: probe_inv_def)
  show ?thesis
    using p kProbeRequest_nonempty val Finish_inv [OF disjI1, OF p]
    by (auto simp: probe_Tick_def Let_def case_prod_beta intro!: Finish_inv) (simp_all add: probe_inv_def)
qed

lemma probe_send_inv: "probe_inv p \<Longrightarrow> hp_writing p \<Longrightarrow> probe_send ans p = (b, q) \<Longrightarrow> probe_inv q"
  by (auto simp: probe_send_def Let_def intro: Finish_inv split: send_answer.splits if_splits)
     (auto simp: probe_inv_def take_add min_def split: if_splits)

lemma probe_recv_inv: "probe_inv p \<Longrightarrow> probe_inv (probe_recv n as p)"
proof (induction n as p rule: probe_recv.induct)
  case (4 n bs as p)
  have "probe_inv (Finish False (p\<lparr>hp_input := hp_input p @ bs\<rparr>))" using "4.prems" by (simp add: probe_inv_def)
  moreover have "probe_inv (p\<lparr>hp_input := hp_input p @ bs\<rparr>)" if "length (hp_input p @ bs) \<le> 65536"
    using "4.prems" that by (simp add: probe_inv_def)
  ultimately show ?case using 4 by (auto simp: Let_def intro: Finish_inv)
qed (auto intro: Finish_inv)

lemma probe_Handle_inv:
  assumes "probe_inv p"
  shows "probe_inv (probe_Handle ev ok sa as p)"
proof -
  let ?p1 = "p\<lparr>hp_connecting := False\<rparr>"
  have p1: "probe_inv ?p1" using assms by (simp add: probe_inv_def)
  obtain b p2 where s: "(if hp_writing ?p1 \<and> p_out ev then probe_send sa ?p1 else (False, ?p1)) = (b, p2)" by fastforce
  then have "probe_inv p2" using p1 probe_send_inv by (auto split: if_splits)
  then have "probe_inv (if b then p2 else if \<not> hp_writing p2 \<and> (p_in ev \<or> p_hup ev) then probe_recv 16 as p2 else p2)"
    using probe_recv_inv by simp
  then show ?thesis
    unfolding probe_Handle_def Let_def s prod.case using assms Finish_inv by (simp del: probe_recv.simps)
qed

inductive probe_run :: "HttpProbe \<Rightarrow> bool" where
  probe_started: "probe_run (new_probe as clk)"
| probe_ticked: "probe_run p \<Longrightarrow> probe_run (probe_Tick net p)"
| probe_handled: "probe_run p \<Longrightarrow> probe_run (probe_Handle ev ok sa answers p)"

lemma probe_run_inv: "probe_run p \<Longrightarrow> probe_inv p"
  by (induction rule: probe_run.induct)
    (simp add: probe_inv_def new_probe_def, simp_all add: probe_Tick_inv probe_Handle_inv)

section \<open>Reading a response\<close>

lemma find_sub_skip:
  assumes "CHR 0x0D \<notin> set line"
  shows "find_sub (CRLF @ CRLF) (line @ s) = map_option (\<lambda>x. length line + x) (find_sub (CRLF @ CRLF) s)"
  using assms by (induction line) (cases "find_sub (CRLF @ CRLF) s"; auto simp: CRLF_def)+

lemma find_sub_line:
  assumes "c \<noteq> CHR 0x0D"
  shows "find_sub (CRLF @ CRLF) (CRLF @ c # s) = map_option (\<lambda>x. 2 + x) (find_sub (CRLF @ CRLF) (c # s))"
  using assms by (simp add: CRLF_def option.map_comp comp_def)

lemma find_sub_here: "find_sub (CRLF @ CRLF) (CRLF @ CRLF @ s) = Some 0"
  by (simp add: CRLF_def)

lemma no_cr_show: "CHR 0x0D \<notin> set (show_nat n)"
  by (auto dest!: in_show_nat simp: is_digit_def)

abbreviation head_of :: "string list \<Rightarrow> string" where
  "head_of lines \<equiv> concat (map (\<lambda>l. l @ CRLF) lines)"

lemma header_end:
  assumes "lines \<noteq> []" "\<forall>l \<in> set lines. l \<noteq> [] \<and> CHR 0x0D \<notin> set l"
  shows "\<exists>n. find_sub (CRLF @ CRLF) (head_of lines @ CRLF @ body) = Some n \<and> n + 2 = length (head_of lines)"
  using assms
proof (induction lines)
  case (Cons l ls)
  show ?case
  proof (cases ls)
    case Nil
    with Cons.prems show ?thesis by (simp add: find_sub_skip find_sub_here)
  next
    case (Cons l2 ms)
    obtain c cs where c: "head_of ls @ CRLF @ body = c # cs" "c \<noteq> CHR 0x0D"
      using Cons.prems Cons by (cases l2) auto
    obtain n where n: "find_sub (CRLF @ CRLF) (c # cs) = Some n" "n + 2 = length (head_of ls)"
      using Cons.IH Cons.prems Cons c(1) by auto
    have "head_of (l # ls) @ CRLF @ body = l @ CRLF @ c # cs" using c(1) by simp
    moreover have "find_sub (CRLF @ CRLF) (l @ CRLF @ c # cs) = Some (length l + (2 + n))"
      using Cons.prems find_sub_skip [of l "CRLF @ c # cs"] find_sub_line [OF c(2), of cs] n(1) by simp
    ultimately show ?thesis using n(2) by (simp add: CRLF_def)
  qed
qed simp

text \<open>The body the probe finds in a response of the server is the body the server sent.\<close>

lemma probe_body_response:
  assumes "CHR 0x0D \<notin> set type"
  shows "probe_body (HttpResponse 200 body type) = (case Parse body of Some v \<Rightarrow> if IsObject v then Some v else None | None \<Rightarrow> None)"
proof -
  have sh: "show_nat 200 = ''200''" by code_simp
  let ?lines = "[''HTTP/1.1 200 OK'', ''Content-Type: '' @ type, ''Content-Length: '' @ show_nat (length body),
    ''Connection: close'', ''Cache-Control: no-store'']"
  have r: "HttpResponse 200 body type = head_of ?lines @ CRLF @ body" by (simp add: HttpResponse_def sh reason_def)
  have "\<forall>l \<in> set ?lines. l \<noteq> [] \<and> CHR 0x0D \<notin> set l" using assms no_cr_show by simp
  from header_end [OF _ this, of body] obtain n where n: "find_sub (CRLF @ CRLF) (HttpResponse 200 body type) = Some n"
    "n + 2 = length (head_of ?lines)" unfolding r by blast
  have "drop (n + 4) (HttpResponse 200 body type) = body"
  proof -
    have "n + 4 = length (head_of ?lines @ CRLF)" using n(2) by (simp add: CRLF_def)
    then show ?thesis unfolding r by (simp only: append_assoc [symmetric] append_eq_conv_conj [symmetric]) (metis append_eq_conv_conj)
  qed
  moreover have "starts_with ''HTTP/1.1 200 '' (HttpResponse 200 body type)" by (simp add: r starts_with_def)
  ultimately show ?thesis using n(1) by (simp add: probe_body_def)
qed

end
