(* ===== verification/Canvas.thy ===== *)
theory Canvas
  imports Protocol Text_Scan
begin

text \<open>
  Drawing of the terminal client, \<^verbatim>\<open>client/ui/terminal_ui.cpp\<close>: the screen as a grid of coloured glyphs and the operations
  on it. Coordinates are \<^verbatim>\<open>int\<close>s that stay small; a \<^verbatim>\<open>char32_t\<close> is a natural number. Converting a
  double to \<^verbatim>\<open>int\<close> truncates; for a number that is not finite the conversion is undefined in C++ and zero here.
\<close>

definition Sanitize :: "string \<Rightarrow> string" where
  "Sanitize s = map (\<lambda>c. if byte c \<ge> 32 \<and> byte c < 127 then c else CHR ''?'') s"

datatype Color = Normal | Muted | Cyan | Green | Amber | Red | White

record Cell =
  glyph :: nat
  color :: Color

definition blank_cell :: Cell where
  "blank_cell = \<lparr>glyph = 32, color = Normal\<rparr>"

definition Utf8_glyph :: "nat \<Rightarrow> string" where
  "Utf8_glyph c =
     (if c < 128 then [char_of c]
      else if c < 2048 then [char_of (or 0xC0 (drop_bit 6 c)), char_of (or 0x80 (and c 63))]
      else [char_of (or 0xE0 (drop_bit 12 c)), char_of (or 0x80 (and (drop_bit 6 c) 63)), char_of (or 0x80 (and c 63))])"

section \<open>Drawing\<close>

record Canvas =
  cv_w :: int
  cv_h :: int
  cells :: "Cell list"

definition new_canvas :: "int \<Rightarrow> int \<Rightarrow> Canvas" where
  "new_canvas w h = \<lparr>cv_w = w, cv_h = h, cells = replicate (nat (w * h)) blank_cell\<rparr>"

definition Put :: "int \<Rightarrow> int \<Rightarrow> nat \<Rightarrow> Color \<Rightarrow> Canvas \<Rightarrow> Canvas" where
  "Put x y g col c =
     (if x \<ge> 0 \<and> x < cv_w c \<and> y \<ge> 0 \<and> y < cv_h c
      then c\<lparr>cells := (cells c)[nat (y * cv_w c + x) := \<lparr>glyph = g, color = col\<rparr>]\<rparr>
      else c)"

fun put_text :: "int \<Rightarrow> int \<Rightarrow> string \<Rightarrow> Color \<Rightarrow> int \<Rightarrow> Canvas \<Rightarrow> Canvas" where
  "put_text x y [] col limit c = c"
| "put_text x y (ch # chs) col limit c =
     (if limit \<le> 0 then c else put_text (x + 1) y chs col (limit - 1) (Put x y (byte ch) col c))"

definition draw_text :: "int \<Rightarrow> int \<Rightarrow> string \<Rightarrow> Color \<Rightarrow> int \<Rightarrow> Canvas \<Rightarrow> Canvas" where
  "draw_text x y s col limit c = put_text x y (Sanitize s) col limit c"

text \<open>A sequence of drawing operations, and a loop over an index.\<close>

definition draws :: "(Canvas \<Rightarrow> Canvas) list \<Rightarrow> Canvas \<Rightarrow> Canvas" where
  "draws ops c = fold (\<lambda>f. f) ops c"

definition for_each :: "'a list \<Rightarrow> ('a \<Rightarrow> Canvas \<Rightarrow> Canvas) \<Rightarrow> Canvas \<Rightarrow> Canvas" where
  "for_each xs f c = fold f xs c"

definition Box :: "int \<Rightarrow> int \<Rightarrow> int \<Rightarrow> int \<Rightarrow> string \<Rightarrow> Canvas \<Rightarrow> Canvas" where
  "Box x y w h title =
     draws [for_each [1..w - 2] (\<lambda>i. draws [Put (x + i) y 0x2500 Muted, Put (x + i) (y + h - 1) 0x2500 Muted]),
            for_each [1..h - 2] (\<lambda>i. draws [Put x (y + i) 0x2502 Muted, Put (x + w - 1) (y + i) 0x2502 Muted]),
            Put x y 0x250C Muted, Put (x + w - 1) y 0x2510 Muted, Put x (y + h - 1) 0x2514 Muted,
            Put (x + w - 1) (y + h - 1) 0x2518 Muted, draw_text (x + 2) y title Cyan (w - 4)]"

definition clamp_double :: "double \<Rightarrow> double \<Rightarrow> double \<Rightarrow> double" where
  "clamp_double v lo hi = (if dless v lo then lo else if dless hi v then hi else v)"

fun trunc_int :: "double \<Rightarrow> int" where
  "trunc_int (Finite neg a) = (if neg then - \<lfloor>a\<rfloor> else \<lfloor>a\<rfloor>)"
| "trunc_int _ = 0"

fun ceil_double :: "double \<Rightarrow> double" where
  "ceil_double (Finite neg a) = Finite neg (of_int (if neg then \<lfloor>a\<rfloor> else \<lceil>a\<rceil>))"
| "ceil_double d = d"

definition clamp_int :: "int \<Rightarrow> int \<Rightarrow> int \<Rightarrow> int" where
  "clamp_int v lo hi = (if v < lo then lo else if hi < v then hi else v)"

definition Bar :: "int \<Rightarrow> int \<Rightarrow> int \<Rightarrow> double \<Rightarrow> Color \<Rightarrow> Canvas \<Rightarrow> Canvas" where
  "Bar x y w percent col =
     (let filled = trunc_int (ddiv (dmul (clamp_double percent dzero hundred) (of_int_double w)) hundred)
      in for_each [0..w - 1] (\<lambda>i. Put (x + i) y (if i < filled then 0x2501 else 0x2500) (if i < filled then col else Muted)))"

definition trend_column :: "int \<Rightarrow> int \<Rightarrow> int \<Rightarrow> double \<Rightarrow> Color \<Rightarrow> double \<Rightarrow> Canvas \<Rightarrow> Canvas" where
  "trend_column x y h v col scale c =
     (if \<not> isfinite v then c
      else
        let bars = dmul (clamp_double (ddiv v (dmax scale (to_double False (1 / 1000)))) dzero (Finite False 1)) (of_int_double h)
        in for_each [0..h - 1] (\<lambda>j c1.
             let part = dsub bars (of_int_double j)
             in if dless dzero part
                then Put x (y + h - 1 - j) (0x2580 + nat (clamp_int (trunc_int (ceil_double (dmul part (Finite False 8)))) 1 8)) col c1
                else c1) c)"

definition Trend :: "int \<Rightarrow> int \<Rightarrow> int \<Rightarrow> int \<Rightarrow> double list \<Rightarrow> Color \<Rightarrow> double \<Rightarrow> Canvas \<Rightarrow> Canvas" where
  "Trend x y w h history col scale =
     (let shown = drop (length history - nat w) history
      in for_each (zip [0..<length shown] shown) (\<lambda>(i, v). trend_column (x + int i) y h v col scale))"

section \<open>The screen as text\<close>

definition ESC :: string where
  "ESC = [CHR 0x1B]"

definition CR_LF :: string where
  "CR_LF = [CHR 0x0D, CHR 0x0A]"

fun color_code :: "Color \<Rightarrow> string" where
  "color_code Normal = ESC @ ''[38;2;172;185;199m''"
| "color_code Muted = ESC @ ''[38;2;73;91;112m''"
| "color_code Cyan = ESC @ ''[38;2;84;196;208m''"
| "color_code Green = ESC @ ''[38;2;135;192;143m''"
| "color_code Amber = ESC @ ''[38;2;219;175;97m''"
| "color_code Red = ESC @ ''[38;2;227;123;128m''"
| "color_code White = ESC @ ''[38;2;228;235;241m''"

text \<open>One row: a change of colour is printed before the cell.\<close>

fun row_text :: "bool \<Rightarrow> Color \<Rightarrow> Cell list \<Rightarrow> string" where
  "row_text ansi current [] = []"
| "row_text ansi current (cell # cs) =
     (if ansi \<and> current \<noteq> color cell then color_code (color cell) else []) @ Utf8_glyph (glyph cell) @
     row_text ansi (if ansi then color cell else current) cs"

definition row_cells :: "Canvas \<Rightarrow> int \<Rightarrow> Cell list" where
  "row_cells c y = map (\<lambda>x. cells c ! nat (y * cv_w c + x)) [0..cv_w c - 1]"

definition screen_rows :: "bool \<Rightarrow> Canvas \<Rightarrow> string list" where
  "screen_rows ansi c = map (\<lambda>y. (if ansi then color_code White else []) @ row_text ansi White (row_cells c y)) [0..cv_h c - 1]"

definition line_end :: "bool \<Rightarrow> string" where
  "line_end ansi = (if ansi then CR_LF else [CHR 0x0A])"

fun join_rows :: "string \<Rightarrow> string list \<Rightarrow> string" where
  "join_rows sep [] = []"
| "join_rows sep [r] = r"
| "join_rows sep (r # rs) = r @ sep @ join_rows sep rs"

definition start_code :: string where
  "start_code = ESC @ ''[H'' @ ESC @ ''[48;2;13;19;28m''"

definition reset_code :: string where
  "reset_code = ESC @ ''[0m''"

definition String_of :: "bool \<Rightarrow> Canvas \<Rightarrow> string" where
  "String_of ansi c =
     (if ansi then start_code else []) @ join_rows (line_end ansi) (screen_rows ansi c) @ (if ansi then reset_code else [])"

end
