(* ===== verification/Render.thy ===== *)
theory Render
  imports Canvas
begin

text \<open>
  The workspace of the terminal client, \<^verbatim>\<open>Render\<close> in \<^verbatim>\<open>client/ui/terminal_ui.cpp\<close>: what a view state looks like on
  the screen. A pointer that may be null is an \<open>option\<close>.
\<close>

record ViewState =
  vs_snapshot :: "SystemSnapshot option"
  vs_diagnostics :: "JSONValue option"
  cpu_history :: "double list"
  memory_history :: "double list"
  rx_history :: "double list"
  vs_connection :: string
  vs_filter :: string
  vs_sort :: string
  age_seconds :: double
  diagnostics_age :: double
  bytes_received :: u64
  vs_reconnects :: u64
  sequence_gaps :: u64
  page :: nat
  scroll :: nat
  paused :: bool
  editing_filter :: bool
  show_help :: bool
  recording :: bool

definition minus_one :: double where
  "minus_one = Finite True 1"

definition default_view :: ViewState where
  "default_view = \<lparr>vs_snapshot = None, vs_diagnostics = None, cpu_history = [], memory_history = [], rx_history = [],
     vs_connection = [], vs_filter = [], vs_sort = ''cpu'', age_seconds = minus_one, diagnostics_age = minus_one,
     bytes_received = 0, vs_reconnects = 0, sequence_gaps = 0, page = 1, scroll = 0, paused = False, editing_filter = False,
     show_help = False, recording = False\<rparr>"

section \<open>Numbers as text\<close>

text \<open>\<^verbatim>\<open>std::fixed << std::setprecision(k)\<close>: the decimal number with \<open>k\<close> places nearest to the exact value, ties to even.\<close>

definition fixed_mag :: "nat \<Rightarrow> rat \<Rightarrow> string" where
  "fixed_mag k a =
     (let n = nat (round_half_even (a * 10 ^ k)); frac = show_nat (n mod 10 ^ k)
      in show_nat (n div 10 ^ k) @ (if k = 0 then [] else ''.'' @ replicate (k - length frac) CHR ''0'' @ frac))"

fun Fixed :: "double \<Rightarrow> nat \<Rightarrow> string" where
  "Fixed (Finite neg a) k = (if neg then ''-'' else []) @ fixed_mag k a"
| "Fixed (Infinity neg) k = (if neg then ''-inf'' else ''inf'')"
| "Fixed NaN k = ''nan''"

definition Number_text :: "double option \<Rightarrow> string" where
  "Number_text n = (case n of Some d \<Rightarrow> Fixed d 1 | None \<Rightarrow> ''n/a'')"

definition units :: "string list" where
  "units = [''B'', ''KiB'', ''MiB'', ''GiB'', ''TiB'']"

fun scale_unit :: "string list \<Rightarrow> double \<Rightarrow> double \<times> string" where
  "scale_unit [] n = (n, [])"
| "scale_unit [u] n = (n, u)"
| "scale_unit (u # v # us) n =
     (if dle (Finite False 1024) n then scale_unit (v # us) (ddiv n (Finite False 1024)) else (n, u))"

definition Bytes_text :: "double \<Rightarrow> string" where
  "Bytes_text n =
     (let (m, u) = scale_unit units n in Fixed m (if dless m (Finite False 10) then 2 else 1) @ '' '' @ u)"

definition Rate_text :: "double option \<Rightarrow> string" where
  "Rate_text n = (case n of Some d \<Rightarrow> Bytes_text d @ ''/s'' | None \<Rightarrow> ''n/a'')"

definition Count_text :: "u64 option \<Rightarrow> string" where
  "Count_text n = (case n of Some v \<Rightarrow> show_nat (unat v) | None \<Rightarrow> ''n/a'')"

definition StatusColor :: "string \<Rightarrow> Color" where
  "StatusColor st = (if st = ''ok'' then Green else if st = ''unavailable'' then Red else Amber)"

definition SectionOk :: "ViewState \<Rightarrow> string \<Rightarrow> bool" where
  "SectionOk v name =
     (case vs_snapshot v of
        None \<Rightarrow> False
      | Some s \<Rightarrow>
          (case find (\<lambda>st. ss_name st = name) (collectors (telemetry s)) of
             Some st \<Rightarrow> ss_state st = ''ok''
           | None \<Rightarrow> False))"

definition Field_text :: "JSONValue option \<Rightarrow> string \<Rightarrow> string" where
  "Field_text v key =
     (case v of
        None \<Rightarrow> ''n/a''
      | Some j \<Rightarrow>
          (case Field j key of
             None \<Rightarrow> ''n/a''
           | Some p \<Rightarrow>
               (case AsUInt64 p of Some n \<Rightarrow> show_nat (unat n) | None \<Rightarrow>
               (case AsInt64 p of Some n \<Rightarrow> show_int (sint n) | None \<Rightarrow>
               (case AsBool p of Some b \<Rightarrow> if b then ''true'' else ''false'' | None \<Rightarrow>
               (case AsString p of Some s \<Rightarrow> s | None \<Rightarrow> ''n/a''))))))"

text \<open>\<^verbatim>\<open>std::left << std::setw(n)\<close>.\<close>

definition pad :: "nat \<Rightarrow> string \<Rightarrow> string" where
  "pad n s = s @ replicate (n - length s) CHR '' ''"

definition u64_text :: "u64 \<Rightarrow> string" where
  "u64_text n = show_nat (unat n)"

definition double_u64 :: "u64 \<Rightarrow> double" where
  "double_u64 n = of_nat_double (unat n)"

section \<open>The process table\<close>

definition shown_process :: "string \<Rightarrow> ProcessInfo \<Rightarrow> bool" where
  "shown_process flt p \<longleftrightarrow>
     flt = [] \<or> find_sub flt (Sanitize (proc_name p)) \<noteq> None \<or> find_sub flt (show_int (sint (pid p))) \<noteq> None"

definition process_before :: "string \<Rightarrow> ProcessInfo \<Rightarrow> ProcessInfo \<Rightarrow> bool" where
  "process_before srt a b =
     (if srt = ''cpu'' \<and> \<not> deq (cpu_percent a) (cpu_percent b) then dless (cpu_percent b) (cpu_percent a)
      else if srt = ''memory'' \<and> memory_bytes a \<noteq> memory_bytes b then memory_bytes a > memory_bytes b
      else if srt = ''threads'' \<and> thread_count a \<noteq> thread_count b then thread_count a > thread_count b
      else sint (pid a) < sint (pid b))"

text \<open>\<^verbatim>\<open>std::ranges::sort\<close>: the order of equivalent entries is not specified there; here they keep their order.\<close>

fun insert_row :: "string \<Rightarrow> ProcessInfo \<Rightarrow> ProcessInfo list \<Rightarrow> ProcessInfo list" where
  "insert_row srt p [] = [p]"
| "insert_row srt p (q # qs) = (if process_before srt q p then q # insert_row srt p qs else p # q # qs)"

definition process_rows :: "ViewState \<Rightarrow> SystemSnapshot \<Rightarrow> ProcessInfo list" where
  "process_rows v s = foldr (insert_row (vs_sort v)) (filter (shown_process (vs_filter v)) (processes (process s))) []"

definition process_line :: "ProcessInfo \<Rightarrow> string" where
  "process_line p =
     pad 9 (show_int (sint (pid p))) @ pad 9 (if cpu_valid p then Fixed (cpu_percent p) 1 else ''n/a'') @
     pad 13 (Bytes_text (double_u64 (memory_bytes p))) @ pad 6 (show_nat (unat (thread_count p))) @
     [proc_state p] @ ''   '' @ Sanitize (proc_name p)"

definition draw_processes :: "ViewState \<Rightarrow> int \<Rightarrow> int \<Rightarrow> int \<Rightarrow> int \<Rightarrow> Canvas \<Rightarrow> Canvas" where
  "draw_processes v x y w h =
     draws (Box x y w h ('' PROCESS EXPLORER / sort='' @ vs_sort v @ '' / one core=100% '') #
       (case vs_snapshot v of
          None \<Rightarrow> []
        | Some s \<Rightarrow>
            let rows = process_rows v s; start = min (scroll v) (if rows = [] then 0 else length rows - 1);
                visible = take (nat (h - 4)) (drop start rows)
            in [draw_text (x + 2) (y + 1) ''PID      CPU%     RSS          THR   ST  NAME'' Muted (w - 4),
                for_each (zip [0..<length visible] visible) (\<lambda>(i, p).
                  draw_text (x + 2) (y + 2 + int i) (process_line p) (if dle hundred (cpu_percent p) then Amber else Normal) (w - 4)),
                draw_text (x + 2) (y + h - 2)
                  (''visible '' @ show_nat (length rows) @ '' / sampled '' @ show_nat (unat (total_processes (process s))) @
                   (if processes_truncated (telemetry s) then '' / TOP-K TRUNCATED'' else []) @ '' / filter: '' @ vs_filter v)
                  Muted (w - 4)]))"

definition pressure_line :: "PressureMetrics \<Rightarrow> string" where
  "pressure_line p =
     pad 14 (resource p) @ pad 13 (Number_text (some_avg10 p)) @ pad 13 (Number_text (some_avg60 p)) @
     pad 13 (Number_text (some_avg300 p)) @ Number_text (full_avg10 p)"

definition pressure_color :: "PressureMetrics \<Rightarrow> Color" where
  "pressure_color p = (if dless (Finite False 10) (case some_avg10 p of Some d \<Rightarrow> d | None \<Rightarrow> dzero) then Amber else Normal)"

definition draw_pressure :: "PressureMetrics list \<Rightarrow> int \<Rightarrow> int \<Rightarrow> int \<Rightarrow> Canvas \<Rightarrow> Canvas" where
  "draw_pressure ps x y w =
     draws [draw_text x y ''RESOURCE      SOME 10s     SOME 60s     SOME 300s    FULL 10s'' Muted w,
            for_each (zip [0..<length ps] ps) (\<lambda>(i, p). draw_text x (y + 1 + int i) (pressure_line p) (pressure_color p) w)]"

section \<open>The pages\<close>

definition max_element :: "double list \<Rightarrow> double" where
  "max_element ds = (case ds of [] \<Rightarrow> Finite False 1 | d # es \<Rightarrow> foldl (\<lambda>m e. if dless m e then e else m) d es)"

definition overview_page :: "ViewState \<Rightarrow> SystemSnapshot \<Rightarrow> int \<Rightarrow> int \<Rightarrow> Canvas \<Rightarrow> Canvas" where
  "overview_page v s width height =
     (let half = width div 2; t = telemetry s
      in draws
        [Box 0 4 half 9 '' CPU / 120 SAMPLES '',
         draw_text 2 5 ((if SectionOk v ''cpu'' then Fixed (total_usage_percent (cpu s)) 1 @ ''%'' else ''n/a'') @ ''   '' @
           show_nat (unat (core_count (cpu s))) @ '' cores   load '' @ Fixed (load_1m (loadavg s)) 1) White (half - 4),
         Trend 2 7 (half - 4) 4 (cpu_history v) Cyan hundred,
         Box half 4 (width - half) 9 '' MEMORY / WORKING SET '',
         draw_text (half + 2) 5 (if SectionOk v ''memory''
           then Bytes_text (double_u64 (mem_used_bytes (memory s))) @ '' / '' @ Bytes_text (double_u64 (mem_total_bytes (memory s)))
           else ''unavailable'') White (width - half - 4),
         Trend (half + 2) 7 (width - half - 4) 4 (memory_history v) Green hundred,
         Box 0 13 half 6 '' COLLECTION PIPELINE '',
         draw_text 2 14 (''generation '' @ u64_text (sequence t) @ ''  collect '' @
           Fixed (ddiv (double_u64 (collection_us t)) (Finite False 1000)) 1 @ '' ms'') Normal (half - 4),
         draw_text 2 15 (''skipped ticks '' @ u64_text (skipped_ticks t) @ ''  denied PIDs '' @ u64_text (process_denied t)) Muted (half - 4),
         draw_text 2 16 ''scope: procfs-view / disk capacity via statvfs'' Muted (half - 4),
         Box half 13 (width - half) 6 '' NETWORK / AGGREGATE (NON-LOOPBACK DEFAULT) '',
         draw_text (half + 2) 14 (if SectionOk v ''network''
           then ''RX '' @ Bytes_text (dmul (rx_kbps (network s)) (Finite False 1024)) @ ''/s   TX '' @
             Bytes_text (dmul (tx_kbps (network s)) (Finite False 1024)) @ ''/s''
           else ''rates warming up / partial: inspect I/O workspace'') Normal (width - half - 4),
         Trend (half + 2) 15 (width - half - 4) 2 (rx_history v) Cyan (dmax (max_element (rx_history v)) (Finite False 1)),
         draw_processes v 0 19 width (height - 22)])"

definition interface_line :: "InterfaceMetrics \<Rightarrow> string" where
  "interface_line n =
     pad 19 (if_name n) @ pad 18 (Rate_text (rx_bytes_per_second n)) @ pad 18 (Rate_text (tx_bytes_per_second n)) @
     pad 17 (u64_text (rx_errors n) @ '' / '' @ u64_text (rx_dropped n)) @ u64_text (tx_errors n) @ '' / '' @ u64_text (tx_dropped n)"

definition disk_line :: "DiskIoMetrics \<Rightarrow> string" where
  "disk_line d =
     pad 19 (device d) @ pad 18 (Rate_text (read_bytes_per_second d)) @ pad 18 (Rate_text (write_bytes_per_second d)) @
     pad 11 (Number_text (iops d)) @ Number_text (busy_percent d)"

definition io_page :: "ViewState \<Rightarrow> SystemSnapshot \<Rightarrow> int \<Rightarrow> int \<Rightarrow> Canvas \<Rightarrow> Canvas" where
  "io_page v s width height =
     (let t = telemetry s; nh = min 10 (int (length (interfaces t)) + 4);
          ifs = take (nat (nh - 3)) (interfaces t); ds = take (nat (height - 11 - nh)) (drop (scroll v) (disks t))
      in draws
        [Box 0 4 width nh '' NETWORK INTERFACES / BYTES PER SECOND '',
         draw_text 2 5 ''INTERFACE          RX RATE           TX RATE           RX ERR / DROP    TX ERR / DROP'' Muted (width - 4),
         for_each (zip [0..<length ifs] ifs) (\<lambda>(i, n). draw_text 2 (6 + int i) (interface_line n) Normal (width - 4)),
         Box 0 (4 + nh) width (height - 7 - nh) '' BLOCK DEVICES / NO AGGREGATION ACROSS STACKED DEVICES '',
         draw_text 2 (5 + nh) ''DEVICE             READ              WRITE             IOPS       BUSY%'' Muted (width - 4),
         for_each (zip [0..<length ds] ds) (\<lambda>(i, d). draw_text 2 (6 + nh + int i) (disk_line d) Normal (width - 4))])"

definition pressure_page :: "SystemSnapshot \<Rightarrow> int \<Rightarrow> int \<Rightarrow> Canvas \<Rightarrow> Canvas" where
  "pressure_page s width height =
     (let t = telemetry s; g = cgroup t
      in draws
        [Box 0 4 width 8 '' PRESSURE STALL INFORMATION / PROCFS VIEW / PERCENT '',
         draw_pressure (pressure t) 2 5 (width - 4),
         draw_text 2 10 ''some = at least one task stalled; full = all non-idle tasks stalled'' Muted (width - 4),
         Box 0 12 width (height - 15) '' CGROUP V2 / EXPLICIT SCOPE '',
         draw_text 2 13 (''path: '' @ (if cg_path g = [] then ''disabled (server --cgroup PATH)'' else cg_path g)) White (width - 4),
         draw_text 2 14 (''state: '' @ cg_state g @ ''   CPU '' @ Number_text (cg_cpu_percent g) @ ''%   quota '' @
           (if cpu_unlimited g then ''unlimited'' else Number_text (cpu_quota_cores g)) @ '' cores'') Normal (width - 4),
         draw_text 2 15 (''memory '' @ (case memory_current g of Some b \<Rightarrow> Bytes_text (double_u64 b) | None \<Rightarrow> ''n/a'') @ '' / '' @
           (if memory_unlimited g then ''unlimited''
            else case memory_max g of Some b \<Rightarrow> Bytes_text (double_u64 b) | None \<Rightarrow> ''n/a'') @
           ''   OOM kills '' @ Count_text (oom_kill g)) Normal (width - 4),
         draw_text 2 16 (''throttled periods '' @ Count_text (nr_throttled g) @ ''   throttled ms/s '' @
           Number_text (throttled_ms_per_second g)) Amber (width - 4),
         draw_pressure (cg_pressure g) 2 18 (width - 4)])"

text \<open>The cells of the CPU matrix: the loop ends at the first row that does not fit.\<close>

definition cpu_cell :: "SystemSnapshot \<Rightarrow> int \<Rightarrow> nat \<Rightarrow> nat \<Rightarrow> Canvas \<Rightarrow> Canvas" where
  "cpu_cell s columns first i =
     (let row = int (i - first) div columns; x = 2 + (int (i - first) mod columns) * 19; y = 7 + row * 3;
          ids = cpu_ids (telemetry s); ident = (if i < length ids then unat (ids ! i) else i);
          usage = per_core_usage_percent (cpu s) ! i;
          col = (if dle (Finite False 90) usage then Red else if dle (Finite False 65) usage then Amber else Cyan)
      in draws [draw_text x y (''CPU '' @ show_nat ident @ ''  '' @ Fixed usage 1 @ ''%'') col 17, Bar x (y + 1) 16 usage col])"

definition cpu_page :: "ViewState \<Rightarrow> SystemSnapshot \<Rightarrow> int \<Rightarrow> int \<Rightarrow> Canvas \<Rightarrow> Canvas" where
  "cpu_page v s width height =
     (let columns = max 1 ((width - 4) div 19); first = scroll v * nat columns;
          fits = (\<lambda>i. 7 + (int (i - first) div columns) * 3 < height - 5)
      in draws
        [Box 0 4 width (height - 7) '' CPU MATRIX / LINUX CPU IDS '',
         draw_text 2 5 (''Load 1m/5m/15m: '' @ Fixed (load_1m (loadavg s)) 1 @ '' / '' @ Fixed (load_5m (loadavg s)) 1 @ '' / '' @
           Fixed (load_15m (loadavg s)) 1) White (width - 4),
         for_each (takeWhile fits [first..<length (per_core_usage_percent (cpu s))]) (cpu_cell s columns first),
         draw_text 2 (height - 5) ''j/k scroll rows | topology changes restart affected baselines'' Muted (width - 4)])"

definition transport_stats :: "ViewState \<Rightarrow> SystemSnapshot \<Rightarrow> (string \<times> string) list" where
  "transport_stats v s =
     [(''Received'', Bytes_text (double_u64 (bytes_received v))), (''Reconnects'', u64_text (vs_reconnects v)),
      (''Sequence gaps'', u64_text (sequence_gaps v)), (''Active sessions'', Field_text (vs_diagnostics v) ''active_sessions''),
      (''Queued bytes'', Field_text (vs_diagnostics v) ''queued_bytes''),
      (''Queue budget'', Field_text (vs_diagnostics v) ''queue_budget_bytes''),
      (''Superseded frames'', Field_text (vs_diagnostics v) ''dropped_snapshots_total''),
      (''Timeouts'', Field_text (vs_diagnostics v) ''timeouts_total''),
      (''Rejected clients'', Field_text (vs_diagnostics v) ''rejected_total''),
      (''Encode us'', Field_text (vs_diagnostics v) ''encode_us''),
      (''Store lock-free'', Field_text (vs_diagnostics v) ''snapshot_store_lock_free''),
      (''Probe age'', if dless (diagnostics_age v) dzero then ''n/a'' else Fixed (diagnostics_age v) 1 @ '' s''),
      (''Instance'', instance_id (telemetry s))]"

text \<open>The collectors: two lines each, until the rows are used up.\<close>

fun collector_lines :: "int \<Rightarrow> int \<Rightarrow> int \<Rightarrow> SampleStatus list \<Rightarrow> Canvas \<Rightarrow> Canvas" where
  "collector_lines left height row [] c = c"
| "collector_lines left height row (st # sts) c =
     (let c1 = draws [draw_text 2 row (ss_name st) White (left - 4),
                      draw_text 18 row (ss_state st) (StatusColor (ss_state st)) (left - 20),
                      draw_text 2 (row + 1) (u64_text (ss_duration_us st) @ '' us '' @ ss_error st) Muted (left - 4)] c
      in if row + 2 \<ge> height - 5 then c1 else collector_lines left height (row + 2) sts c1)"

definition transport_page :: "ViewState \<Rightarrow> SystemSnapshot \<Rightarrow> int \<Rightarrow> int \<Rightarrow> Canvas \<Rightarrow> Canvas" where
  "transport_page v s width height =
     (let left = width div 2; stats = take (nat (height - 10)) (transport_stats v s)
      in draws
        [Box 0 4 left (height - 7) '' COLLECTOR HEALTH / CURRENT GENERATION '',
         collector_lines left height 6 (collectors (telemetry s)),
         Box left 4 (width - left) (height - 7) '' TRANSPORT / BOUNDED DELIVERY '',
         for_each (zip [0..<length stats] stats) (\<lambda>(i, k, val).
           draws [draw_text (left + 2) (6 + int i) k Muted 21, draw_text (left + 24) (6 + int i) val Normal (width - left - 26)])])"

definition help_lines :: "string list" where
  "help_lines =
     [''1..6   switch workspace'',
      ''c / m / p / t   sort processes by CPU / RSS / PID / thread count'',
      ''/   edit process filter; Enter accepts, Esc cancels'',
      ''j / k   scroll process table; g returns to the first row'',
      ''Space   freeze the visible snapshot; acquisition and recording continue'',
      ''h   toggle help     q   quit'',
      ''CPU% uses one core = 100%. A multithreaded process can exceed 100%.'',
      ''n/a means there is no valid rate yet. Zero is a valid measurement.'',
      ''Disk rows are separate devices; stacked devices are not added together.'',
      ''PSI reports stalled task time, not CPU utilization.'',
      ''Recording: --record session.jsonl. Replay: --replay session.jsonl.'',
      ''Transport counters are fetched independently through /diagnostics.'']"

definition help_page :: "int \<Rightarrow> int \<Rightarrow> Canvas \<Rightarrow> Canvas" where
  "help_page width height =
     (let ls = take (nat (height - 10)) help_lines
      in draws [Box 0 4 width (height - 7) '' WORKSPACE KEYS '',
                for_each (zip [0..<length ls] ls) (\<lambda>(i, l). draw_text 3 (6 + int i) l (if i < 6 then White else Normal) (width - 6))])"

definition compact_page :: "ViewState \<Rightarrow> int \<Rightarrow> int \<Rightarrow> Canvas \<Rightarrow> Canvas" where
  "compact_page v width height =
     draws ([Box 0 4 width (height - 7) '' COMPACT VIEW '',
             draw_text 2 6 ''Resize to at least 80 x 26 for the full workspace.'' Amber (width - 4)] @
       (case vs_snapshot v of
          None \<Rightarrow> []
        | Some s \<Rightarrow>
            [draw_text 2 8 (''CPU '' @ Fixed (total_usage_percent (cpu s)) 1 @ ''% / RAM '' @ Fixed (mem_used_percent (memory s)) 1 @ ''%'')
               Normal (width - 4),
             draw_text 2 9 (''Processes '' @ show_nat (unat (total_processes (process s)))) Normal (width - 4)]))"

definition main_page :: "ViewState \<Rightarrow> int \<Rightarrow> int \<Rightarrow> Canvas \<Rightarrow> Canvas" where
  "main_page v width height =
     (if width < 80 \<or> height < 26 then compact_page v width height
      else if show_help v then help_page width height
      else case vs_snapshot v of
             None \<Rightarrow>
               draws [Box 0 4 width (height - 7) '' CONNECTION '',
                      draw_text 3 7 ''No snapshot received. The UI remains responsive while reconnecting.'' Amber (width - 6)]
           | Some s \<Rightarrow>
               if page v = 1 then overview_page v s width height
               else if page v = 2 then draw_processes v 0 4 width (height - 7)
               else if page v = 3 then io_page v s width height
               else if page v = 4 then pressure_page s width height
               else if page v = 6 then cpu_page v s width height
               else transport_page v s width height)"

definition is_stale :: "ViewState \<Rightarrow> bool" where
  "is_stale v \<longleftrightarrow>
     dless (case vs_snapshot v of
              Some s \<Rightarrow> ddiv (dmul (Finite False 3) (double_u64 (interval_ms (telemetry s)))) (Finite False 1000)
            | None \<Rightarrow> Finite False 3)
       (age_seconds v)"

definition health :: "ViewState \<Rightarrow> string" where
  "health v =
     (if paused v then ''FROZEN VIEW'' else if vs_snapshot v = None then ''WAITING'' else if is_stale v then ''STALE''
      else if take 6 (vs_connection v) = ''replay'' then ''REPLAY'' else ''LIVE'')"

definition status_bar :: "ViewState \<Rightarrow> int \<Rightarrow> Canvas \<Rightarrow> Canvas" where
  "status_bar v width =
     draws
       [draw_text 2 0 ''WEB_HTOP / SYSTEM TELEMETRY'' White 10000,
        draw_text (max 32 (width - 30)) 0 (health v) (if paused v \<or> is_stale v then Amber else Green) 10000,
        draw_text 2 1 ''1 Overview   2 Processes   3 I/O   4 Pressure   5 Transport   6 CPU'' Cyan (width - 4),
        draw_text 2 2 (''['' @ show_nat (page v) @ ''] '' @ vs_connection v @ ''  | age '' @
          (if dless (age_seconds v) dzero then ''n/a'' else Fixed (age_seconds v) 1 @ ''s'') @ ''  | '' @
          (case vs_snapshot v of Some s \<Rightarrow> hostname (telemetry s) | None \<Rightarrow> ''waiting for first snapshot'')) Muted (width - 4)]"

definition footer :: "ViewState \<Rightarrow> int \<Rightarrow> int \<Rightarrow> Canvas \<Rightarrow> Canvas" where
  "footer v width height =
     draws
       [draw_text 2 (height - 2)
          (if editing_filter v then ''FILTER > '' @ vs_filter v
           else ''c/m/p/t sort   / filter   j/k scroll   Space freeze   h help   q quit'')
          (if editing_filter v then Amber else Muted) (width - 4),
        draw_text 2 (height - 1)
          ((if recording v then ''REC  '' else []) @ ''generation '' @
           (case vs_snapshot v of Some s \<Rightarrow> u64_text (sequence (telemetry s)) | None \<Rightarrow> ''n/a'') @ '' | interval '' @
           (case vs_snapshot v of Some s \<Rightarrow> u64_text (interval_ms (telemetry s)) | None \<Rightarrow> ''n/a'') @ '' ms | scope: procfs-view'')
          Muted (width - 4)]"

definition Render :: "ViewState \<Rightarrow> int \<Rightarrow> int \<Rightarrow> bool \<Rightarrow> string" where
  "Render v width0 height0 ansi =
     (let width = clamp_int width0 1 240; height = clamp_int height0 1 100
      in String_of ansi (draws [status_bar v width, main_page v width height, footer v width height] (new_canvas width height)))"

text \<open>\<^verbatim>\<open>TerminalUi::Draw\<close>: what is printed, from the size that the terminal reports.\<close>

definition Draw :: "bool \<Rightarrow> nat \<Rightarrow> nat \<Rightarrow> ViewState \<Rightarrow> string" where
  "Draw interactive cols rows v =
     (if interactive then Render v (if cols \<noteq> 0 then int cols else 120) (if rows \<noteq> 0 then int rows else 40) True else [])"

end
