(* ===== verification/Render_Safe.thy ===== *)
theory Render_Safe
  imports Render
begin

text \<open>
  What the terminal can be made to show. Everything on the screen goes through \<open>Put\<close>; the
  interface between the canvas and the pages is a locale that says what \<open>Put\<close> keeps, and every page is
  proved to keep it. Whatever text a server sends, the output is made of printable characters,
  the frame and bar glyphs, and the client's own colour sequences.
\<close>

section \<open>The glyphs\<close>

definition safe_glyph :: "nat \<Rightarrow> bool" where
  "safe_glyph g \<longleftrightarrow> 32 \<le> g \<and> g < 127 \<or> g \<in> {0x2500, 0x2501, 0x2502, 0x250C, 0x2510, 0x2514, 0x2518} \<or> 0x2581 \<le> g \<and> g \<le> 0x2588"

definition keeps_canvas :: "(Canvas \<Rightarrow> bool) \<Rightarrow> (Canvas \<Rightarrow> Canvas) \<Rightarrow> bool" where
  "keeps_canvas P f \<longleftrightarrow> (\<forall>c. P c \<longrightarrow> P (f c))"

lemma safe_Sanitize: "c \<in> set (Sanitize s) \<Longrightarrow> safe_glyph (byte c)"
  by (auto simp: Sanitize_def safe_glyph_def)

lemma frame_glyphs [simp]:
  "safe_glyph 9472" "safe_glyph 9473" "safe_glyph 9474" "safe_glyph 9484" "safe_glyph 9488" "safe_glyph 9492" "safe_glyph 9496"
  by (simp_all add: safe_glyph_def)

lemma block_glyph [simp]: "safe_glyph (9600 + nat (clamp_int k 1 8))"
  by (auto simp: safe_glyph_def clamp_int_def)

section \<open>A surface that the pages draw on\<close>

locale drawing_surface =
  fixes surface :: "Canvas \<Rightarrow> bool"
  assumes Put_keeps: "safe_glyph g \<Longrightarrow> surface c \<Longrightarrow> surface (Put x y g col c)"
begin

lemma keeps_Put: "safe_glyph g \<Longrightarrow> keeps_canvas surface (Put x y g col)"
  by (simp add: keeps_canvas_def Put_keeps)

lemma keeps_put_text: "\<forall>ch \<in> set s. safe_glyph (byte ch) \<Longrightarrow> surface c \<Longrightarrow> surface (put_text x y s col limit c)"
  by (induction x y s col limit c rule: put_text.induct) (simp_all add: Put_keeps)

lemma keeps_draw_text: "keeps_canvas surface (draw_text x y s col limit)"
  by (auto simp: keeps_canvas_def draw_text_def intro!: keeps_put_text dest: safe_Sanitize)

lemma keeps_draws: "\<forall>f \<in> set fs. keeps_canvas surface f \<Longrightarrow> keeps_canvas surface (draws fs)"
  unfolding keeps_canvas_def draws_def
proof (induction fs)
  case (Cons f fs)
  then show ?case by simp
qed simp

lemma keeps_for_each: "\<forall>x \<in> set xs. keeps_canvas surface (f x) \<Longrightarrow> keeps_canvas surface (for_each xs f)"
  unfolding keeps_canvas_def for_each_def
proof (induction xs)
  case (Cons x xs)
  then show ?case by simp
qed simp

lemma keeps_if: "(b \<Longrightarrow> keeps_canvas surface f) \<Longrightarrow> (\<not> b \<Longrightarrow> keeps_canvas surface g) \<Longrightarrow> keeps_canvas surface (if b then f else g)"
  by simp

lemmas keeps_intros = keeps_Put keeps_draw_text keeps_draws keeps_for_each keeps_if

lemma keeps_Box: "keeps_canvas surface (Box x y w h title)"
  unfolding Box_def by (auto intro!: keeps_intros)

lemma keeps_Bar: "keeps_canvas surface (Bar x y w percent col)"
  unfolding Bar_def Let_def by (auto intro!: keeps_intros)

lemma keeps_trend_column: "keeps_canvas surface (trend_column x y h v col scale)"
proof -
  have "keeps_canvas surface (for_each [0..h - 1] (\<lambda>j c1. let part = dsub bars (of_int_double j)
      in if dless dzero part then Put x (y + h - 1 - j) (9600 + nat (clamp_int (trunc_int (ceil_double (dmul part (Finite False 8)))) 1 8)) col c1
         else c1))" for bars
    by (rule keeps_for_each) (auto simp: keeps_canvas_def Let_def Put_keeps)
  then show ?thesis by (simp add: keeps_canvas_def trend_column_def Let_def)
qed

lemma keeps_Trend: "keeps_canvas surface (Trend x y w h history col scale)"
  unfolding Trend_def Let_def by (rule keeps_for_each) (auto simp: keeps_trend_column)

lemmas keeps_shapes = keeps_Box keeps_Bar keeps_Trend

lemma keeps_processes: "keeps_canvas surface (draw_processes v x y w h)"
  unfolding draw_processes_def Let_def
  by (rule keeps_draws) (auto intro!: keeps_intros keeps_shapes split: option.splits)

lemma keeps_pressure: "keeps_canvas surface (draw_pressure ps x y w)"
  unfolding draw_pressure_def by (auto intro!: keeps_intros)

lemma keeps_collectors: "surface c \<Longrightarrow> surface (collector_lines left height row sts c)"
proof (induction sts arbitrary: row c)
  case (Cons st sts)
  let ?ops = "[draw_text 2 row (ss_name st) White (left - 4), draw_text 18 row (ss_state st) (StatusColor (ss_state st)) (left - 20),
    draw_text 2 (row + 1) (u64_text (ss_duration_us st) @ '' us '' @ ss_error st) Muted (left - 4)]"
  have "keeps_canvas surface (draws ?ops)" by (rule keeps_draws) (simp add: keeps_draw_text)
  then have "surface (draws ?ops c)" using Cons.prems by (simp add: keeps_canvas_def)
  then show ?case using Cons.IH by (simp add: Let_def)
qed simp

lemma keeps_cpu_cell: "keeps_canvas surface (cpu_cell s columns first i)"
  unfolding cpu_cell_def Let_def by (auto intro!: keeps_intros keeps_shapes)

lemma keeps_pages:
  "keeps_canvas surface (overview_page v s width height)" "keeps_canvas surface (io_page v s width height)"
  "keeps_canvas surface (pressure_page s width height)" "keeps_canvas surface (cpu_page v s width height)"
  "keeps_canvas surface (help_page width height)" "keeps_canvas surface (compact_page v width height)"
  unfolding overview_page_def io_page_def pressure_page_def cpu_page_def help_page_def compact_page_def Let_def
  by (rule keeps_draws, auto intro!: keeps_intros keeps_shapes keeps_processes keeps_pressure keeps_cpu_cell split: option.splits)+

lemma keeps_transport: "keeps_canvas surface (transport_page v s width height)"
  unfolding transport_page_def Let_def
  by (rule keeps_draws) (auto simp: keeps_canvas_def [of _ "collector_lines _ _ _ _"] keeps_collectors intro!: keeps_intros keeps_shapes)

lemma keeps_main: "keeps_canvas surface (main_page v width height)"
  unfolding main_page_def
  by (auto intro!: keeps_intros keeps_shapes keeps_pages keeps_transport keeps_processes split: option.splits)

lemma keeps_bars: "keeps_canvas surface (status_bar v width)" "keeps_canvas surface (footer v width height)"
  unfolding status_bar_def footer_def by (auto intro!: keeps_intros)

lemma rendered:
  "surface (new_canvas width height) \<Longrightarrow>
   surface (draws [status_bar v width, main_page v width height, footer v width height] (new_canvas width height))"
  using keeps_main keeps_bars by (simp add: draws_def keeps_canvas_def)

end


section \<open>The screen\<close>

definition canvas_ok :: "int \<Rightarrow> int \<Rightarrow> Canvas \<Rightarrow> bool" where
  "canvas_ok w h c \<longleftrightarrow> cv_w c = w \<and> cv_h c = h \<and> length (cells c) = nat (w * h) \<and> (\<forall>cell \<in> set (cells c). safe_glyph (glyph cell))"

interpretation screen: drawing_surface "canvas_ok w h" for w h
proof unfold_locales
  show "canvas_ok w h (Put x y g col c)" if "safe_glyph g" "canvas_ok w h c" for g c x y col
    using that set_update_subset_insert [of "cells c" "nat (y * cv_w c + x)" "\<lparr>glyph = g, color = col\<rparr>"]
    by (auto simp: canvas_ok_def Put_def)
qed

lemma canvas_ok_new: "canvas_ok w h (new_canvas w h)"
  by (auto simp: canvas_ok_def new_canvas_def blank_cell_def safe_glyph_def)

abbreviation drawn :: "ViewState \<Rightarrow> int \<Rightarrow> int \<Rightarrow> Canvas" where
  "drawn v w h \<equiv> draws [status_bar v w, main_page v w h, footer v w h] (new_canvas w h)"

lemma drawn_ok: "canvas_ok w h (drawn v w h)"
  by (rule screen.rendered [OF canvas_ok_new])

lemma row_cells_ok:
  assumes "canvas_ok w h c" "0 \<le> y" "y < h"
  shows "length (row_cells c y) = nat w" "\<forall>cell \<in> set (row_cells c y). safe_glyph (glyph cell)"
proof -
  have w: "cv_w c = w" "length (cells c) = nat (w * h)" using assms(1) by (simp_all add: canvas_ok_def)
  show "length (row_cells c y) = nat w" by (simp add: row_cells_def w)
  have "nat (y * w + x) < length (cells c)" if "0 \<le> x" "x < w" for x
  proof -
    have "(y + 1) * w \<le> h * w" using assms(2,3) that by (intro mult_right_mono) simp_all
    then have "y * w + x < w * h" using that by (simp add: algebra_simps)
    moreover have "0 \<le> y * w + x" using assms(2) that by simp
    ultimately show ?thesis by (simp add: w nat_less_eq_zless)
  qed
  then show "\<forall>cell \<in> set (row_cells c y). safe_glyph (glyph cell)"
    using assms(1) by (auto simp: row_cells_def w canvas_ok_def)
qed

section \<open>The output as a word over an alphabet\<close>

definition screen_alphabet :: "bool \<Rightarrow> string set" where
  "screen_alphabet ansi =
     {Utf8_glyph g | g. safe_glyph g} \<union> {line_end ansi} \<union>
     (if ansi then range color_code \<union> {start_code, reset_code} else {})"

definition word_over :: "string set \<Rightarrow> string \<Rightarrow> bool" where
  "word_over A s \<longleftrightarrow> (\<exists>toks. set toks \<subseteq> A \<and> s = concat toks)"

lemma word_Nil [simp]: "word_over A []"
  unfolding word_over_def by (rule exI [of _ "[]"]) simp

lemma word_letter: "t \<in> A \<Longrightarrow> word_over A t"
  unfolding word_over_def by (rule exI [of _ "[t]"]) simp

lemma word_append: "word_over A s \<Longrightarrow> word_over A t \<Longrightarrow> word_over A (s @ t)"
  unfolding word_over_def by (metis Un_least concat_append set_append)

lemma word_join: "word_over A sep \<Longrightarrow> \<forall>r \<in> set rs. word_over A r \<Longrightarrow> word_over A (join_rows sep rs)"
  by (induction sep rs rule: join_rows.induct) (simp_all add: word_append)

declare color_code.simps [simp del]

lemma word_row: "\<forall>cell \<in> set cs. safe_glyph (glyph cell) \<Longrightarrow> word_over (screen_alphabet ansi) (row_text ansi cur cs)"
proof (induction cs arbitrary: cur)
  case (Cons cell cs)
  have "Utf8_glyph (glyph cell) \<in> screen_alphabet ansi" using Cons.prems by (auto simp: screen_alphabet_def)
  moreover have "color_code (color cell) \<in> screen_alphabet ansi" if ansi using that by (auto simp: screen_alphabet_def)
  ultimately show ?case using Cons by (auto intro!: word_append intro: word_letter)
qed simp

lemma word_String_of:
  assumes "canvas_ok w h c"
  shows "word_over (screen_alphabet ansi) (String_of ansi c)"
proof -
  have h: "cv_h c = h" using assms by (simp add: canvas_ok_def)
  have white: "word_over (screen_alphabet ansi) (if ansi then color_code White else [])"
    by (cases ansi) (simp_all add: word_letter screen_alphabet_def)
  have "word_over (screen_alphabet ansi) r" if r: "r \<in> set (screen_rows ansi c)" for r
  proof -
    obtain y where y: "0 \<le> y" "y < h" "r = (if ansi then color_code White else []) @ row_text ansi White (row_cells c y)"
      using r by (auto simp: screen_rows_def h)
    then show ?thesis using white word_row [OF row_cells_ok(2) [OF assms y(1,2)]] by (simp add: word_append)
  qed
  moreover have "word_over (screen_alphabet ansi) (line_end ansi)" by (rule word_letter) (simp add: screen_alphabet_def)
  ultimately have "word_over (screen_alphabet ansi) (join_rows (line_end ansi) (screen_rows ansi c))" by (intro word_join) simp_all
  moreover have "word_over (screen_alphabet True) start_code" "word_over (screen_alphabet True) reset_code"
    by (rule word_letter, simp add: screen_alphabet_def)+
  ultimately show ?thesis by (cases ansi) (simp_all add: String_of_def word_append)
qed


lemma clamp_int_bounds: "lo \<le> hi \<Longrightarrow> lo \<le> clamp_int v lo hi \<and> clamp_int v lo hi \<le> hi"
  by (simp add: clamp_int_def)

text \<open>
  C34: terminal injection is impossible. Whatever process names, host names, error texts and
  diagnostics a server sends, for every page, window size and view state, what the client prints is a
  sequence of printable ASCII characters, frame and bar glyphs, line ends and, in colour mode, the client's own
  colour and cursor sequences; nothing else reaches the terminal.
\<close>

theorem no_terminal_injection: "word_over (screen_alphabet ansi) (Render v width height ansi)"
  unfolding Render_def Let_def by (rule word_String_of [OF drawn_ok])

section \<open>The shape of the screen\<close>

lemma row_text_plain: "row_text False cur cs = concat (map (Utf8_glyph \<circ> glyph) cs)"
  by (induction cs arbitrary: cur) simp_all

lemma and_63: "and (c :: nat) 63 = c mod 64"
  using take_bit_eq_mask [of 6 c] by (simp add: mask_eq_exp_minus_1 take_bit_eq_mod)

lemma or_prefix:
  "k < 32 \<Longrightarrow> or (224 :: nat) k = 224 + k" "k < 64 \<Longrightarrow> or (128 :: nat) k = 128 + k"
  using or_high_low [of k 5 7] or_high_low [of k 6 2] by (simp_all add: push_bit_eq_mult)

lemma Utf8_glyph_utf8: "safe_glyph g \<Longrightarrow> Utf8_glyph g = utf8 g \<and> scalar g"
proof -
  assume "safe_glyph g"
  then consider "g < 127" | "9472 \<le> g" "g < 9700" by (force simp: safe_glyph_def)
  then show ?thesis
  proof cases
    case 2
    then have "drop_bit 12 g = g div 4096" "drop_bit 6 g = g div 64" "g div 4096 < 32" by (simp_all add: drop_bit_eq_div)
    with 2 show ?thesis by (simp add: Utf8_glyph_def utf8_def utf8_bytes_def scalar_def and_63 or_prefix)
  qed (simp add: Utf8_glyph_def utf8_def utf8_bytes_def scalar_def)
qed

lemma valid_utf8_append: "valid_utf8 s \<Longrightarrow> valid_utf8 t \<Longrightarrow> valid_utf8 (s @ t)"
proof -
  assume "valid_utf8 s" "valid_utf8 t"
  then obtain ns ms where "list_all scalar ns" "s = concat (map utf8 ns)" "list_all scalar ms" "t = concat (map utf8 ms)"
    by (auto simp: valid_utf8_def)
  then show ?thesis unfolding valid_utf8_def by (intro exI [of _ "ns @ ms"]) simp
qed

lemma alphabet_utf8: "t \<in> screen_alphabet ansi \<Longrightarrow> valid_utf8 t"
proof -
  assume t: "t \<in> screen_alphabet ansi"
  have code: "list_all (\<lambda>c. byte c < 128) (color_code col)" for col by (cases col) (simp_all add: color_code.simps ESC_def)
  from t consider g where "t = Utf8_glyph g" "safe_glyph g" | "list_all (\<lambda>c. byte c < 128) t"
    using code by (auto simp: screen_alphabet_def line_end_def CR_LF_def ESC_def start_code_def reset_code_def split: if_splits)
  then show ?thesis
  proof cases
    case 1
    then show ?thesis using Utf8_glyph_utf8 [of g] valid_utf8_app [of g "[]"] by simp
  qed (rule valid_utf8_ascii)
qed

lemma word_utf8: "word_over (screen_alphabet ansi) s \<Longrightarrow> valid_utf8 s"
proof -
  assume "word_over (screen_alphabet ansi) s"
  then obtain toks where "set toks \<subseteq> screen_alphabet ansi" "s = concat toks" by (auto simp: word_over_def)
  then show ?thesis
    by (induction toks arbitrary: s) (auto intro: valid_utf8_append alphabet_utf8)
qed


end
