(* ===== verification/Client_Options.thy ===== *)
theory Client_Options
  imports Charconv
begin

text \<open>
  The command line of the client, \<^verbatim>\<open>client/main.cpp\<close>. \<open>argv\<close> is a list of strings, without the program's name.
\<close>

record ClientOptions =
  host :: string
  record_path :: string
  replay_path :: string
  stream_port :: nat
  http_port :: nat
  once :: bool

definition default_options :: ClientOptions where
  "default_options = \<lparr>host = ''localhost'', record_path = [], replay_path = [], stream_port = 9999, http_port = 8080, once = False\<rparr>"

definition Port :: "string \<Rightarrow> nat result" where
  "Port s =
     (case parsed_whole (from_chars_unsigned (2 ^ 32) s) of
        Some n \<Rightarrow> if n = 0 \<or> n > 65535 then Inl (Invalid_argument ''port must be 1..65535'') else Inr n
      | None \<Rightarrow> Inl (Invalid_argument ''port must be 1..65535''))"

datatype launch = Show_help | Run_client ClientOptions

function client_args :: "string list \<Rightarrow> nat \<Rightarrow> ClientOptions \<Rightarrow> launch result" where
  "client_args [] positional o1 =
     (if record_path o1 \<noteq> [] \<and> replay_path o1 \<noteq> [] then Inl (Invalid_argument ''record and replay are mutually exclusive'')
      else Inr (Run_client o1))"
| "client_args (arg # args) positional o1 =
     (if arg = ''--help'' then Inr Show_help
      else if arg = ''--once'' then client_args args positional (o1\<lparr>once := True\<rparr>)
      else if arg = ''--record'' \<or> arg = ''--replay'' then
        (case args of
           [] \<Rightarrow> Inl (Invalid_argument ''missing file path'')
         | path # args1 \<Rightarrow>
             client_args args1 positional (if arg = ''--record'' then o1\<lparr>record_path := path\<rparr> else o1\<lparr>replay_path := path\<rparr>))
      else if arg \<noteq> [] \<and> hd arg = CHR ''-'' then Inl (Invalid_argument ''unknown option'')
      else if positional = 0 then client_args args 1 (o1\<lparr>host := arg\<rparr>)
      else if positional = 1 then rbind (Port arg) (\<lambda>n. client_args args 2 (o1\<lparr>stream_port := n\<rparr>))
      else if positional = 2 then rbind (Port arg) (\<lambda>n. client_args args 3 (o1\<lparr>http_port := n\<rparr>))
      else Inl (Invalid_argument ''too many arguments''))"
  by pat_completeness simp_all
termination
  by (relation "measure (\<lambda>(args, positional, o1). length args)") simp_all

definition client_main :: "string list \<Rightarrow> launch result" where
  "client_main args = client_args args 0 default_options"

section \<open>What is accepted\<close>

definition options_ok :: "ClientOptions \<Rightarrow> bool" where
  "options_ok o1 \<longleftrightarrow> 1 \<le> stream_port o1 \<and> stream_port o1 \<le> 65535 \<and> 1 \<le> http_port o1 \<and> http_port o1 \<le> 65535 \<and>
     \<not> (record_path o1 \<noteq> [] \<and> replay_path o1 \<noteq> [])"

definition ports_ok :: "ClientOptions \<Rightarrow> bool" where
  "ports_ok o1 \<longleftrightarrow> 1 \<le> stream_port o1 \<and> stream_port o1 \<le> 65535 \<and> 1 \<le> http_port o1 \<and> http_port o1 \<le> 65535"

lemma Port_bounds: "Port s = Inr n \<Longrightarrow> 1 \<le> n \<and> n \<le> 65535"
  by (auto simp: Port_def split: option.splits if_splits)

lemma Port_show: "1 \<le> n \<Longrightarrow> n \<le> 65535 \<Longrightarrow> Port (show_nat n) = Inr n"
  by (simp add: Port_def parsed_whole_def from_chars_show_nat)

lemma client_args_ok: "client_args args k o1 = Inr (Run_client o2) \<Longrightarrow> ports_ok o1 \<Longrightarrow> options_ok o2"
proof (induction args k o1 rule: client_args.induct)
  case (1 positional o1)
  then show ?case by (auto simp: options_ok_def ports_ok_def split: if_splits)
next
  case (2 arg args positional o1)
  have p: "ports_ok (o1\<lparr>once := True\<rparr>)" "ports_ok (o1\<lparr>host := x\<rparr>)" "ports_ok (o1\<lparr>record_path := x\<rparr>)" "ports_ok (o1\<lparr>replay_path := x\<rparr>)"
    "1 \<le> n \<Longrightarrow> n \<le> 65535 \<Longrightarrow> ports_ok (o1\<lparr>stream_port := n\<rparr>) \<and> ports_ok (o1\<lparr>http_port := n\<rparr>)" for x n
    using "2.prems"(2) by (simp_all add: ports_ok_def)
  let ?rec = "arg = ''--record'' \<or> arg = ''--replay''" and ?dash = "arg \<noteq> [] \<and> hd arg = CHR ''-''"
  consider "arg = ''--help''" | "arg = ''--once''" | "arg \<noteq> ''--help''" "arg \<noteq> ''--once''" ?rec
    | "arg \<noteq> ''--help''" "arg \<noteq> ''--once''" "\<not> ?rec" ?dash | "arg \<noteq> ''--help''" "arg \<noteq> ''--once''" "\<not> ?rec" "\<not> ?dash"
    by argo
  then show ?case
  proof cases
    case 2
    then show ?thesis using "2.prems" "2.IH"(1) p(1) by simp
  next
    case 3
    then obtain path args1 where "args = path # args1" using "2.prems"(1) by (cases args) auto
    then show ?thesis using 3 "2.prems"(1) "2.IH"(2) p(3,4) by (cases "arg = ''--record''") simp_all
  next
    case 5
    note IH = "2.IH"(3-5) [OF 5]
    show ?thesis
    proof (cases "positional = 0 \<or> positional > 2")
      case True
      then show ?thesis using "2.prems"(1) 5 IH(1) p(2) by (auto simp del: list.sel)
    next
      case False
      then obtain n where n: "Port arg = Inr n" using "2.prems"(1) 5 by (cases "Port arg") (auto split: if_splits)
      then show ?thesis using "2.prems"(1) 5 False IH(2,3) p(5) Port_bounds [OF n] by (cases "positional = 1") auto
    qed
  qed (use "2.prems"(1) in auto)
qed

text \<open>The command line that spells a set of options out.\<close>

definition spell_options :: "ClientOptions \<Rightarrow> string list" where
  "spell_options o1 =
     [host o1, show_nat (stream_port o1), show_nat (http_port o1)] @ (if once o1 then [''--once''] else []) @
     (if record_path o1 \<noteq> [] then [''--record'', record_path o1] else []) @
     (if replay_path o1 \<noteq> [] then [''--replay'', replay_path o1] else [])"


lemma show_nat_plain: "show_nat n \<noteq> [] \<and> hd (show_nat n) \<noteq> CHR ''-''"
proof -
  have "show_nat n \<noteq> []" by simp
  moreover have "is_digit (hd (show_nat n))" using in_show_nat [OF hd_in_set] \<open>show_nat n \<noteq> []\<close> by blast
  ultimately show ?thesis by (auto simp: is_digit_def)
qed

lemma plain_arg:
  "arg \<noteq> [] \<Longrightarrow> hd arg \<noteq> CHR ''-'' \<Longrightarrow>
   arg \<noteq> ''--help'' \<and> arg \<noteq> ''--once'' \<and> arg \<noteq> ''--record'' \<and> arg \<noteq> ''--replay''"
  by auto

text \<open>
  The options the client starts with. Whatever the command line, the client only runs with
  ports within 1..65535 and never records and replays at once; and every such set of options is what the
  command line that spells it out selects.
\<close>

theorem client_options_exact:
  "(client_main args = Inr (Run_client o1) \<longrightarrow> options_ok o1) \<and>
   (options_ok o2 \<and> host o2 \<noteq> [] \<and> hd (host o2) \<noteq> CHR ''-'' \<longrightarrow> client_main (spell_options o2) = Inr (Run_client o2))"
proof (intro conjI impI)
  show "options_ok o1" if "client_main args = Inr (Run_client o1)"
    using client_args_ok [OF that [unfolded client_main_def]] by (simp add: ports_ok_def default_options_def)
next
  assume o: "options_ok o2 \<and> host o2 \<noteq> [] \<and> hd (host o2) \<noteq> CHR ''-''"
  let ?o = "default_options\<lparr>host := host o2, stream_port := stream_port o2, http_port := http_port o2\<rparr>"
  have ports: "Port (show_nat (stream_port o2)) = Inr (stream_port o2)" "Port (show_nat (http_port o2)) = Inr (http_port o2)"
    using o by (simp_all add: Port_show options_ok_def)
  have pos: "client_main ([host o2, show_nat (stream_port o2), show_nat (http_port o2)] @ flags) = client_args flags 3 ?o" for flags
    using o plain_arg [of "host o2"] plain_arg [OF conjunct1 conjunct2, OF show_nat_plain show_nat_plain] show_nat_plain ports
    by (simp add: client_main_def)
  obtain h r p sp hp b where o2: "o2 = \<lparr>host = h, record_path = r, replay_path = p, stream_port = sp, http_port = hp, once = b\<rparr>"
    by (cases o2)
  show "client_main (spell_options o2) = Inr (Run_client o2)"
    unfolding spell_options_def pos using o
    by (cases b; cases "r = []"; cases "p = []") (simp_all add: o2 default_options_def options_ok_def)
qed

theorem client_options_exact_witness:
  "client_main [''box'', show_nat 9999, show_nat 8080, ''--once''] = Inr (Run_client (default_options\<lparr>host := ''box'', once := True\<rparr>))"
proof -
  let ?o = "default_options\<lparr>host := ''box'', once := True\<rparr>"
  have "spell_options ?o = [''box'', show_nat 9999, show_nat 8080, ''--once'']" by (simp add: spell_options_def default_options_def)
  moreover have "options_ok ?o" by (simp add: options_ok_def default_options_def)
  ultimately show ?thesis using client_options_exact [of "[]" ?o ?o] by simp
qed

end
