(* ===== verification/Client_App.thy ===== *)
theory Client_App
  imports Render Stream_Connection Http_Probe Client_Options
begin

text \<open>
  The client's main loop, \<^verbatim>\<open>client/app/client_app.cpp\<close>: it drives the two connections or a replay, keeps the current
  and the visible snapshot, records, prints, reacts to keys and draws. The state of the lambda
  \<^verbatim>\<open>receive\<close> and of the key handler is \<open>Client\<close>; the loop's own variables are \<open>ClientApp\<close>. \<open>cl_recording\<close> holds the
  lines written to the recording, when there is one, and \<open>cl_disk_ok\<close> tells which writes succeed.
\<close>

record Client =
  cl_options :: ClientOptions
  cl_interactive :: bool
  cl_view :: ViewState
  cl_current :: "SystemSnapshot option"
  cl_visible :: "SystemSnapshot option"
  cl_last :: int
  cl_previous_filter :: string
  cl_quit :: bool
  cl_recording :: "string list option"
  cl_disk_ok :: "nat \<Rightarrow> bool"
  cl_stdout :: "string list"
  cl_clock :: "nat \<Rightarrow> int"
  cl_reads :: nat

definition new_client :: "ClientOptions \<Rightarrow> bool \<Rightarrow> (nat \<Rightarrow> bool) \<Rightarrow> (nat \<Rightarrow> int) \<Rightarrow> Client" where
  "new_client o1 interactive writes clk =
     \<lparr>cl_options = o1, cl_interactive = interactive, cl_view = default_view\<lparr>recording := record_path o1 \<noteq> []\<rparr>, cl_current = None,
      cl_visible = None, cl_last = 0, cl_previous_filter = [], cl_quit = False,
      cl_recording = (if record_path o1 \<noteq> [] then Some [] else None), cl_disk_ok = writes, cl_stdout = [],
      cl_clock = clk, cl_reads = 0\<rparr>"

section \<open>Receiving a snapshot\<close>

text \<open>A snapshot that is not newer than the current one of the same server is ignored; gaps are counted.\<close>

definition track :: "SystemSnapshot \<Rightarrow> Client \<Rightarrow> Client option" where
  "track s c =
     (case cl_current c of
        Some cur \<Rightarrow>
          if instance_id (telemetry cur) = instance_id (telemetry s) then
            (if sequence (telemetry s) \<le> sequence (telemetry cur) then None
             else Some (c\<lparr>cl_view := (cl_view c)\<lparr>sequence_gaps :=
                    sequence_gaps (cl_view c) + (sequence (telemetry s) - sequence (telemetry cur) - 1)\<rparr>\<rparr>))
          else Some (c\<lparr>cl_view := (cl_view c)\<lparr>cpu_history := [], memory_history := [], rx_history := []\<rparr>\<rparr>)
      | None \<Rightarrow> Some (c\<lparr>cl_view := (cl_view c)\<lparr>cpu_history := [], memory_history := [], rx_history := []\<rparr>\<rparr>))"

definition record_snapshot :: "SystemSnapshot \<Rightarrow> Client \<Rightarrow> exn option \<times> Client" where
  "record_snapshot s c =
     (case cl_recording c of
        None \<Rightarrow> (None, c)
      | Some ls \<Rightarrow>
          (case Encode s of
             Inl e \<Rightarrow> (Some e, c)
           | Inr out \<Rightarrow>
               if cl_disk_ok c (length ls) then (None, c\<lparr>cl_recording := Some (ls @ [out])\<rparr>)
               else (Some (Runtime_error ''recording write failed''), c)))"

definition print_snapshot :: "SystemSnapshot \<Rightarrow> Client \<Rightarrow> exn option \<times> Client" where
  "print_snapshot s c =
     (if once (cl_options c) \<or> \<not> cl_interactive c then
        (case Encode s of Inl e \<Rightarrow> (Some e, c) | Inr out \<Rightarrow> (None, c\<lparr>cl_stdout := cl_stdout c @ [out]\<rparr>))
      else (None, c))"

definition push_history :: "double \<Rightarrow> double list \<Rightarrow> double list" where
  "push_history d h = (let h1 = h @ [d] in if length h1 > 120 then tl h1 else h1)"

definition show_snapshot :: "int \<Rightarrow> SystemSnapshot \<Rightarrow> Client \<Rightarrow> Client" where
  "show_snapshot t s c =
     (let c1 = c\<lparr>cl_current := Some s, cl_last := t\<rparr>; v = cl_view c1;
          c2 = (if paused v then c1
                else c1\<lparr>cl_visible := Some s,
                       cl_view := v\<lparr>cpu_history := push_history (total_usage_percent (cpu s)) (cpu_history v),
                                   memory_history := push_history (mem_used_percent (memory s)) (memory_history v),
                                   rx_history := push_history (dmul (rx_kbps (network s)) (Finite False 1024)) (rx_history v)\<rparr>\<rparr>)
      in if once (cl_options c2) then c2\<lparr>cl_quit := True\<rparr> else c2)"

definition receive :: "Client Receiver" where
  "receive s c =
     (if once (cl_options c) \<and> cl_quit c then (None, c)
      else
        let t = cl_clock c (cl_reads c); c0 = c\<lparr>cl_reads := cl_reads c + 1\<rparr>
        in case track s c0 of
             None \<Rightarrow> (None, c0)
           | Some c1 \<Rightarrow>
               (case record_snapshot s c1 of
                  (Some e, c2) \<Rightarrow> (Some e, c2)
                | (None, c2) \<Rightarrow>
                    (case print_snapshot s c2 of
                       (Some e, c3) \<Rightarrow> (Some e, c3)
                     | (None, c3) \<Rightarrow> (None, show_snapshot t s c3))))"

section \<open>Keys\<close>

definition filter_key :: "char \<Rightarrow> Client \<Rightarrow> Client" where
  "filter_key key c =
     (let v = cl_view c;
          v1 = (if key = CHR 0x0D \<or> key = CHR 0x0A then v\<lparr>editing_filter := False\<rparr>
                else if key = CHR 0x1B then v\<lparr>vs_filter := cl_previous_filter c, editing_filter := False\<rparr>
                else if key = CHR 0x7F \<or> key = CHR 0x08 then
                  (if vs_filter v \<noteq> [] then v\<lparr>vs_filter := butlast (vs_filter v)\<rparr> else v)
                else if byte key \<ge> 32 \<and> byte key < 127 \<and> length (vs_filter v) < 64 then v\<lparr>vs_filter := vs_filter v @ [key]\<rparr>
                else v)
      in c\<lparr>cl_view := v1\<lparr>scroll := 0\<rparr>\<rparr>)"

definition command_key :: "char \<Rightarrow> Client \<Rightarrow> Client" where
  "command_key key c =
     (let v = cl_view c; set = (\<lambda>v1. c\<lparr>cl_view := v1\<rparr>)
      in if key = CHR ''q'' then c\<lparr>cl_quit := True\<rparr>
         else if byte key \<ge> 49 \<and> byte key \<le> 54 then set (v\<lparr>page := byte key - 48, scroll := 0\<rparr>)
         else if key = CHR ''h'' then set (v\<lparr>show_help := \<not> show_help v\<rparr>)
         else if key = CHR '' '' then
           (let c1 = set (v\<lparr>paused := \<not> paused v\<rparr>)
            in if \<not> paused (cl_view c1) \<and> cl_current c1 \<noteq> None then c1\<lparr>cl_visible := cl_current c1\<rparr> else c1)
         else if key = CHR ''/'' then (set (v\<lparr>editing_filter := True\<rparr>))\<lparr>cl_previous_filter := vs_filter v\<rparr>
         else if key = CHR ''c'' then set (v\<lparr>vs_sort := ''cpu''\<rparr>)
         else if key = CHR ''m'' then set (v\<lparr>vs_sort := ''memory''\<rparr>)
         else if key = CHR ''p'' then set (v\<lparr>vs_sort := ''pid''\<rparr>)
         else if key = CHR ''t'' then set (v\<lparr>vs_sort := ''threads''\<rparr>)
         else if key = CHR ''j'' then set (v\<lparr>scroll := scroll v + 1\<rparr>)
         else if key = CHR ''k'' \<and> scroll v \<noteq> 0 then set (v\<lparr>scroll := scroll v - 1\<rparr>)
         else if key = CHR ''g'' then set (v\<lparr>scroll := 0\<rparr>)
         else c)"

definition handle_key :: "char \<Rightarrow> Client \<Rightarrow> Client" where
  "handle_key key c = (if editing_filter (cl_view c) then filter_key key c else command_key key c)"

section \<open>The loop\<close>

record ClientApp =
  app_client :: Client
  app_stream :: "StreamConnection option"
  app_probe :: "HttpProbe option"
  app_replay :: "string list option"
  app_next_render :: int
  app_next_replay :: int
  app_screen :: string

text \<open>What happens during one round of the loop.\<close>

record poll_round =
  pr_stopped :: bool
  pr_now :: int
  pr_net :: "Address \<Rightarrow> connect_answer"
  pr_probe_net :: "Address \<Rightarrow> connect_answer"
  pr_poll_ok :: bool
  pr_events :: "poll_events option"
  pr_check :: bool
  pr_recvs :: "recv_answer list"
  pr_probe_events :: "poll_events option"
  pr_probe_check :: bool
  pr_probe_send :: send_answer
  pr_probe_recvs :: "recv_answer list"
  pr_keys :: string
  pr_then :: int
  pr_cols :: nat
  pr_rows :: nat

definition tick_step :: "poll_round \<Rightarrow> ClientApp \<Rightarrow> ClientApp" where
  "tick_step p a =
     (case app_stream a of
        None \<Rightarrow> a
      | Some sc \<Rightarrow> a\<lparr>app_stream := Some (Tick (pr_now p) (pr_net p) sc), app_probe := map_option (probe_Tick (pr_probe_net p)) (app_probe a)\<rparr>)"

definition replay_step :: "poll_round \<Rightarrow> ClientApp \<Rightarrow> exn option \<times> ClientApp" where
  "replay_step p a =
     (case app_replay a of
        None \<Rightarrow> (None, a)
      | Some ls \<Rightarrow>
          if pr_now p < app_next_replay a then (None, a)
          else
            (case ls of
               [] \<Rightarrow>
                 let c = app_client a; c1 = c\<lparr>cl_view := (cl_view c)\<lparr>vs_connection := ''replay finished''\<rparr>\<rparr>
                 in (None, a\<lparr>app_client := (if \<not> cl_interactive c1 then c1\<lparr>cl_quit := True\<rparr> else c1), app_replay := None\<rparr>)
             | line # rest_lines \<Rightarrow>
                 let a1 = a\<lparr>app_replay := Some rest_lines\<rparr>
                 in if length line > kMaxPayload then (Some (Runtime_error ''replay frame too large''), a1)
                    else
                      (case Decode line of
                         Inl err \<Rightarrow> (Some (Runtime_error (''replay: '' @ err)), a1)
                       | Inr s \<Rightarrow>
                           (case receive s (app_client a1) of
                              (Some e, c1) \<Rightarrow> (Some e, a1\<lparr>app_client := c1\<rparr>)
                            | (None, c1) \<Rightarrow>
                                (None, a1\<lparr>app_client := c1, app_next_replay := pr_now p + milliseconds 250\<rparr>)))))"

definition stream_step :: "poll_round \<Rightarrow> ClientApp \<Rightarrow> (exn option \<times> ClientApp) option" where
  "stream_step p a =
     (case (app_stream a, pr_events p) of
        (Some sc, Some ev) \<Rightarrow>
          (case Handle ev (pr_check p) receive (pr_recvs p) sc (app_client a) of
             None \<Rightarrow> None
           | Some (fl, sc1, c1) \<Rightarrow>
               Some (case fl of Throw e \<Rightarrow> Some e | _ \<Rightarrow> None, a\<lparr>app_stream := Some sc1, app_client := c1\<rparr>))
      | _ \<Rightarrow> Some (None, a))"

definition probe_step :: "poll_round \<Rightarrow> ClientApp \<Rightarrow> ClientApp" where
  "probe_step p a =
     (case (app_probe a, pr_probe_events p) of
        (Some hp, Some ev) \<Rightarrow>
          a\<lparr>app_probe := Some (probe_Handle ev (pr_probe_check p) (pr_probe_send p) (pr_probe_recvs p) hp)\<rparr>
      | _ \<Rightarrow> a)"

definition duration_seconds :: "int \<Rightarrow> double" where
  "duration_seconds ns = ddiv (of_int_double ns) (Finite False 1000000000)"

definition AgeSeconds :: "HttpProbe \<Rightarrow> double" where
  "AgeSeconds hp =
     (case hp_value hp of Some _ \<Rightarrow> duration_seconds (hp_clock hp (hp_reads hp) - hp_updated hp) | None \<Rightarrow> minus_one)"

definition draw_step :: "poll_round \<Rightarrow> ClientApp \<Rightarrow> ClientApp" where
  "draw_step p a =
     (if pr_then p < app_next_render a then a
      else
        let c = app_client a;
            v1 = (cl_view c)\<lparr>vs_snapshot := cl_visible c\<rparr>;
            v2 = (case app_stream a of
                    Some sc \<Rightarrow> v1\<lparr>vs_connection := sc_status sc, bytes_received := sc_bytes sc, vs_reconnects := sc_reconnects sc\<rparr>
                  | None \<Rightarrow> if app_replay a \<noteq> None then v1\<lparr>vs_connection := ''replaying recorded telemetry''\<rparr> else v1);
            v3 = v2\<lparr>age_seconds := (if cl_current c \<noteq> None then duration_seconds (pr_then p - cl_last c) else minus_one),
                    vs_diagnostics := (case app_probe a of Some hp \<Rightarrow> hp_value hp | None \<Rightarrow> None),
                    diagnostics_age := (case app_probe a of Some hp \<Rightarrow> AgeSeconds hp | None \<Rightarrow> minus_one)\<rparr>
        in a\<lparr>app_client := c\<lparr>cl_view := v3\<rparr>, app_next_render := pr_then p + milliseconds 100,
             app_screen := Draw (cl_interactive c) (pr_cols p) (pr_rows p) v3\<rparr>)"

definition keys_step :: "poll_round \<Rightarrow> ClientApp \<Rightarrow> ClientApp" where
  "keys_step p a = (if cl_interactive (app_client a) then a\<lparr>app_client := fold handle_key (take 64 (pr_keys p)) (app_client a)\<rparr> else a)"

text \<open>One round: the exception that ends the program, if any. \<open>None\<close> would be a loop that does not end.\<close>

definition client_round :: "poll_round \<Rightarrow> ClientApp \<Rightarrow> (exn option \<times> ClientApp) option" where
  "client_round p a =
     (case replay_step p (tick_step p a) of
        (Some e, a1) \<Rightarrow> Some (Some e, a1)
      | (None, a1) \<Rightarrow>
          if \<not> pr_poll_ok p then Some (Some (Runtime_error ''poll failed''), a1)
          else
            (case stream_step p a1 of
               Some (None, a2) \<Rightarrow> Some (None, draw_step p (keys_step p (probe_step p a2)))
             | stopped \<Rightarrow> stopped))"

fun client_loop :: "poll_round list \<Rightarrow> ClientApp \<Rightarrow> (exn option \<times> ClientApp) option" where
  "client_loop [] a = Some (None, a)"
| "client_loop (p # ps) a =
     (if pr_stopped p \<or> cl_quit (app_client a) then Some (None, a)
      else case client_round p a of
             Some (None, a1) \<Rightarrow> client_loop ps a1
           | stopped \<Rightarrow> stopped)"

text \<open>The set-up before the loop: either a connection and a probe, or a replay.\<close>

definition new_app :: "ClientOptions \<Rightarrow> bool \<Rightarrow> (nat \<Rightarrow> bool) \<Rightarrow> (nat \<Rightarrow> int) \<Rightarrow> (nat \<Rightarrow> nat) \<Rightarrow>
    (string + Address list) \<Rightarrow> (string + Address list) \<Rightarrow> bool \<Rightarrow> string option \<Rightarrow> int \<Rightarrow> ClientApp result" where
  "new_app o1 interactive writes clk rnd stream_addrs http_addrs record_opens replay_file t =
     (let c = new_client o1 interactive writes clk
      in rbind (if replay_path o1 = [] then
                  rbind (Resolve stream_addrs) (\<lambda>sa. rbind (new_connection sa clk rnd) (\<lambda>sc. rbind (Resolve http_addrs) (\<lambda>ha.
                    Inr (Some sc, Some (new_probe ha clk)))))
                else Inr (None, None)) (\<lambda>(sc, hp).
         if record_path o1 \<noteq> [] \<and> \<not> record_opens then Inl (Runtime_error ''cannot open recording'')
         else if replay_path o1 \<noteq> [] \<and> replay_file = None then Inl (Runtime_error ''cannot open replay'')
         else Inr \<lparr>app_client = c, app_stream = sc, app_probe = hp,
                   app_replay = (if replay_path o1 \<noteq> [] then map_option getlines replay_file else None), app_next_render = t, app_next_replay = t,
                   app_screen = []\<rparr>))"

end
