(* ===== verification/Json_Text.thy ===== *)
theory Json_Text
  imports Json_Roundtrip
begin

text \<open>
  What compact JSON text looks like: no byte below 32 occurs in it, so that a document fits on one line of a
  recording, and its length is bounded by the texts and numbers it holds.
\<close>

section \<open>One line\<close>

abbreviation one_line :: "string \<Rightarrow> bool" where
  "one_line s \<equiv> list_all (\<lambda>c. 32 \<le> byte c) s"

lemma digits_one_line: "list_all is_digit ds \<Longrightarrow> one_line ds"
  by (auto simp: list_all_iff is_digit_def)

lemma one_line_show_nat [simp]: "one_line (show_nat n)"
  by (rule digits_one_line) (rule show_nat_digits)

lemma one_line_show_int [simp]: "one_line (show_int i)"
  by (simp add: show_int_def)

lemma one_line_mag: "representable a \<Longrightarrow> one_line (to_chars_mag a)"
proof -
  assume a: "representable a"
  show ?thesis
    using a representable_nonneg [OF a]
    by (cases rule: to_chars_mag_parts) (auto simp: int_part_def frac_part_def exp_part_def intro: digits_one_line)
qed

lemma one_line_escape_ascii: "one_line (escape_ascii c)"
  by (auto simp: escape_ascii_def u_escape_def hex_char_def)

lemma one_line_escape_body: "one_line (escape_body s)"
proof (induction s rule: escape_body.induct)
  case (2 c cs)
  have u: "one_line (u_escape n)" for n by (auto simp: u_escape_def hex_char_def)
  show ?case
  proof (cases "128 \<le> byte c \<and> Utf8Length (c # cs) \<noteq> 0")
    case True
    then obtain n where "take (Utf8Length (c # cs)) (c # cs) = utf8 n" "list_all (\<lambda>b. 128 \<le> byte b) (utf8 n)"
      using Utf8Length_high [of c cs] by blast
    then have "one_line (take (Utf8Length (c # cs)) (c # cs))" by (auto simp: list_all_iff)
    with 2 True show ?thesis by (simp add: Let_def)
  qed (use 2 u one_line_escape_ascii in \<open>auto simp: Let_def\<close>)
qed simp

lemma one_line_AppendEscapedString [simp]: "one_line (AppendEscapedString s)"
  using one_line_escape_body by (simp add: AppendEscapedString_def)

lemma compact_lines:
  "wf_doubles v \<Longrightarrow> SerializeTo (- 1) l v = Inr out \<Longrightarrow> one_line out"
  "list_all wf_doubles vs \<Longrightarrow> serialize_items (- 1) l vs = Inr out \<Longrightarrow> one_line out"
  "list_all (\<lambda>(k, v). wf_doubles v) ms \<Longrightarrow> serialize_members (- 1) l ms = Inr out \<Longrightarrow> one_line out"
proof (induction "- 1 :: int" l v and "- 1 :: int" l vs and "- 1 :: int" l ms arbitrary: out and out and out
    rule: SerializeTo_serialize_items_serialize_members.induct)
  case (5 l d)
  then show ?case using one_line_mag by (cases d) auto
qed (auto simp: rbind_Inr AppendIndent_def split: if_splits)

lemma compact_one_line: "wf_doubles v \<Longrightarrow> ToString v (- 1) = Inr out \<Longrightarrow> CHR 0x0A \<notin> set out"
  using compact_lines(1) [of v 0 out] by (auto simp: ToString_def list_all_iff)

section \<open>Length\<close>

lemma length_show_nat_u64: "n < 2 ^ 64 \<Longrightarrow> length (show_nat n) \<le> 20"
proof (rule ccontr)
  assume n: "n < 2 ^ 64" "\<not> length (show_nat n) \<le> 20"
  then have "0 < n" by (cases n) simp_all
  then have "(10 :: nat) ^ (length (show_nat n) - 1) \<le> n" using length_show_nat by blast
  moreover have "(10 :: nat) ^ 20 \<le> 10 ^ (length (show_nat n) - 1)" using n(2) by (intro power_increasing) simp_all
  ultimately show False using n(1) by simp
qed

lemma length_escape_body: "length (escape_body s) \<le> 6 * length s"
proof (induction s rule: escape_body.induct)
  case (2 c cs)
  have "length (escape_ascii c) \<le> 6" by (simp add: escape_ascii_def u_escape_def)
  then show ?case using 2 by (auto simp: Let_def u_escape_def)
qed simp

text \<open>A bound on the printed length of flat objects.\<close>

fun leaf_bound :: "JSONValue \<Rightarrow> nat" where
  "leaf_bound (JString s) = 2 + 6 * length s"
| "leaf_bound _ = 21"

fun is_leaf :: "JSONValue \<Rightarrow> bool" where
  "is_leaf (JDouble _) = False" | "is_leaf (JArray _) = False" | "is_leaf (JObject _) = False" | "is_leaf _ = True"

lemma length_leaf: "is_leaf v \<Longrightarrow> SerializeTo (- 1) l v = Inr out \<Longrightarrow> length out \<le> leaf_bound v"
proof (cases v)
  case (JInt64 x)
  assume "SerializeTo (- 1) l v = Inr out"
  moreover have "- (2 ^ 63) \<le> sint x" "sint x < 2 ^ 63" using sint_ge [of x] sint_lt [of x] by simp_all
  then have "nat \<bar>sint x\<bar> < 2 ^ 64" by simp
  ultimately show ?thesis using JInt64 length_show_nat_u64 [of "nat \<bar>sint x\<bar>"] by (auto simp: show_int_def split: if_splits)
next
  case (JUInt64 x)
  assume "SerializeTo (- 1) l v = Inr out"
  then show ?thesis using JUInt64 length_show_nat_u64 [of "unat x"] unsigned_less [of x, where ?'a = nat] by auto
qed (auto simp: AppendEscapedString_def length_escape_body split: if_splits)

lemma length_flat_members:
  assumes "list_all (\<lambda>(k, v). is_leaf v) ms" "serialize_members (- 1) l ms = Inr out"
  shows "length out \<le> (\<Sum>(k, v) \<leftarrow> ms. 4 + 6 * length k + leaf_bound v)"
  using assms
proof (induction ms arbitrary: out)
  case (Cons m ms)
  obtain k v where m: "m = (k, v)" by fastforce
  obtain x r where x: "SerializeTo (- 1) (l + 1) v = Inr x" "serialize_members (- 1) l ms = Inr r"
    and out: "out = AppendEscapedString k @ '':'' @ x @ (if ms = [] then [] else '','') @ r"
    using Cons.prems m by (auto simp: rbind_Inr AppendIndent_def)
  have "length x \<le> leaf_bound v" "length r \<le> (\<Sum>(k, v) \<leftarrow> ms. 4 + 6 * length k + leaf_bound v)"
    using Cons m x length_leaf by auto
  then show ?case using length_escape_body [of k] m by (auto simp: out AppendEscapedString_def)
qed simp

end
