(* ===== verification/Probe_Server.thy ===== *)
theory Probe_Server
  imports Json_Text Http_Probe Reactor_Run Render Stream_Client
begin

text \<open>
  The probe of the client against the HTTP side of the server: what the probe has sent is the request, the
  reactor answers it with the diagnostics document, and whatever pieces the answer arrives in, the
  probe ends with that document and the transport page shows the server's own counters.
\<close>

section \<open>The request and the answer\<close>

lemma request_parsed: "status (ParseHttpRequest kProbeRequest) = 200" "target (ParseHttpRequest kProbeRequest) = ''/diagnostics''"
proof -
  have "status (ParseHttpRequest kProbeRequest) = 200 \<and> target (ParseHttpRequest kProbeRequest) = ''/diagnostics''" by code_simp
  then show "status (ParseHttpRequest kProbeRequest) = 200" "target (ParseHttpRequest kProbeRequest) = ''/diagnostics''" by simp_all
qed

lemma request_respond: "respond e r kProbeRequest = Route e r kProbeRequest"
proof -
  have "length kProbeRequest \<le> 8192 \<and> find_sub (CRLF @ CRLF) kProbeRequest \<noteq> None" by code_simp
  then show ?thesis by (simp add: respond_def)
qed

lemma diagnostics_facts:
  "wf_doubles (diagnostics_json e r)" "printable (diagnostics_json e r)" "json_depth (diagnostics_json e r) \<le> 64"
  "json_nodes (diagnostics_json e r) \<le> 1000000"
  by (auto simp: diagnostics_json_def repair_ascii split: option.splits)

lemma length_diagnostics: "ToString (diagnostics_json e r) (- 1) = Inr out \<Longrightarrow> length out \<le> 4000 + 6 * length (bind_address (config r))"
proof -
  assume "ToString (diagnostics_json e r) (- 1) = Inr out"
  moreover obtain ms where ms: "diagnostics_json e r = JObject ms" "ms \<noteq> []" "list_all (\<lambda>(k, v). is_leaf v) ms"
    "(\<Sum>(k, v) \<leftarrow> ms. 4 + 6 * length k + leaf_bound v) \<le> 3990 + 6 * length (bind_address (config r))"
    by (auto simp: diagnostics_json_def split: option.splits)
  ultimately obtain body where "serialize_members (- 1) 0 ms = Inr body" "out = ''{'' @ body @ ''}''"
    by (auto simp: ToString_def rbind_Inr AppendIndent_def)
  with length_flat_members [OF ms(3)] ms(4) show ?thesis by fastforce
qed

lemma length_answer:
  assumes "respond e r kProbeRequest = Inr resp" "length (bind_address (config r)) \<le> 8192"
  shows "length resp \<le> 65536"
proof -
  obtain body where body: "ToString (diagnostics_json e r) (- 1) = Inr body" "resp = HttpResponse 200 body json_type"
    using assms(1) by (auto simp: request_respond Route_def request_parsed Diagnostics_def rbind_Inr Let_def)
  have b: "length body \<le> 60000" using length_diagnostics [OF body(1)] assms(2) by simp
  then have "length (show_nat (length body)) \<le> 20" by (intro length_show_nat_u64) simp
  moreover have "show_nat 200 = ''200''" by code_simp
  ultimately show ?thesis using b by (simp add: body(2) HttpResponse_def json_type_def reason_def)
qed

lemma answer_body:
  assumes "respond e r kProbeRequest = Inr resp" "length resp \<le> 65536"
  shows "probe_body resp = Some (norm (diagnostics_json e r))"
proof -
  obtain body where body: "ToString (diagnostics_json e r) (- 1) = Inr body" "resp = HttpResponse 200 body json_type"
    using assms(1) by (auto simp: request_respond Route_def request_parsed Diagnostics_def rbind_Inr Let_def)
  have "length body \<le> length resp" by (simp add: body(2) HttpResponse_def)
  then have "Parse body = Some (norm (diagnostics_json e r))"
    using assms(2) diagnostics_facts by (intro Parse_printed [OF body(1)]) simp_all
  moreover have "IsObject (norm (diagnostics_json e r))" by (simp add: diagnostics_json_def)
  ultimately show ?thesis by (simp add: body(2) probe_body_response json_type_def)
qed

section \<open>Receiving in pieces\<close>

definition probe_pieces :: "string list list \<Rightarrow> HttpProbe \<Rightarrow> HttpProbe" where
  "probe_pieces = fold (\<lambda>chunks. probe_Handle readable True (Room 0) (map Recv chunks))"

lemma probe_recv_pieces:
  assumes "length chunks \<le> n" "[] \<notin> set chunks" "length (hp_input p @ concat chunks) \<le> 65536"
  shows "probe_recv n (map Recv chunks) p = p\<lparr>hp_input := hp_input p @ concat chunks\<rparr>"
  using assms
proof (induction chunks arbitrary: n p)
  case Nil
  then show ?case by (cases n) simp_all
next
  case (Cons c cs)
  then obtain m where "n = Suc m" "c \<noteq> []" by (cases n) auto
  with Cons show ?case by simp
qed

lemma probe_Handle_reading:
  assumes "hp_socket p \<noteq> None" "\<not> hp_writing p" "\<not> hp_connecting p"
  shows "probe_Handle readable True sa answers p = probe_recv 16 answers p"
proof -
  have "p\<lparr>hp_connecting := False\<rparr> = p" using assms(3) by (cases p) simp
  with assms show ?thesis by (simp only: probe_Handle_def) (simp add: readable_def del: probe_recv.simps)
qed

lemma probe_pieces_input:
  assumes "hp_socket p \<noteq> None" "\<not> hp_writing p" "\<not> hp_connecting p"
    and "list_all (\<lambda>chunks. length chunks \<le> 16 \<and> [] \<notin> set chunks) events" "length (hp_input p @ concat (concat events)) \<le> 65536"
  shows "probe_pieces events p = p\<lparr>hp_input := hp_input p @ concat (concat events)\<rparr>"
  using assms
proof (induction events arbitrary: p)
  case (Cons chunks events)
  let ?p = "p\<lparr>hp_input := hp_input p @ concat chunks\<rparr>"
  have "probe_Handle readable True (Room 0) (map Recv chunks) p = ?p"
    using Cons.prems by (simp add: probe_Handle_reading probe_recv_pieces del: probe_recv.simps)
  moreover have "probe_pieces events ?p = ?p\<lparr>hp_input := hp_input ?p @ concat (concat events)\<rparr>"
    using Cons.prems by (intro Cons.IH) simp_all
  ultimately show ?case by (simp add: probe_pieces_def)
qed (simp add: probe_pieces_def)

lemma field_skip: "key \<notin> (repair \<circ> fst) ` set xs \<Longrightarrow> Field (norm (JObject (xs @ ys))) key = Field (norm (JObject ys)) key"
  by (induction xs) (auto simp: Field_def at_key_def)

lemma field_counter:
  "Field (norm (JObject ((k, JUInt64 n) # ms))) key = (if repair k = key then Some (JUInt64 n) else Field (norm (JObject ms)) key)"
  by (simp add: Field_def at_key_def)

text \<open>The members that are not always there have other names than the counters.\<close>

lemma diagnostics_members:
  obtains xs ys where "diagnostics_json e r = JObject (xs @
     [(''active_sessions'', JUInt64 (of_nat (length (sessions r)))), (''accepted_total'', JUInt64 (accepted r)),
      (''rejected_total'', JUInt64 (rejected r)), (''dropped_snapshots_total'', JUInt64 (dropped r)),
      (''timeouts_total'', JUInt64 (timeouts r)), (''bytes_sent_total'', JUInt64 (bytes_sent r)),
      (''queued_bytes'', JUInt64 (of_nat (queued_bytes r)))] @ ys)"
    "(repair \<circ> fst) ` set xs \<subseteq> {''process_cpu_us'', ''rss_peak_bytes'', ''open_fds''}"
proof (rule that)
  let ?x = "case rusage e of Some (cpu_us, maxrss) \<Rightarrow> [(''process_cpu_us'', JUInt64 cpu_us), (''rss_peak_bytes'', JUInt64 (maxrss * 1024))] | None \<Rightarrow> []"
  let ?y = "case open_fds e of Some d \<Rightarrow> if d \<noteq> 0 then [(''open_fds'', JUInt64 (of_nat (d - 1)))] else [] | None \<Rightarrow> []"
  show "(repair \<circ> fst) ` set (?x @ ?y) \<subseteq> {''process_cpu_us'', ''rss_peak_bytes'', ''open_fds''}"
    by (auto simp: repair_ascii split: option.splits)
qed (simp only: diagnostics_json_def append_assoc append_Cons append_Nil)

lemma counter_text:
  "Field_text (Some (norm (diagnostics_json e r))) ''active_sessions'' = show_nat (unat (of_nat (length (sessions r)) :: u64))"
  "Field_text (Some (norm (diagnostics_json e r))) ''queued_bytes'' = show_nat (unat (of_nat (queued_bytes r) :: u64))"
  "Field_text (Some (norm (diagnostics_json e r))) ''dropped_snapshots_total'' = u64_text (dropped r)"
  "Field_text (Some (norm (diagnostics_json e r))) ''timeouts_total'' = u64_text (timeouts r)"
  "Field_text (Some (norm (diagnostics_json e r))) ''rejected_total'' = u64_text (rejected r)"
proof -
  obtain xs ys where d: "diagnostics_json e r = JObject (xs @
     [(''active_sessions'', JUInt64 (of_nat (length (sessions r)))), (''accepted_total'', JUInt64 (accepted r)),
      (''rejected_total'', JUInt64 (rejected r)), (''dropped_snapshots_total'', JUInt64 (dropped r)),
      (''timeouts_total'', JUInt64 (timeouts r)), (''bytes_sent_total'', JUInt64 (bytes_sent r)),
      (''queued_bytes'', JUInt64 (of_nat (queued_bytes r)))] @ ys)"
    and xs: "(repair \<circ> fst) ` set xs \<subseteq> {''process_cpu_us'', ''rss_peak_bytes'', ''open_fds''}" by (rule diagnostics_members)
  have skip: "Field (norm (JObject (xs @ ms))) key = Field (norm (JObject ms)) key"
    if "key \<notin> {''process_cpu_us'', ''rss_peak_bytes'', ''open_fds''}" for key ms
    by (rule field_skip) (use xs that in blast)
  have shown: "Field (norm j) key = Some (JUInt64 n) \<Longrightarrow> Field_text (Some (norm j)) key = show_nat (unat n)" for j key n
    by (simp add: Field_text_def)
  show "Field_text (Some (norm (diagnostics_json e r))) ''active_sessions'' = show_nat (unat (of_nat (length (sessions r)) :: u64))"
    "Field_text (Some (norm (diagnostics_json e r))) ''queued_bytes'' = show_nat (unat (of_nat (queued_bytes r) :: u64))"
    "Field_text (Some (norm (diagnostics_json e r))) ''dropped_snapshots_total'' = u64_text (dropped r)"
    "Field_text (Some (norm (diagnostics_json e r))) ''timeouts_total'' = u64_text (timeouts r)"
    "Field_text (Some (norm (diagnostics_json e r))) ''rejected_total'' = u64_text (rejected r)"
    unfolding d u64_text_def by (rule shown, subst skip, simp, simp add: field_counter repair_ascii del: norm.simps)+
qed

lemma serves_counts:
  assumes "serves c t seen r" "valid_config c"
  shows "unat (of_nat (length (sessions r)) :: u64) = length (sessions r)" "unat (of_nat (queued_bytes r) :: u64) = queued_bytes r"
proof -
  have "inv_with (\<lambda>_. session_inv seen) r" using serves_inv [OF assms(1)] by (simp add: reactor_inv_def)
  then have "queued_bytes r \<le> 67108864" "length (sessions r) \<le> 4096"
    using serves_config [OF assms(1)] assms(2) by (auto simp: inv_with_def kQueueBudget_def valid_config_def)
  then show "unat (of_nat (length (sessions r)) :: u64) = length (sessions r)" "unat (of_nat (queued_bytes r) :: u64) = queued_bytes r"
    by (simp_all add: unat_of_nat)
qed

text \<open>
  C36: the probe and the server understand each other. When a probe has sent all it sends and the server,
  in any state it can reach, answers, then however the answer is cut into events and reads, the probe ends with exactly the
  diagnostics document of that state, closes its socket, and the transport page shows the
  server's counters as the server counts them.
\<close>

theorem probe_reads_diagnostics:
  assumes "probe_run p" "hp_socket p \<noteq> None" "\<not> hp_writing p" "\<not> hp_connecting p" "hp_input p = []"
    and "serves c t seen r" "valid_config c" "length (bind_address c) \<le> 8192" "respond e r (hp_sent_bytes p) = Inr resp"
    and "concat (concat events) = resp" "list_all (\<lambda>chunks. length chunks \<le> 16 \<and> [] \<notin> set chunks) events"
    and "q = probe_Handle readable True (Room 0) [Recv []] (probe_pieces events p)"
  shows "hp_socket q = None \<and> hp_value q = Some (norm (diagnostics_json e r)) \<and>
    Field_text (hp_value q) ''queued_bytes'' = show_nat (queued_bytes r) \<and>
    Field_text (hp_value q) ''active_sessions'' = show_nat (length (sessions r)) \<and>
    Field_text (hp_value q) ''dropped_snapshots_total'' = u64_text (dropped r) \<and>
    Field_text (hp_value q) ''rejected_total'' = u64_text (rejected r) \<and>
    Field_text (hp_value q) ''timeouts_total'' = u64_text (timeouts r)"
proof -
  have "hp_sent_bytes p = kProbeRequest" using probe_run_inv [OF assms(1)] assms(2,3) by (auto simp: probe_inv_def)
  with assms(9) have resp: "respond e r kProbeRequest = Inr resp" by simp
  have len: "length resp \<le> 65536" using length_answer [OF resp] serves_config [OF assms(6)] assms(8) by simp
  note body = answer_body [OF resp len]
  have "probe_pieces events p = p\<lparr>hp_input := resp\<rparr>"
    using assms(2-5,10,11) len by (simp add: probe_pieces_input)
  moreover have "probe_Handle readable True (Room 0) [Recv []] (p\<lparr>hp_input := resp\<rparr>) = Finish True (p\<lparr>hp_input := resp\<rparr>)"
    using assms(2-4) by (simp add: probe_Handle_reading eval_nat_numeral)
  ultimately have q: "hp_socket q = None" "hp_value q = Some (norm (diagnostics_json e r))" using assms(12) body by simp_all
  show ?thesis unfolding q(2) counter_text serves_counts [OF assms(6,7)] using q(1) by simp
qed

text \<open>A probe that has connected and sent its request.\<close>

definition sample_probe :: HttpProbe where
  "sample_probe = probe_Handle \<lparr>p_in = False, p_out = True, p_err = False, p_hup = False, p_nval = False\<rparr> True (Room 100) []
     (probe_Tick (\<lambda>_. Connect_done 3) (new_probe [\<lparr>address = ''x'', addr_length = 1, family = 2\<rparr>] int))"

lemma sample_probe_facts:
  "probe_run sample_probe" "hp_socket sample_probe = Some 3" "\<not> hp_writing sample_probe" "\<not> hp_connecting sample_probe"
  "hp_input sample_probe = []" "hp_sent_bytes sample_probe = kProbeRequest"
proof -
  show "probe_run sample_probe" unfolding sample_probe_def by (intro probe_handled probe_ticked probe_started)
  have "hp_socket sample_probe = Some 3 \<and> \<not> hp_writing sample_probe \<and> \<not> hp_connecting sample_probe \<and> hp_input sample_probe = [] \<and>
    hp_sent_bytes sample_probe = kProbeRequest" by code_simp
  then show "hp_socket sample_probe = Some 3" "\<not> hp_writing sample_probe" "\<not> hp_connecting sample_probe"
    "hp_input sample_probe = []" "hp_sent_bytes sample_probe = kProbeRequest" by simp_all
qed

definition quiet_env :: env where
  "quiet_env = \<lparr>latest = None, now = 5, accepts = [], recvs = [], sends = [], calls_ok = True, order = [], rusage = None,
     open_fds = None, lock_free = True\<rparr>"

theorem probe_reads_diagnostics_witness:
  "\<exists>resp q. respond quiet_env (init_reactor default_config 0) kProbeRequest = Inr resp \<and>
     q = probe_Handle readable True (Room 0) [Recv []] (probe_pieces [[resp]] sample_probe) \<and>
     hp_value q = Some (norm (diagnostics_json quiet_env (init_reactor default_config 0)))"
proof -
  obtain resp where resp: "respond quiet_env (init_reactor default_config 0) kProbeRequest = Inr resp" "resp \<noteq> []"
    using Route_response [of quiet_env "init_reactor default_config 0" kProbeRequest] is_response_nonempty by (auto simp: request_respond)
  have "valid_config default_config" "length (bind_address default_config) \<le> 8192" by (simp_all add: valid_config_def default_config_def)
  from probe_reads_diagnostics [OF sample_probe_facts(1) _ sample_probe_facts(3-5) serves.start this, where e = quiet_env and resp = resp and events = "[[resp]]" and t = 0, OF _ _ _ _ refl]
  show ?thesis using sample_probe_facts(2,6) resp by auto
qed

end
