(* ===== verification/Reencode.thy ===== *)
theory Reencode
  imports Protocol Json_Text Json_Accepted Double_Facts
begin

text \<open>
  What the client decodes it can encode again: every double of a decoded snapshot is finite, so that
  \<open>Encode\<close> does not throw, and the text it prints is a single line.
\<close>

abbreviation sound_double :: "double \<Rightarrow> bool" where
  "sound_double d \<equiv> isfinite d \<and> wf_double d"

fun sound_json :: "JSONValue \<Rightarrow> bool" where
  "sound_json (JDouble d) = sound_double d"
| "sound_json (JArray vs) = list_all sound_json vs"
| "sound_json (JObject ms) = list_all (\<lambda>(k, v). sound_json v) ms"
| "sound_json _ = True"

section \<open>Printing never fails\<close>

lemma sound_prints:
  "sound_json v \<Longrightarrow> \<exists>out. SerializeTo i l v = Inr out"
  "list_all sound_json vs \<Longrightarrow> \<exists>out. serialize_items i l vs = Inr out"
  "list_all (\<lambda>(k, v). sound_json v) ms \<Longrightarrow> \<exists>out. serialize_members i l ms = Inr out"
  by (induction i l v and i l vs and i l ms rule: SerializeTo_serialize_items_serialize_members.induct)
     (auto simp: rbind_Inr)

lemma sound_wf: "sound_json v \<Longrightarrow> wf_doubles v"
  by (induction v rule: sound_json.induct) (auto simp: list_all_iff)

section \<open>Reading yields finite numbers\<close>

lemma json_ok_sound: "json_ok v \<Longrightarrow> sound_json v"
  by (induction v rule: sound_json.induct) (auto simp: list_all_iff)

lemma sound_at_key: "sound_json v \<Longrightarrow> at_key v key = Some p \<Longrightarrow> sound_json p"
proof -
  assume v: "sound_json v" "at_key v key = Some p"
  then obtain ms where ms: "v = JObject ms" "map_option snd (find (\<lambda>m. fst m = key) ms) = Some p"
    by (cases v) (auto simp: at_key_def)
  then obtain k where "(k, p) \<in> set ms" by (auto simp: find_Some_iff in_set_conv_nth) (metis surjective_pairing)
  with v(1) ms(1) show ?thesis by (auto simp: list_all_iff)
qed

lemma sound_to_double: "0 \<le> q \<Longrightarrow> q \<le> 2 ^ 1000 \<Longrightarrow> sound_double (to_double s q)"
  using rate_valid_to_double [of q] wf_to_double [of q s] by (auto simp: to_double_def rate_valid_def split: if_splits)

lemma sound_of_int: "sound_double (of_nat_double (unat (w :: u64)))" "sound_double (of_int_double (sint (w :: u64)))"
proof -
  have big: "(2 :: rat) ^ 64 \<le> 2 ^ 1000" by (rule power_increasing) simp_all
  have "unat w \<le> 2 ^ 64" using unsigned_less [of w, where ?'a = nat] by simp
  then have "(of_nat (unat w) :: rat) \<le> 2 ^ 64" by (metis of_nat_le_iff of_nat_numeral of_nat_power)
  with big show "sound_double (of_nat_double (unat w))" unfolding of_nat_double_def 
    by (intro sound_to_double of_nat_0_le_iff) (rule order.trans)
  have "\<bar>sint w\<bar> \<le> 2 ^ 64" using sint_ge [of w] sint_lt [of w] by simp
  then have "(of_int \<bar>sint w\<bar> :: rat) \<le> 2 ^ 64" by (metis of_int_le_iff of_int_numeral of_int_power)
  with big show "sound_double (of_int_double (sint w))"
    unfolding of_int_double_def of_signed_def by (intro sound_to_double) simp_all
qed

lemma sound_AsDouble: "sound_json v \<Longrightarrow> AsDouble v = Some d \<Longrightarrow> sound_double d"
  using sound_of_int by (cases v) auto

lemma sound_double_at: "sound_json v \<Longrightarrow> at_key v key = Some p \<Longrightarrow> AsDouble p = Some d \<Longrightarrow> sound_double d"
  by (metis sound_at_key sound_AsDouble)

lemma sound_double_of: "sound_json v \<Longrightarrow> isfinite (double_of v key)" "sound_json v \<Longrightarrow> wf_double (double_of v key)"
  by (auto simp: double_of_def split: option.splits bind_splits dest: sound_double_at)

lemma sound_Number: "sound_json v \<Longrightarrow> sound_json (make_opt JDouble (Number v key))"
  by (auto simp: make_opt_def Number_def Field_def split: option.splits bind_splits dest: sound_double_at)

lemma sound_AsArray: "sound_json v \<Longrightarrow> AsArray v = Some vs \<Longrightarrow> list_all sound_json vs"
  by (cases v) auto

lemma sound_array_of: "sound_json v \<Longrightarrow> list_all sound_json (array_of v key)"
  by (auto simp: array_of_def split: option.splits bind_splits dest: sound_at_key sound_AsArray)

lemma sound_map_filter: "list_all sound_json vs \<Longrightarrow> list_all sound_json (map JDouble (List.map_filter AsDouble vs))"
  by (induction vs) (auto simp: List.map_filter_def dest: sound_AsDouble)

lemma sound_make_uint [simp]: "sound_json (make_opt JUInt64 x)"
  by (cases x) (simp_all add: make_opt_def)

lemma sound_map: "list_all sound_json vs \<Longrightarrow> (\<And>v. sound_json v \<Longrightarrow> sound_json (to (from v))) \<Longrightarrow> list_all (\<lambda>x. sound_json (to x)) (map from vs)"
  by (induction vs) simp_all

lemmas sound_read = sound_double_of sound_Number sound_array_of

section \<open>Every part of a snapshot\<close>

lemma sound_flat:
  assumes "sound_json v"
  shows "sound_json (CPUMetrics_ToJson (CPUMetrics_FromJson v))" "sound_json (MemoryMetrics_ToJson (MemoryMetrics_FromJson v))"
    and "sound_json (DiskMetrics_ToJson (DiskMetrics_FromJson v))" "sound_json (NetworkMetrics_ToJson (NetworkMetrics_FromJson v))"
    and "sound_json (LoadavgMetrics_ToJson (LoadavgMetrics_FromJson v))" "sound_json (ProcessInfo_ToJson (ProcessInfo_FromJson v))"
    and "sound_json (PressureMetrics_ToJson (read_pressure_item v))" "sound_json (SampleStatus_ToJson (read_status v))"
    and "sound_json (InterfaceMetrics_ToJson (read_interface v))" "sound_json (DiskIoMetrics_ToJson (read_disk_io v))"
  using sound_read [OF assms] sound_map_filter [OF sound_array_of [OF assms]]
  by (simp_all add: CPUMetrics_ToJson_def CPUMetrics_FromJson_def MemoryMetrics_ToJson_def MemoryMetrics_FromJson_def
      DiskMetrics_ToJson_def DiskMetrics_FromJson_def NetworkMetrics_ToJson_def NetworkMetrics_FromJson_def
      LoadavgMetrics_ToJson_def LoadavgMetrics_FromJson_def ProcessInfo_ToJson_def ProcessInfo_FromJson_def
      PressureMetrics_ToJson_def read_pressure_item_def SampleStatus_ToJson_def read_status_def
      InterfaceMetrics_ToJson_def read_interface_def DiskIoMetrics_ToJson_def read_disk_io_def)

lemma sound_processes: "sound_json v \<Longrightarrow> sound_json (ProcessMetrics_ToJson (ProcessMetrics_FromJson v))"
  using sound_map [OF sound_array_of, of v ProcessInfo_ToJson ProcessInfo_FromJson "''processes''"] sound_flat(6)
  by (simp add: ProcessMetrics_ToJson_def ProcessMetrics_FromJson_def list.pred_map comp_def)

lemma sound_pressures: "sound_json v \<Longrightarrow> sound_json (List_of PressureMetrics_ToJson (ReadPressure v))"
  using sound_map [OF sound_AsArray, of v _ PressureMetrics_ToJson read_pressure_item] sound_flat(7)
  by (auto simp: ReadPressure_def List_of_def list.pred_map comp_def split: option.splits)

lemma sound_pressure_field:
  "sound_json v \<Longrightarrow> sound_json (List_of PressureMetrics_ToJson (case Field v key of Some f \<Rightarrow> ReadPressure f | None \<Rightarrow> []))"
  using sound_pressures sound_at_key by (auto simp: Field_def List_of_def split: option.splits)

lemma sound_cgroup: "sound_json v \<Longrightarrow> sound_json (CgroupMetrics_ToJson (read_cgroup v))"
  using sound_Number sound_pressure_field by (simp add: CgroupMetrics_ToJson_def read_cgroup_def)

lemma sound_defaults:
  "sound_json (CgroupMetrics_ToJson default_cgroup)" "sound_json (TelemetryInfo_ToJson default_telemetry)"
  "sound_json (CPUMetrics_ToJson default_cpu)" "sound_json (MemoryMetrics_ToJson default_memory)" "sound_json (DiskMetrics_ToJson default_disk)"
  "sound_json (NetworkMetrics_ToJson default_network)" "sound_json (LoadavgMetrics_ToJson default_loadavg)"
  "sound_json (ProcessMetrics_ToJson default_process)"
  by (simp_all add: CgroupMetrics_ToJson_def TelemetryInfo_ToJson_def CPUMetrics_ToJson_def MemoryMetrics_ToJson_def DiskMetrics_ToJson_def
      NetworkMetrics_ToJson_def LoadavgMetrics_ToJson_def ProcessMetrics_ToJson_def default_cgroup_def default_telemetry_def default_cpu_def
      default_memory_def default_disk_def default_network_def default_loadavg_def default_process_def List_of_def make_opt_def)

lemma sound_telemetry: "sound_json v \<Longrightarrow> sound_json (TelemetryInfo_ToJson (TelemetryInfo_FromJson v))"
  using sound_map [OF sound_array_of, of v SampleStatus_ToJson read_status "''collectors''", OF _ sound_flat(8)]
    sound_map [OF sound_array_of, of v InterfaceMetrics_ToJson read_interface "''interfaces''", OF _ sound_flat(9)]
    sound_map [OF sound_array_of, of v DiskIoMetrics_ToJson read_disk_io "''disks''", OF _ sound_flat(10)]
    sound_pressure_field [of v "''pressure''"] sound_cgroup sound_at_key sound_defaults(1)
  by (auto simp: TelemetryInfo_ToJson_def TelemetryInfo_FromJson_def List_of_def list.pred_map comp_def Field_def list_all_iff split: option.splits)

lemma sound_section:
  "sound_json v \<Longrightarrow> sound_json (to d) \<Longrightarrow> (\<And>x. sound_json x \<Longrightarrow> sound_json (to (from x))) \<Longrightarrow> sound_json (to (section_or d from v key))"
  using sound_at_key by (auto simp: section_or_def split: option.splits)

lemma sound_wire: "sound_json v \<Longrightarrow> sound_json (wire_json (SystemSnapshot_FromJson v))"
  by (simp add: wire_json_def SystemSnapshot_members_def SystemSnapshot_FromJson_def sound_section sound_defaults sound_flat
      sound_telemetry sound_processes)

lemma decoded_sound: "Decode text_in = Inr s \<Longrightarrow> sound_json (wire_json s)"
  using parse_limits by (fastforce simp: Decode_def rbind_Inr Let_def split: option.splits if_splits intro: sound_wire json_ok_sound)

lemma decoded_encodes:
  assumes "Decode text_in = Inr s"
  obtains out where "Encode s = Inr out" "CHR 0x0A \<notin> set out"
proof -
  have w: "sound_json (wire_json s)" by (rule decoded_sound [OF assms])
  have E: "Encode s = ToString (wire_json s) (- 1)" by (simp add: Encode_def wire_json_def Add_def)
  obtain out where "ToString (wire_json s) (- 1) = Inr out" using sound_prints(1) [OF w] by (auto simp: ToString_def)
  with E compact_one_line [OF sound_wf [OF w]] that show thesis by metis
qed

end
