(* ===== verification/Client_Run.thy ===== *)
theory Client_Run
  imports Client_App Stream_Client Reencode
begin

text \<open>
  What the client makes of the snapshots it receives: which it takes, what it prints and records, how it counts
  what it missed; and that a recording replays to the same snapshots.
\<close>

section \<open>Receiving in order\<close>

text \<open>The reference: a snapshot is taken when it is newer than the last one taken of the same server.\<close>

definition newer :: "SystemSnapshot option \<Rightarrow> SystemSnapshot \<Rightarrow> bool" where
  "newer cur s \<longleftrightarrow>
     (case cur of
        None \<Rightarrow> True
      | Some c \<Rightarrow> instance_id (telemetry c) = instance_id (telemetry s) \<longrightarrow> sequence (telemetry c) < sequence (telemetry s))"

fun fresh_only :: "SystemSnapshot option \<Rightarrow> SystemSnapshot list \<Rightarrow> SystemSnapshot list" where
  "fresh_only cur [] = []"
| "fresh_only cur (s # ss) = (if newer cur s then s # fresh_only (Some s) ss else fresh_only cur ss)"

definition gap :: "SystemSnapshot option \<Rightarrow> SystemSnapshot \<Rightarrow> u64" where
  "gap cur s =
     (case cur of
        None \<Rightarrow> 0
      | Some c \<Rightarrow>
          if instance_id (telemetry c) = instance_id (telemetry s) then sequence (telemetry s) - sequence (telemetry c) - 1 else 0)"

fun missed :: "SystemSnapshot option \<Rightarrow> SystemSnapshot list \<Rightarrow> u64" where
  "missed cur [] = 0"
| "missed cur (s # ss) = gap cur s + missed (Some s) ss"

fun receive_all :: "SystemSnapshot list \<Rightarrow> Client \<Rightarrow> exn option \<times> Client" where
  "receive_all [] c = (None, c)"
| "receive_all (s # ss) c =
     (case receive s c of
        (Some e, c1) \<Rightarrow> (Some e, c1)
      | (None, c1) \<Rightarrow> receive_all ss c1)"

definition line_of :: "SystemSnapshot \<Rightarrow> string" where
  "line_of s = (case Encode s of Inr out \<Rightarrow> out | Inl _ \<Rightarrow> [])"

lemma decoded_line: "decoded s \<Longrightarrow> Encode s = Inr (line_of s) \<and> CHR 0x0A \<notin> set (line_of s)"
proof -
  assume "decoded s"
  then obtain out where "Encode s = Inr out" "CHR 0x0A \<notin> set out" by (auto simp: decoded_def elim: decoded_encodes)
  then show ?thesis by (simp add: line_of_def)
qed

text \<open>The effects of \<open>receive\<close> that the reference speaks of.\<close>

definition took :: "SystemSnapshot list \<Rightarrow> Client \<Rightarrow> Client \<Rightarrow> bool" where
  "took f c c' \<longleftrightarrow>
     cl_recording c' = map_option (\<lambda>ls. ls @ map line_of f) (cl_recording c) \<and>
     cl_stdout c' = cl_stdout c @ (if cl_interactive c then [] else map line_of f) \<and>
     cl_current c' = (if f = [] then cl_current c else Some (last f)) \<and>
     sequence_gaps (cl_view c') = sequence_gaps (cl_view c) + missed (cl_current c) f \<and>
     cl_options c' = cl_options c \<and> cl_interactive c' = cl_interactive c \<and> cl_disk_ok c' = cl_disk_ok c \<and> cl_quit c' = cl_quit c"

lemma took_Nil: "took [] c c1 \<Longrightarrow> took f c1 c2 \<Longrightarrow> took f c c2"
  by (cases "cl_recording c") (auto simp: took_def)

lemma took_Cons: "took [s] c c1 \<Longrightarrow> took f c1 c2 \<Longrightarrow> took (s # f) c c2"
  by (cases "cl_recording c") (auto simp: took_def)

lemma receive_stale: "\<not> once (cl_options c) \<Longrightarrow> \<not> newer (cl_current c) s \<Longrightarrow> \<exists>c'. receive s c = (None, c') \<and> took [] c c'"
  by (cases "cl_current c"; cases "cl_recording c") (auto simp: receive_def track_def newer_def took_def Let_def not_less)

lemma receive_fresh:
  assumes "\<not> once (cl_options c)" "newer (cl_current c) s" "decoded s" "\<forall>n. cl_disk_ok c n"
  shows "\<exists>c'. receive s c = (None, c') \<and> took [s] c c'"
  using assms(1,2,4) decoded_line [OF assms(3)]
  by (cases "cl_current c"; cases "cl_recording c")
     (auto simp: receive_def track_def newer_def took_def gap_def record_snapshot_def print_snapshot_def show_snapshot_def Let_def not_le)

lemma receive_all_took:
  assumes "\<not> once (cl_options c)" "\<forall>n. cl_disk_ok c n" "list_all decoded ss"
  shows "\<exists>c'. receive_all ss c = (None, c') \<and> took (fresh_only (cl_current c) ss) c c'"
  using assms
proof (induction ss arbitrary: c)
  case Nil
  then show ?case by (cases "cl_recording c") (simp_all add: took_def)
next
  case (Cons s ss)
  show ?case
  proof (cases "newer (cl_current c) s")
    case True
    then obtain c1 where c1: "receive s c = (None, c1)" "took [s] c c1" using receive_fresh Cons.prems by force
    then obtain c2 where "receive_all ss c1 = (None, c2)" "took (fresh_only (cl_current c1) ss) c1 c2"
      using Cons.IH [of c1] Cons.prems by (auto simp: took_def)
    moreover have "cl_current c1 = Some s" using c1(2) by (simp add: took_def)
    ultimately show ?thesis using c1 True took_Cons by auto
  next
    case False
    then obtain c1 where c1: "receive s c = (None, c1)" "took [] c c1" using receive_stale Cons.prems by force
    then obtain c2 where "receive_all ss c1 = (None, c2)" "took (fresh_only (cl_current c1) ss) c1 c2"
      using Cons.IH [of c1] Cons.prems by (auto simp: took_def)
    moreover have "cl_current c1 = cl_current c" using c1(2) by (simp add: took_def)
    ultimately show ?thesis using c1 False took_Nil by auto
  qed
qed

lemma subseq_fresh: "subseq (fresh_only cur ss) ss"
  by (induction ss arbitrary: cur) auto

lemma set_fresh: "set (fresh_only cur ss) \<subseteq> set ss"
proof (induction ss arbitrary: cur)
  case (Cons s ss)
  from Cons.IH [of cur] Cons.IH [of "Some s"] show ?case by auto
qed simp

abbreviation follows :: "SystemSnapshot \<Rightarrow> SystemSnapshot \<Rightarrow> bool" where
  "follows a b \<equiv> newer (Some a) b"

lemma fresh_chain: "successively follows (case cur of None \<Rightarrow> fresh_only cur ss | Some c \<Rightarrow> c # fresh_only cur ss)"
proof (induction ss arbitrary: cur)
  case (Cons s ss)
  from Cons.IH [of "Some s"] Cons.IH [of cur] show ?case by (auto split: option.splits)
qed (auto split: option.splits)

lemma fresh_successive: "successively follows (fresh_only cur ss)"
  using fresh_chain [of cur ss] by (cases cur; cases "fresh_only cur ss") auto

text \<open>
  C37: what the client takes from a stream. Whatever decoded snapshots arrive, repeated, reordered or from a
  restarted server, the client takes exactly those that are newer than the last one of the same server: these, once each
  and in order, are printed and appended to the recording, the last one is current, and the counter of gaps
  grows by exactly the sequence numbers that were skipped between them.
\<close>

theorem received_in_order:
  assumes "\<not> once (cl_options c)" "\<forall>n. cl_disk_ok c n" "list_all decoded ss" "f = fresh_only (cl_current c) ss"
  shows "\<exists>c'. receive_all ss c = (None, c') \<and>
    cl_recording c' = map_option (\<lambda>ls. ls @ map line_of f) (cl_recording c) \<and>
    cl_stdout c' = cl_stdout c @ (if cl_interactive c then [] else map line_of f) \<and>
    cl_current c' = (if f = [] then cl_current c else Some (last f)) \<and>
    sequence_gaps (cl_view c') = sequence_gaps (cl_view c) + missed (cl_current c) f \<and>
    subseq f ss \<and> successively follows f"
  using receive_all_took [OF assms(1-3)] fresh_successive subseq_fresh assms(4) by (auto simp: took_def)

lemma sample_decoded: "decoded sample_snapshot"
proof -
  obtain out where out: "Encode sample_snapshot = Inr out" "length out \<le> 2000" using sample_encodes by blast
  then show ?thesis
    using decode_encoded [OF sample_ok(1,2) out(1) _ sample_ok(3)] by (auto simp: decoded_def kMaxPayload_def)
qed

theorem received_in_order_witness:
  "\<exists>c'. receive_all [sample_snapshot, sample_snapshot] (new_client default_options False (\<lambda>_. True) int) = (None, c') \<and>
     cl_stdout c' = [line_of sample_snapshot]"
proof -
  let ?c = "new_client default_options False (\<lambda>_. True) int"
  have "fresh_only None [sample_snapshot, sample_snapshot] = [sample_snapshot]" by (simp add: newer_def)
  with received_in_order [of ?c "[sample_snapshot, sample_snapshot]", OF _ _ _ refl] sample_decoded
  show ?thesis by (auto simp: new_client_def default_options_def)
qed

section \<open>Recording and replaying\<close>

definition replayable :: "SystemSnapshot \<Rightarrow> bool" where
  "replayable s \<longleftrightarrow>
     decoded s \<and> snapshot_ok s \<and> length (line_of s) \<le> kMaxPayload \<and> json_nodes (wire_json s) \<le> 1000000"

lemma replayable_line: "replayable s \<Longrightarrow> Decode (line_of s) = Inr s \<and> \<not> kMaxPayload < length (line_of s)"
  using decoded_line [of s] decode_encoded [of s "line_of s"] by (auto simp: replayable_def decoded_snapshot_valid)

lemma fresh_only_chain: "(ss \<noteq> [] \<longrightarrow> newer cur (hd ss)) \<Longrightarrow> successively follows ss \<Longrightarrow> fresh_only cur ss = ss"
proof (induction ss arbitrary: cur)
  case (Cons s ss)
  then show ?case by (cases ss) auto
qed simp

lemma newer_None [simp]: "newer None s"
  by (simp add: newer_def)

lemma fresh_only_idem: "fresh_only None (fresh_only None ss) = fresh_only None ss"
  by (rule fresh_only_chain) (simp_all add: fresh_successive)

text \<open>In how many rounds the replay is due, when its next line is due at \<open>t\<close>.\<close>

fun due :: "int \<Rightarrow> poll_round list \<Rightarrow> nat" where
  "due t [] = 0"
| "due t (p # ps) = (if pr_now p < t then due t ps else Suc (due (pr_now p + milliseconds 250) ps))"

text \<open>A client that replays and neither connects nor draws.\<close>

definition replaying :: "string list \<Rightarrow> int \<Rightarrow> ClientApp \<Rightarrow> bool" where
  "replaying ls t a \<longleftrightarrow>
     app_stream a = None \<and> app_probe a = None \<and> app_replay a = Some ls \<and> app_next_replay a = t \<and>
     \<not> cl_interactive (app_client a) \<and> \<not> once (cl_options (app_client a)) \<and> cl_recording (app_client a) = None \<and>
     \<not> cl_quit (app_client a)"

lemma draw_step_keeps:
  "app_stream (draw_step p a) = app_stream a" "app_probe (draw_step p a) = app_probe a" "app_replay (draw_step p a) = app_replay a"
  "app_next_replay (draw_step p a) = app_next_replay a" "cl_interactive (app_client (draw_step p a)) = cl_interactive (app_client a)"
  "cl_options (app_client (draw_step p a)) = cl_options (app_client a)" "cl_recording (app_client (draw_step p a)) = cl_recording (app_client a)"
  "cl_quit (app_client (draw_step p a)) = cl_quit (app_client a)" "cl_stdout (app_client (draw_step p a)) = cl_stdout (app_client a)"
  "cl_current (app_client (draw_step p a)) = cl_current (app_client a)" "cl_disk_ok (app_client (draw_step p a)) = cl_disk_ok (app_client a)"
  by (simp_all add: draw_step_def Let_def)

lemma replay_round:
  assumes "app_stream a = None" "app_probe a = None" "\<not> cl_interactive (app_client a)" "pr_poll_ok p" "replay_step p a = (None, a1)"
    and "app_stream a1 = None" "app_probe a1 = None" "\<not> cl_interactive (app_client a1)"
  shows "client_round p a = Some (None, draw_step p a1)"
  using assms by (simp add: client_round_def tick_step_def stream_step_def probe_step_def keys_step_def)

lemma replay_line:
  assumes "replaying (line_of s # ls) t a" "replayable s" "newer (cl_current (app_client a)) s" "t \<le> pr_now p" "pr_poll_ok p"
    and "\<forall>n. cl_disk_ok (app_client a) n"
  shows "\<exists>a1. client_round p a = Some (None, a1) \<and> replaying ls (pr_now p + milliseconds 250) a1 \<and>
    cl_current (app_client a1) = Some s \<and> cl_stdout (app_client a1) = cl_stdout (app_client a) @ [line_of s] \<and>
    cl_disk_ok (app_client a1) = cl_disk_ok (app_client a)"
proof -
  obtain c1 where c1: "receive s (app_client a) = (None, c1)" "took [s] (app_client a) c1"
    using receive_fresh [of "app_client a" s] assms by (auto simp: replaying_def replayable_def)
  let ?a1 = "a\<lparr>app_replay := Some ls, app_client := c1, app_next_replay := pr_now p + milliseconds 250\<rparr>"
  have "replay_step p a = (None, ?a1)"
    using assms(1,4) replayable_line [OF assms(2)] c1(1) by (simp add: replay_step_def replaying_def)
  then have "client_round p a = Some (None, draw_step p ?a1)"
    using assms(1,5) c1(2) by (intro replay_round) (simp_all add: replaying_def took_def)
  then show ?thesis using assms(1) c1(2) by (auto simp: replaying_def draw_step_keeps took_def)
qed

lemma replay_end:
  assumes "replaying [] t a" "t \<le> pr_now p" "pr_poll_ok p"
  shows "\<exists>a1. client_round p a = Some (None, a1) \<and> cl_quit (app_client a1) \<and> cl_current (app_client a1) = cl_current (app_client a) \<and>
    cl_stdout (app_client a1) = cl_stdout (app_client a)"
proof -
  let ?c = "(app_client a)\<lparr>cl_view := (cl_view (app_client a))\<lparr>vs_connection := ''replay finished''\<rparr>, cl_quit := True\<rparr>"
  have "replay_step p a = (None, a\<lparr>app_client := ?c, app_replay := None\<rparr>)"
    using assms(1,2) by (simp add: replay_step_def replaying_def Let_def)
  then have "client_round p a = Some (None, draw_step p (a\<lparr>app_client := ?c, app_replay := None\<rparr>))"
    using assms(1,3) by (intro replay_round) (simp_all add: replaying_def)
  then show ?thesis by (simp add: draw_step_keeps)
qed

lemma replay_wait:
  assumes "replaying ls t a" "pr_now p < t" "pr_poll_ok p"
  shows "\<exists>a1. client_round p a = Some (None, a1) \<and> replaying ls t a1 \<and> cl_current (app_client a1) = cl_current (app_client a) \<and>
    cl_stdout (app_client a1) = cl_stdout (app_client a) \<and> cl_disk_ok (app_client a1) = cl_disk_ok (app_client a)"
proof -
  have "replay_step p a = (None, a)" using assms(1,2) by (simp add: replay_step_def replaying_def)
  then have "client_round p a = Some (None, draw_step p a)" using assms(1,3) by (intro replay_round) (simp_all add: replaying_def)
  then show ?thesis using assms(1) by (simp add: replaying_def draw_step_keeps)
qed

lemma client_loop_step:
  assumes "client_round p a = Some (None, a1)" "\<not> pr_stopped p" "\<not> cl_quit (app_client a)"
  shows "client_loop (p # ps) a = client_loop ps a1"
  using assms by simp

lemma client_loop_quit: "cl_quit (app_client a) \<Longrightarrow> client_loop ps a = Some (None, a)"
  by (cases ps) simp_all

lemma replay_loop:
  assumes "replaying (map line_of ss) t a" "list_all replayable ss" "fresh_only (cl_current (app_client a)) ss = ss" "length ss < due t ps"
    and "list_all (\<lambda>p. pr_poll_ok p \<and> \<not> pr_stopped p) ps" "\<forall>n. cl_disk_ok (app_client a) n"
  shows "\<exists>a'. client_loop ps a = Some (None, a') \<and> cl_quit (app_client a') \<and>
    cl_stdout (app_client a') = cl_stdout (app_client a) @ map line_of ss \<and>
    cl_current (app_client a') = (if ss = [] then cl_current (app_client a) else Some (last ss))"
  using assms
proof (induction ps arbitrary: ss t a)
  case (Cons p ps)
  have p: "pr_poll_ok p" "\<not> pr_stopped p" "\<not> cl_quit (app_client a)" using Cons.prems(1,5) by (auto simp: replaying_def)
  have ps: "list_all (\<lambda>p. pr_poll_ok p \<and> \<not> pr_stopped p) ps" using Cons.prems(5) by simp
  consider "pr_now p < t" | "t \<le> pr_now p" "ss = []" | s rs where "t \<le> pr_now p" "ss = s # rs" by (cases ss) force+
  then show ?case
  proof cases
    case 1
    obtain a1 where a1: "client_round p a = Some (None, a1)" "replaying (map line_of ss) t a1"
      "cl_current (app_client a1) = cl_current (app_client a)" "cl_stdout (app_client a1) = cl_stdout (app_client a)"
      "cl_disk_ok (app_client a1) = cl_disk_ok (app_client a)" using replay_wait [OF Cons.prems(1) 1 p(1)] by blast
    have "length ss < due t ps" using Cons.prems(4) 1 by simp
    from Cons.IH [OF a1(2), unfolded a1(3-5), OF Cons.prems(2,3) this ps Cons.prems(6)]
    show ?thesis unfolding client_loop_step [OF a1(1) p(2,3)] .
  next
    case 2
    obtain a1 where a1: "client_round p a = Some (None, a1)" "cl_quit (app_client a1)"
      "cl_current (app_client a1) = cl_current (app_client a)" "cl_stdout (app_client a1) = cl_stdout (app_client a)"
      using replay_end [of t a p] Cons.prems(1) 2 p(1) by auto
    then show ?thesis using client_loop_step [OF a1(1) p(2,3)] client_loop_quit [OF a1(2)] 2 by simp
  next
    case 3
    have s: "replayable s" "newer (cl_current (app_client a)) s" "fresh_only (Some s) rs = rs"
      using Cons.prems(2,3) 3(2) list_emb_length [OF subseq_fresh, of "cl_current (app_client a)" rs] by (auto split: if_splits)
    obtain a1 where a1: "client_round p a = Some (None, a1)" "replaying (map line_of rs) (pr_now p + milliseconds 250) a1"
      "cl_current (app_client a1) = Some s" "cl_stdout (app_client a1) = cl_stdout (app_client a) @ [line_of s]"
      "cl_disk_ok (app_client a1) = cl_disk_ok (app_client a)"
      using replay_line [OF _ s(1,2) 3(1) p(1) Cons.prems(6), of "map line_of rs"] Cons.prems(1) 3(2) by auto
    have "list_all replayable rs" "length rs < due (pr_now p + milliseconds 250) ps" using Cons.prems(2,4) 3 by simp_all
    from Cons.IH [OF a1(2), unfolded a1(3-5), OF this(1) s(3) this(2) ps Cons.prems(6)] 3(2)
    show ?thesis unfolding client_loop_step [OF a1(1) p(2,3)] by (cases rs) simp_all
  qed
qed simp


definition sample_round :: "int \<Rightarrow> poll_round" where
  "sample_round t = \<lparr>pr_stopped = False, pr_now = t, pr_net = (\<lambda>_. Socket_failed), pr_probe_net = (\<lambda>_. Socket_failed), pr_poll_ok = True,
     pr_events = None, pr_check = True, pr_recvs = [], pr_probe_events = None, pr_probe_check = True, pr_probe_send = Room 0,
     pr_probe_recvs = [], pr_keys = [], pr_then = t, pr_cols = 80, pr_rows = 24\<rparr>"

lemma sample_replayable: "replayable sample_snapshot"
proof -
  obtain out where "Encode sample_snapshot = Inr out" "length out \<le> 2000" using sample_encodes by blast
  then show ?thesis using sample_decoded sample_ok(1,3) by (simp add: replayable_def line_of_def kMaxPayload_def)
qed


end
