(* ===== verification/Client_View.thy ===== *)
theory Client_View
  imports Client_Run
begin

text \<open>
  The whole client under any input: every round of its loop ends, whatever the network, the keyboard and the
  replayed file hold, the view stays in range, and only a few known errors can end the program.
\<close>

section \<open>The invariant\<close>

definition filter_ok :: "string \<Rightarrow> bool" where
  "filter_ok f \<longleftrightarrow> length f \<le> 64 \<and> list_all (\<lambda>c. 32 \<le> byte c \<and> byte c < 127) f"

definition view_ok :: "ViewState \<Rightarrow> bool" where
  "view_ok v \<longleftrightarrow>
     1 \<le> page v \<and> page v \<le> 6 \<and> filter_ok (vs_filter v) \<and> vs_sort v \<in> {''cpu'', ''memory'', ''pid'', ''threads''} \<and>
     length (cpu_history v) \<le> 120 \<and> length (memory_history v) \<le> 120 \<and> length (rx_history v) \<le> 120"

definition client_ok :: "Client \<Rightarrow> bool" where
  "client_ok c \<longleftrightarrow>
     view_ok (cl_view c) \<and> filter_ok (cl_previous_filter c) \<and>
     opt_ok decoded (cl_current c) \<and> opt_ok decoded (cl_visible c) \<and> (cl_current c = None \<longrightarrow> cl_visible c = None)"

definition app_ok :: "ClientApp \<Rightarrow> bool" where
  "app_ok a \<longleftrightarrow>
     client_ok (app_client a) \<and> opt_ok conn_inv (app_stream a) \<and> opt_ok probe_inv (app_probe a)"

definition client_error :: "exn \<Rightarrow> bool" where
  "client_error e \<longleftrightarrow>
     e \<in> {Runtime_error ''recording write failed'', Runtime_error ''replay frame too large'', Runtime_error ''poll failed''} \<or>
     (\<exists>err. e = Runtime_error (''replay: '' @ err))"

section \<open>Receiving\<close>

lemma track_ok: "track s c = Some c1 \<Longrightarrow> client_ok c \<Longrightarrow> client_ok c1"
  by (cases "cl_current c") (auto simp: track_def client_ok_def view_ok_def split: if_splits)

lemma record_ok: "record_snapshot s c = (e, c1) \<Longrightarrow> client_ok c \<Longrightarrow> client_ok c1"
  by (auto simp: record_snapshot_def client_ok_def split: option.splits sum.splits if_splits)

lemma print_ok: "print_snapshot s c = (e, c1) \<Longrightarrow> client_ok c \<Longrightarrow> client_ok c1"
  by (auto simp: print_snapshot_def client_ok_def split: sum.splits if_splits)

lemma push_history_ok: "length h \<le> 120 \<Longrightarrow> length (push_history d h) \<le> 120"
  by (simp add: push_history_def Let_def)

lemma show_ok: "client_ok c \<Longrightarrow> decoded s \<Longrightarrow> client_ok (show_snapshot t s c)"
  by (simp add: show_snapshot_def client_ok_def view_ok_def Let_def push_history_ok)

lemma receive_ok:
  assumes "decoded s" "client_ok c" "receive s c = (e, c')"
  shows "client_ok c' \<and> (e = None \<or> e = Some (Runtime_error ''recording write failed''))"
proof -
  let ?c0 = "c\<lparr>cl_reads := cl_reads c + 1\<rparr>"
  have c0: "client_ok ?c0" using assms(2) by (simp add: client_ok_def)
  have E: "Encode s = Inr (line_of s)" using decoded_line [OF assms(1)] by simp
  consider "once (cl_options c) \<and> cl_quit c \<or> track s ?c0 = None" "e = None" "c' = c \<or> c' = ?c0"
    | c1 e1 c2 where "track s ?c0 = Some c1" "record_snapshot s c1 = (e1, c2)" "e1 \<noteq> None" "e = e1" "c' = c2"
    | c1 c2 e2 c3 where "track s ?c0 = Some c1" "record_snapshot s c1 = (None, c2)" "print_snapshot s c2 = (e2, c3)" "e = e2"
        "c' = c3 \<or> c' = show_snapshot (cl_clock c (cl_reads c)) s c3"
    using assms(3) unfolding receive_def Let_def by (auto split: if_splits option.splits prod.splits)
  then show ?thesis
  proof cases
    case 1
    then show ?thesis using c0 assms(2) by auto
  next
    case 2
    then show ?thesis using record_ok track_ok c0 E by (auto simp: record_snapshot_def split: option.splits if_splits)
  next
    case 3
    moreover have "e2 = None" using 3(3) E by (auto simp: print_snapshot_def split: if_splits)
    ultimately show ?thesis using record_ok track_ok print_ok show_ok c0 assms(1) by metis
  qed
qed

lemma receive_keeps: "keeps receive client_ok"
  unfolding keeps_def by (metis receive_ok surjective_pairing)

lemma receive_throws: "throws receive client_ok x \<Longrightarrow> x = Runtime_error ''recording write failed''"
proof -
  assume "throws receive client_ok x"
  then obtain s c where "decoded s" "client_ok c" "fst (receive s c) = Some x" by (auto simp: throws_def)
  with receive_ok [OF this(1,2) surjective_pairing] show ?thesis by simp
qed

section \<open>Keys\<close>

lemma filter_ok_edit:
  "filter_ok f \<Longrightarrow> filter_ok (butlast f)"
  "filter_ok f \<Longrightarrow> 32 \<le> byte key \<Longrightarrow> byte key < 127 \<Longrightarrow> length f < 64 \<Longrightarrow> filter_ok (f @ [key])"
  by (auto simp: filter_ok_def list_all_iff dest: in_set_butlastD)

lemma client_ok_view: "client_ok c \<Longrightarrow> view_ok v \<Longrightarrow> client_ok (c\<lparr>cl_view := v\<rparr>)"
  by (simp add: client_ok_def)

lemma view_ok_fields [simp]:
  "view_ok (v\<lparr>scroll := n\<rparr>) = view_ok v" "view_ok (v\<lparr>editing_filter := b\<rparr>) = view_ok v" "view_ok (v\<lparr>show_help := b\<rparr>) = view_ok v"
  "view_ok (v\<lparr>paused := b\<rparr>) = view_ok v" "view_ok (v\<lparr>vs_connection := s\<rparr>) = view_ok v"
  by (simp_all add: view_ok_def)

lemma view_okD: "view_ok v \<Longrightarrow> filter_ok (vs_filter v)" "client_ok c \<Longrightarrow> view_ok (cl_view c)" "client_ok c \<Longrightarrow> filter_ok (cl_previous_filter c)"
  by (simp_all add: view_ok_def client_ok_def)

lemma view_ok_update:
  "view_ok v \<Longrightarrow> filter_ok f \<Longrightarrow> view_ok (v\<lparr>vs_filter := f\<rparr>)" "view_ok v \<Longrightarrow> 1 \<le> n \<Longrightarrow> n \<le> 6 \<Longrightarrow> view_ok (v\<lparr>page := n\<rparr>)"
  "view_ok v \<Longrightarrow> o1 \<in> {''cpu'', ''memory'', ''pid'', ''threads''} \<Longrightarrow> view_ok (v\<lparr>vs_sort := o1\<rparr>)"
  by (simp_all add: view_ok_def)

lemma if_okI: "(b \<Longrightarrow> P x) \<Longrightarrow> (\<not> b \<Longrightarrow> P y) \<Longrightarrow> P (if b then x else y)"
  by simp

lemma filter_key_ok: "client_ok c \<Longrightarrow> client_ok (filter_key key c)"
proof -
  assume c: "client_ok c"
  note v = view_okD(2) [OF c] and f = view_okD(1) [OF view_okD(2) [OF c]]
  show ?thesis
    unfolding filter_key_def Let_def
    by (rule client_ok_view [OF c], unfold view_ok_fields,
        (rule if_okI [where P = view_ok] v view_ok_fields(2) [THEN iffD2] view_ok_update(1) [OF v] view_okD(3) [OF c] filter_ok_edit(1) [OF f] filter_ok_edit(2) [OF f] |
         (elim conjE, assumption))+)
qed

lemma command_key_ok: "client_ok c \<Longrightarrow> client_ok (command_key key c)"
proof -
  assume c: "client_ok c"
  note v = view_okD(2) [OF c]
  have frame: "client_ok (c\<lparr>cl_quit := True\<rparr>)" "client_ok (c\<lparr>cl_view := cl_view c\<lparr>editing_filter := True\<rparr>, cl_previous_filter := vs_filter (cl_view c)\<rparr>)"
    using c view_okD(1) [OF v] by (simp_all add: client_ok_def)
  have shown: "client_ok d \<Longrightarrow> client_ok (if \<not> paused (cl_view d) \<and> cl_current d \<noteq> None then d\<lparr>cl_visible := cl_current d\<rparr> else d)" for d
    by (simp add: client_ok_def)
  show ?thesis
    unfolding command_key_def Let_def
    by (rule frame shown c | rule if_okI [where P = client_ok] | (rule client_ok_view [OF c], force simp: v view_ok_update))+
qed

lemma handle_key_ok: "client_ok c \<Longrightarrow> client_ok (handle_key key c)"
  by (simp add: handle_key_def filter_key_ok command_key_ok)

lemma handle_keys_ok: "client_ok c \<Longrightarrow> client_ok (fold handle_key ks c)"
  by (induction ks arbitrary: c) (simp_all add: handle_key_ok)

section \<open>The steps of a round\<close>

lemma tick_step_ok: "app_ok a \<Longrightarrow> app_ok (tick_step p a)"
  by (cases "app_stream a"; cases "app_probe a") (simp_all add: tick_step_def app_ok_def Tick_inv probe_Tick_inv)

lemma probe_step_ok: "app_ok a \<Longrightarrow> app_ok (probe_step p a)"
  by (cases "app_probe a"; cases "pr_probe_events p") (simp_all add: probe_step_def app_ok_def probe_Handle_inv)

lemma keys_step_ok: "app_ok a \<Longrightarrow> app_ok (keys_step p a)"
  by (simp add: keys_step_def app_ok_def handle_keys_ok)

lemma draw_step_ok: "app_ok a \<Longrightarrow> app_ok (draw_step p a)"
  unfolding draw_step_def Let_def
  by (cases "app_stream a"; cases "app_probe a") (simp_all add: app_ok_def client_ok_def view_ok_def)

lemma replay_step_ok:
  assumes "app_ok a" "replay_step p a = (e, a')"
  shows "app_ok a' \<and> opt_ok client_error e"
proof (cases "app_replay a")
  case None
  then show ?thesis using assms by (simp add: replay_step_def)
next
  case (Some ls)
  show ?thesis
  proof (cases "pr_now p < app_next_replay a")
    case True
    then show ?thesis using assms Some by (simp add: replay_step_def)
  next
    case due: False
    show ?thesis
    proof (cases ls)
      case Nil
      then show ?thesis using assms Some due by (auto simp: replay_step_def Let_def app_ok_def client_ok_def)
    next
      case (Cons line rs)
      obtain e1 c1 where r: "receive s (app_client a) = (e1, c1)" if "Decode line = Inr s" for s
        by (cases "Decode line") (simp_all, metis surjective_pairing)
      have ok: "client_ok c1 \<and> opt_ok client_error e1" if "Decode line = Inr s" for s
        using receive_ok [OF _ _ r [OF that]] that assms(1) by (force simp: decoded_def app_ok_def client_error_def)
      show ?thesis
        using assms Some due Cons r ok
        by (cases "Decode line"; cases e1) (auto simp: replay_step_def Let_def app_ok_def client_error_def split: if_splits)
    qed
  qed
qed

lemma stream_step_ok:
  assumes "app_ok a"
  shows "\<exists>e a'. stream_step p a = Some (e, a') \<and> client_ok (app_client a') \<and> (e = None \<longrightarrow> app_ok a') \<and> opt_ok client_error e"
proof (cases "\<exists>sc ev. app_stream a = Some sc \<and> pr_events p = Some ev")
  case True
  then obtain sc ev where sc: "app_stream a = Some sc" "pr_events p = Some ev" by blast
  have "handled receive client_ok (Handle ev (pr_check p) receive (pr_recvs p) sc (app_client a))"
    using assms sc(1) by (intro Handle_handled receive_keeps) (simp_all add: app_ok_def)
  then obtain fl sc1 c1 where h: "Handle ev (pr_check p) receive (pr_recvs p) sc (app_client a) = Some (fl, sc1, c1)" "client_ok c1"
    "fl = Return \<and> conn_inv sc1 \<or> fl = Throw (Runtime_error ''recording write failed'')"
    using receive_throws by (auto simp: handled_def)
  then show ?thesis using assms sc by (auto simp: stream_step_def app_ok_def client_error_def)
next
  case False
  then have "stream_step p a = Some (None, a)" by (auto simp: stream_step_def split: option.splits)
  then show ?thesis using assms by (simp add: app_ok_def)
qed

lemma client_round_ok:
  assumes "app_ok a"
  shows "\<exists>e a'. client_round p a = Some (e, a') \<and> client_ok (app_client a') \<and> (e = None \<longrightarrow> app_ok a') \<and> opt_ok client_error e"
proof -
  obtain e1 a1 where a1: "replay_step p (tick_step p a) = (e1, a1)" by fastforce
  have ok1: "app_ok a1" "opt_ok client_error e1" using replay_step_ok [OF tick_step_ok [OF assms] a1] by simp_all
  then have "client_ok (app_client a1)" by (simp add: app_ok_def)
  obtain e2 a2 where a2: "stream_step p a1 = Some (e2, a2)" "client_ok (app_client a2)" "e2 = None \<longrightarrow> app_ok a2" "opt_ok client_error e2"
    using stream_step_ok [OF ok1(1)] by blast
  have "app_ok (draw_step p (keys_step p (probe_step p a2)))" if "e2 = None" using that a2(3) by (simp add: draw_step_ok keys_step_ok probe_step_ok)
  then show ?thesis
    using ok1 a1 a2 \<open>client_ok (app_client a1)\<close>
    by (cases e1; cases e2) (auto simp: client_round_def client_error_def app_ok_def)
qed

lemma new_app_ok:
  assumes "new_app options interactive writes clk rnd stream_addrs http_addrs record_opens replay_file t = Inr a"
  shows "app_ok a"
proof -
  have "client_ok (new_client options interactive writes clk)"
    by (simp add: new_client_def client_ok_def view_ok_def filter_ok_def default_view_def)
  moreover have "conn_inv sc" if "new_connection as clk rnd = Inr sc" for as sc
    using that by (auto simp: new_connection_def conn_inv_def decoder_inv_new split: if_splits)
  moreover have "probe_inv (new_probe as clk)" for as by (simp add: probe_inv_def new_probe_def)
  ultimately show ?thesis
    using assms by (auto simp: new_app_def Let_def rbind_Inr app_ok_def split: if_splits)
qed

text \<open>
  C39: every round of the client ends and leaves the client in order. However the client is started, whatever
  the network, the keyboard, the clock and the replayed file do in any number of rounds, no loop inside a round
  runs on; the page is one of the six, the filter has at most 64 printable characters, the
  sort key is known, no history is longer than 120, the snapshots held were decoded and validated; and the
  only errors that end the program are a failed write to the recording, a bad line of a replay and a failed \<open>poll\<close>.
\<close>

theorem client_rounds_end:
  assumes "new_app options interactive writes clk rnd stream_addrs http_addrs record_opens replay_file t = Inr a"
  shows "\<exists>e a'. client_loop ps a = Some (e, a') \<and> client_ok (app_client a') \<and> opt_ok client_error e"
proof -
  from assms have "app_ok a" by (rule new_app_ok)
  then show ?thesis
  proof (induction ps arbitrary: a)
    case Nil
    then show ?case by (simp add: app_ok_def)
  next
    case (Cons p ps)
    obtain e1 a1 where r: "client_round p a = Some (e1, a1)" "client_ok (app_client a1)" "e1 = None \<longrightarrow> app_ok a1" "opt_ok client_error e1"
      using client_round_ok [OF Cons.prems] by blast
    have "client_ok (app_client a)" using Cons.prems by (simp add: app_ok_def)
    with r Cons.IH [of a1] show ?case by (cases e1) auto
  qed
qed

theorem client_rounds_end_witness:
  "\<exists>a e a'. new_app default_options True (\<lambda>_. True) int (\<lambda>_. 0) (Inr [\<lparr>address = ''x'', addr_length = 1, family = 2\<rparr>])
       (Inr [\<lparr>address = ''x'', addr_length = 1, family = 2\<rparr>]) True None 0 = Inr a \<and>
     client_loop [(sample_round 0)\<lparr>pr_keys := ''3/ab''\<rparr>, (sample_round 1)\<lparr>pr_keys := ''q''\<rparr>] a = Some (e, a') \<and> page (cl_view (app_client a')) \<le> 6"
proof -
  let ?as = "[\<lparr>address = ''x'', addr_length = 1, family = 2\<rparr>]"
  obtain a where a: "new_app default_options True (\<lambda>_. True) int (\<lambda>_. 0) (Inr ?as) (Inr ?as) True None 0 = Inr a"
    by (simp add: new_app_def default_options_def Resolve_def new_connection_def)
  from client_rounds_end [OF a, of "[(sample_round 0)\<lparr>pr_keys := ''3/ab''\<rparr>, (sample_round 1)\<lparr>pr_keys := ''q''\<rparr>]"] a
  show ?thesis by (auto simp: client_ok_def view_ok_def)
qed

end
