(* ===== verification/Server_Run.thy ===== *)
theory Server_Run
  imports Server_App Reactor_Run
begin

text \<open>
  The running server: the sampling worker and the reactor together. \<open>Reactor_Run_loop\<close> is \<^verbatim>\<open>Reactor::Run\<close> with
  the worker running beside it. The two threads share only the published generation, an atomic pointer, so
  that an interleaving is determined by how many samples are finished before each event is handled: an
  event carries the samples (\<open>tick\<close>) that the worker finishes before it.
\<close>

section \<open>The loop\<close>

datatype epoll_answer = Events_ready "(tick list \<times> env \<times> event) list" | Epoll_error errno

datatype run_end = Waiting | Stopped | Threw exn

text \<open>What the events of one \<^verbatim>\<open>epoll_wait\<close> find published, and what the worker publishes meanwhile.\<close>

fun during :: "ServerConfig \<Rightarrow> string \<Rightarrow> (tick list \<times> env \<times> event) list \<Rightarrow> Worker \<Rightarrow> (env \<times> event) list \<times> PublishedSnapshot list \<times> Worker" where
  "during c ident [] w = ([], [], w)"
| "during c ident ((ts, e, ev) # items) w =
     (let (gs, w1) = worker_loop c ident ts w; (evs, hs, w2) = during c ident items w1
      in ((e\<lparr>latest := wk_state w1\<rparr>, ev) # evs, gs @ hs, w2))"

fun Reactor_Run_loop :: "ServerConfig \<Rightarrow> string \<Rightarrow> epoll_answer list \<Rightarrow> Worker \<Rightarrow> Reactor \<Rightarrow> run_end \<times> PublishedSnapshot list \<times> Worker \<times> Reactor" where
  "Reactor_Run_loop c ident [] w r = (Waiting, [], w, r)"
| "Reactor_Run_loop c ident (Epoll_error err # answers) w r =
     (if err = EINTR then Reactor_Run_loop c ident answers w r else (Threw (System_error 0 ''epoll_wait''), [], w, r))"
| "Reactor_Run_loop c ident (Events_ready items # answers) w r =
     (let (evs, gs, w1) = during c ident items w
      in case run_round evs r of
           Inl e \<Rightarrow> (Threw e, gs, w1, r)
         | Inr (True, r1) \<Rightarrow> (Stopped, gs, w1, r1)
         | Inr (False, r1) \<Rightarrow>
             let (fin, hs, w2, r2) = Reactor_Run_loop c ident answers w1 r1 in (fin, gs @ hs, w2, r2))"

section \<open>What a run publishes and serves\<close>

lemma generation_frame: "generation_ok g \<Longrightarrow> valid_payload (json g) \<and> frame g = frame_bytes (json g)"
  by (auto simp: generation_ok_def Frame_Inr)

text \<open>The samples of a run, and what is assumed of them and of the events.\<close>

fun answer_ticks :: "epoll_answer \<Rightarrow> tick list" where
  "answer_ticks (Events_ready items) = concat (map fst items)"
| "answer_ticks (Epoll_error err) = []"

definition tick_ok :: "ServerConfig \<Rightarrow> tick \<Rightarrow> bool" where
  "tick_ok c t \<longleftrightarrow> source_sane (linux_source c (t_kernel t)) \<and> \<not> t_stop_before t \<and> \<not> t_stop_after t"

fun answer_ok :: "epoll_answer \<Rightarrow> bool" where
  "answer_ok (Events_ready items) = list_all (\<lambda>(ts, e, ev). calls_ok e \<and> distinct (order e)) items"
| "answer_ok (Epoll_error err) = (err = EINTR)"

lemma worker_loop_append:
  "list_all (tick_ok c) ts \<Longrightarrow> worker_loop c ident (ts @ us) w =
     (let (gs, w1) = worker_loop c ident ts w; (hs, w2) = worker_loop c ident us w1 in (gs @ hs, w2))"
proof (induction ts arbitrary: w)
  case (Cons t ts)
  obtain p w1 where S: "worker_step c ident t w = (False, p, w1)"
    using worker_step_stops [of c ident t w] Cons.prems by (cases "worker_step c ident t w") (simp add: tick_ok_def)
  with Cons show ?case by (simp add: tick_ok_def split: prod.splits)
qed simp

text \<open>
  The state of the server after the samples \<open>T\<close>, with everything published in \<open>G\<close>, when \<open>hs\<close> lists the
  generations that were the latest when the events were handled.
\<close>

definition running :: "ServerConfig \<Rightarrow> string \<Rightarrow> int \<Rightarrow> Worker \<Rightarrow> tick list \<Rightarrow> PublishedSnapshot list \<Rightarrow> PublishedSnapshot list \<Rightarrow> Worker \<Rightarrow> Reactor \<Rightarrow> bool" where
  "running c ident t w0 T G hs w r \<longleftrightarrow>
     worker_loop c ident T w0 = (G, w) \<and> list_all (tick_ok c) T \<and> set hs \<subseteq> set G \<and>
     sorted_wrt (\<lambda>g h. seq_of g \<le> seq_of h) hs \<and> serves c t (map frame hs) r"

definition started_well :: "ServerConfig \<Rightarrow> string \<Rightarrow> Worker \<Rightarrow> bool" where
  "started_well c ident w \<longleftrightarrow> Validate c = Inr () \<and> ident \<noteq> [] \<and> worker_ok c w \<and> wk_sequence w = 0 \<and> wk_state w = None"

lemma worker_facts:
  assumes "started_well c ident w0" "worker_loop c ident T w0 = (G, w)" "list_all (tick_ok c) T" "length T < 2 ^ 64"
  shows "list_all (good_generation ident) G" "sorted_wrt (\<lambda>g h. seq_of g < seq_of h) G" "wk_state w = (if G = [] then None else Some (last G))"
  using worker_loop_ok [of c ident T w0 G w] assms by (auto simp: started_well_def list_all_iff tick_ok_def)

lemma last_largest: "sorted_wrt (\<lambda>g h. seq_of g < seq_of h) G \<Longrightarrow> g \<in> set G \<Longrightarrow> seq_of g \<le> seq_of (last G)"
  by (induction G rule: rev_induct) (auto simp: sorted_wrt_append)

lemma during_running:
  assumes "started_well c ident w0" "during c ident items w = (evs, gs, w')" "worker_loop c ident T w0 = (G, w)"
    and "list_all (tick_ok c) (T @ concat (map fst items))" "length (T @ concat (map fst items)) < 2 ^ 64"
    and "list_all (\<lambda>(ts, e, ev). calls_ok e \<and> distinct (order e)) items"
    and "set hs \<subseteq> set G" "sorted_wrt (\<lambda>g h. seq_of g \<le> seq_of h) hs"
  shows "worker_loop c ident (T @ concat (map fst items)) w0 = (G @ gs, w') \<and> events_ok evs \<and>
    (\<exists>ls. frames_seen evs = map frame ls \<and> set (hs @ ls) \<subseteq> set (G @ gs) \<and> sorted_wrt (\<lambda>g h. seq_of g \<le> seq_of h) (hs @ ls))"
  using assms(2-)
proof (induction items arbitrary: T G w evs gs hs)
  case Nil
  then show ?case by (auto simp: frames_seen_def)
next
  case (Cons item items)
  obtain ts e ev where item: "item = (ts, e, ev)" by (metis prod_cases3)
  obtain gs1 w1 where L: "worker_loop c ident ts w = (gs1, w1)" by fastforce
  obtain evs2 gs2 where D: "during c ident items w1 = (evs2, gs2, w')" "evs = (e\<lparr>latest := wk_state w1\<rparr>, ev) # evs2" "gs = gs1 @ gs2"
    using Cons.prems(1) L by (auto simp: item split: prod.splits)
  have T: "worker_loop c ident (T @ ts) w0 = (G @ gs1, w1)" using worker_loop_append [of c T ident ts w0] Cons.prems(2,3) L by simp
  have facts: "list_all (good_generation ident) (G @ gs1)" "sorted_wrt (\<lambda>g h. seq_of g < seq_of h) (G @ gs1)"
    "wk_state w1 = (if G @ gs1 = [] then None else Some (last (G @ gs1)))"
    using worker_facts [OF assms(1) T] Cons.prems(3,4) by (simp_all add: item)
  let ?l = "if G @ gs1 = [] then [] else [last (G @ gs1)]"
  have "seq_of g \<le> seq_of (last (G @ gs1))" if "g \<in> set hs" for g
    using last_largest [OF facts(2), of g] that Cons.prems(6) by auto
  then have sorted: "sorted_wrt (\<lambda>g h. seq_of g \<le> seq_of h) (hs @ ?l)" "set (hs @ ?l) \<subseteq> set (G @ gs1)"
    using Cons.prems(6,7) last_in_set [of "G @ gs1"] by (auto simp: sorted_wrt_append simp del: last_append last_in_set)
  have IH: "worker_loop c ident ((T @ ts) @ concat (map fst items)) w0 = ((G @ gs1) @ gs2, w') \<and> events_ok evs2 \<and>
    (\<exists>ls. frames_seen evs2 = map frame ls \<and> set ((hs @ ?l) @ ls) \<subseteq> set ((G @ gs1) @ gs2) \<and> sorted_wrt (\<lambda>g h. seq_of g \<le> seq_of h) ((hs @ ?l) @ ls))"
    using Cons.prems(3-5) sorted by (intro Cons.IH [OF D(1) T]) (simp_all add: item)
  moreover have "seen_frames (e\<lparr>latest := wk_state w1\<rparr>) = map frame ?l" using facts(3) by (simp add: seen_frames_def)
  moreover have "env_ok (e\<lparr>latest := wk_state w1\<rparr>)"
    using facts(1,3) Cons.prems(5) last_in_set [of "G @ gs1"]
    by (auto simp: env_ok_def item good_generation_def list_all_iff simp del: last_append last_in_set)
  ultimately show ?case
    using D by (auto simp: item frames_seen_def intro!: exI [of _ "?l @ _"])
qed

lemma loop_running:
  assumes "started_well c ident w0" "running c ident t w0 T G hs w r" "list_all answer_ok answers"
    and "list_all (tick_ok c) (concat (map answer_ticks answers))" "length (T @ concat (map answer_ticks answers)) < 2 ^ 64"
    and "Reactor_Run_loop c ident answers w r = (fin, gs, w', r')"
  shows "fin = Waiting \<and> (\<exists>ls. running c ident t w0 (T @ concat (map answer_ticks answers)) (G @ gs) (hs @ ls) w' r') \<or>
    fin = Stopped \<and> sessions r' = [] \<and> queued_bytes r' = 0 \<and>
      (\<exists>T'. worker_loop c ident T' w0 = (G @ gs, w') \<and> list_all (tick_ok c) T' \<and> length T' < 2 ^ 64)"
  using assms(2-)
proof (induction answers arbitrary: T G hs w r gs)
  case Nil
  then show ?case by (auto intro!: exI [of _ "[]"])
next
  case (Cons answer answers)
  show ?case
  proof (cases answer)
    case (Epoll_error err)
    with Cons show ?thesis by simp
  next
    case (Events_ready items)
    obtain evs gs1 w1 where D: "during c ident items w = (evs, gs1, w1)" by (metis prod_cases3)
    note run = Cons.prems(1) [unfolded running_def]
    have T: "list_all (tick_ok c) (T @ concat (map fst items))" "length (T @ concat (map fst items)) < 2 ^ 64"
      using run Cons.prems(3,4) Events_ready by simp_all
    obtain ls where ls: "worker_loop c ident (T @ concat (map fst items)) w0 = (G @ gs1, w1)" "events_ok evs"
      "frames_seen evs = map frame ls" "set (hs @ ls) \<subseteq> set (G @ gs1)" "sorted_wrt (\<lambda>g h. seq_of g \<le> seq_of h) (hs @ ls)"
      using during_running [OF assms(1) D, of T G hs] run T Cons.prems(2) Events_ready by auto
    have serves: "serves c t (map frame hs) r" using run by blast
    from serves_inv [OF this] ls(2) show ?thesis
    proof (cases rule: run_round_cases)
      case (stop r1)
      then show ?thesis using Cons.prems(5) D Events_ready ls(1) T by auto
    next
      case (next_round r1)
      have "serves c t (map frame (hs @ ls)) r1" using serves.round [OF serves ls(2) next_round(1)] ls(3) by simp
      then have r1: "running c ident t w0 (T @ concat (map fst items)) (G @ gs1) (hs @ ls) w1 r1"
        using ls T by (simp add: running_def)
      obtain gs2 where L: "Reactor_Run_loop c ident answers w1 r1 = (fin, gs2, w', r')" "gs = gs1 @ gs2"
        using Cons.prems(5) D Events_ready next_round(1) by (auto split: prod.splits)
      have "length ((T @ concat (map fst items)) @ concat (map answer_ticks answers)) < 2 ^ 64"
        "list_all answer_ok answers" "list_all (tick_ok c) (concat (map answer_ticks answers))"
        using Cons.prems(2-4) Events_ready by simp_all
      from Cons.IH [OF r1 this(2,3,1) L(1)] show ?thesis using L(2) Events_ready by (auto; metis append.assoc)
    qed
  qed
qed

text \<open>A run ends exactly on a signal.\<close>

definition signalled :: "epoll_answer list \<Rightarrow> bool" where
  "signalled answers = list_ex (\<lambda>a. case a of
      Events_ready items \<Rightarrow> list_ex (\<lambda>(ts, e, ev). token ev = kSignal) items | Epoll_error err \<Rightarrow> False) answers"

lemma during_events: "during c ident items w = (evs, gs, w') \<Longrightarrow>
    list_ex (\<lambda>(e, ev). token ev = kSignal) evs \<longleftrightarrow> list_ex (\<lambda>(ts, e, ev). token ev = kSignal) items"
proof (induction items arbitrary: w evs gs)
  case (Cons item items)
  obtain ts e ev where item: "item = (ts, e, ev)" by (metis prod_cases3)
  obtain w1 evs2 hs where "during c ident items w1 = (evs2, hs, w')" "evs = (e\<lparr>latest := wk_state w1\<rparr>, ev) # evs2"
    using Cons.prems by (auto simp: item split: prod.splits)
  with Cons.IH show ?case by (simp add: item)
qed simp

lemma run_round_ends: "run_round evs r = Inr (stop, r') \<Longrightarrow> stop \<longleftrightarrow> list_ex (\<lambda>(e, ev). token ev = kSignal) evs"
  by (auto simp: run_round_def rbind_Inr split: if_splits)

lemma loop_ends: "Reactor_Run_loop c ident answers w r = (fin, gs, w', r') \<Longrightarrow> fin = Waiting \<or> fin = Stopped \<Longrightarrow> fin = Stopped \<longleftrightarrow> signalled answers"
proof (induction c ident answers w r arbitrary: gs rule: Reactor_Run_loop.induct)
  case (3 c ident items answers w r)
  obtain evs gs1 w1 where D: "during c ident items w = (evs, gs1, w1)" by (metis prod_cases3)
  obtain stop r1 where R: "run_round evs r = Inr (stop, r1)" using "3.prems" D by (cases "run_round evs r") auto
  note e = run_round_ends [OF R] during_events [OF D]
  show ?case
  proof (cases stop)
    case True
    then show ?thesis using "3.prems" D R e by (auto simp: signalled_def)
  next
    case False
    then obtain gs2 where "Reactor_Run_loop c ident answers w1 r1 = (fin, gs2, w', r')" using "3.prems"(1) D R by (auto split: prod.splits)
    with "3.IH" [OF D [symmetric] refl refl] R False "3.prems"(2) e show ?thesis by (auto simp: signalled_def)
  qed
qed (auto simp: signalled_def split: if_splits)

lemma start_running: "started_well c ident w \<Longrightarrow> running c ident t w [] [] [] w (init_reactor c t)"
  using serves.start [of c t] by (simp add: running_def)

lemma start_worker_well:
  assumes "Validate c = Inr ()" "ident \<noteq> []" "new_collector c src hz pages host = Inr m" "hz < 2 ^ 63"
  shows "started_well c ident (start_worker t0 m)"
  using assms by (auto simp: started_well_def worker_ok_def start_worker_def new_collector_def collector_inv_def sample_shape_def Let_def split: if_splits)

end
