(* ===== verification/Snapshot_Repair.thy ===== *)
theory Snapshot_Repair
  imports Protocol
begin

text \<open>
  Texts that are not UTF-8. File names, process names and host names are bytes; the serializer writes a byte that
  is not part of a UTF-8 sequence as the escape of the character with that number. \<open>repair_snapshot\<close> is the snapshot with
  every text read that way, and it is what \<open>Decode\<close> returns from the encoding of any snapshot.
\<close>

section \<open>Repairing texts\<close>

lemma valid_repair [simp]: "valid_utf8 (repair s)"
proof (induction s rule: repair.induct)
  case (2 c cs)
  show ?case
  proof (cases "128 \<le> byte c \<and> Utf8Length (c # cs) \<noteq> 0")
    case True
    then obtain n where "scalar n" "take (Utf8Length (c # cs)) (c # cs) = utf8 n" using Utf8Length_sound [OF refl] by blast
    with 2 True show ?thesis by (simp add: Let_def valid_utf8_app)
  next
    case False
    with 2 False scalar_byte [of "byte c"] show ?thesis by (auto simp: Let_def intro: valid_utf8_app valid_utf8_Cons)
  qed
qed simp

lemma repair_repair [simp]: "repair (repair s) = repair s"
  by (rule repair_valid) simp

lemma repair_empty [simp]: "repair s = [] \<longleftrightarrow> s = []"
  by (cases s) (auto simp: Let_def)

section \<open>Repairing a snapshot\<close>

definition repair_pressure :: "PressureMetrics \<Rightarrow> PressureMetrics" where
  "repair_pressure p = p\<lparr>resource := repair (resource p)\<rparr>"

definition repair_status :: "SampleStatus \<Rightarrow> SampleStatus" where
  "repair_status s = s\<lparr>ss_name := repair (ss_name s), ss_state := repair (ss_state s), ss_error := repair (ss_error s)\<rparr>"

definition repair_interface :: "InterfaceMetrics \<Rightarrow> InterfaceMetrics" where
  "repair_interface m = m\<lparr>if_name := repair (if_name m)\<rparr>"

definition repair_disk_io :: "DiskIoMetrics \<Rightarrow> DiskIoMetrics" where
  "repair_disk_io m = m\<lparr>device := repair (device m)\<rparr>"

definition repair_cgroup :: "CgroupMetrics \<Rightarrow> CgroupMetrics" where
  "repair_cgroup m = m\<lparr>cg_path := repair (cg_path m), cg_state := repair (cg_state m), cg_pressure := map repair_pressure (cg_pressure m)\<rparr>"

definition repair_telemetry :: "TelemetryInfo \<Rightarrow> TelemetryInfo" where
  "repair_telemetry t = t\<lparr>instance_id := repair (instance_id t), boot_id := repair (boot_id t), hostname := repair (hostname t),
     collectors := map repair_status (collectors t), interfaces := map repair_interface (interfaces t),
     disks := map repair_disk_io (disks t), pressure := map repair_pressure (pressure t), cgroup := repair_cgroup (cgroup t)\<rparr>"

definition repair_info :: "ProcessInfo \<Rightarrow> ProcessInfo" where
  "repair_info p = p\<lparr>proc_name := repair (proc_name p)\<rparr>"

definition repair_snapshot :: "SystemSnapshot \<Rightarrow> SystemSnapshot" where
  "repair_snapshot s = s\<lparr>telemetry := repair_telemetry (telemetry s),
     process := (process s)\<lparr>processes := map repair_info (processes (process s))\<rparr>\<rparr>"

lemma norm_repaired [simp]:
  "norm (PressureMetrics_ToJson (repair_pressure p)) = norm (PressureMetrics_ToJson p)"
  "norm (SampleStatus_ToJson (repair_status st)) = norm (SampleStatus_ToJson st)"
  "norm (InterfaceMetrics_ToJson (repair_interface i)) = norm (InterfaceMetrics_ToJson i)"
  "norm (DiskIoMetrics_ToJson (repair_disk_io d)) = norm (DiskIoMetrics_ToJson d)"
  "norm (ProcessInfo_ToJson (repair_info x)) = norm (ProcessInfo_ToJson x)"
  by (simp_all add: PressureMetrics_ToJson_def repair_pressure_def SampleStatus_ToJson_def repair_status_def
      InterfaceMetrics_ToJson_def repair_interface_def DiskIoMetrics_ToJson_def repair_disk_io_def ProcessInfo_ToJson_def repair_info_def)

lemma norm_repaired_cgroup [simp]: "norm (CgroupMetrics_ToJson (repair_cgroup m)) = norm (CgroupMetrics_ToJson m)"
  by (simp add: CgroupMetrics_ToJson_def repair_cgroup_def List_of_def comp_def)

lemma norm_repaired_telemetry [simp]: "norm (TelemetryInfo_ToJson (repair_telemetry t)) = norm (TelemetryInfo_ToJson t)"
  by (simp add: TelemetryInfo_ToJson_def repair_telemetry_def List_of_def comp_def)

lemma norm_repaired_wire: "norm (wire_json (repair_snapshot s)) = norm (wire_json s)"
  by (simp add: wire_json_def SystemSnapshot_members_def repair_snapshot_def ProcessMetrics_ToJson_def comp_def)

text \<open>What the limits of the parser depend on is the same for both: everything but the texts.\<close>

fun blank :: "JSONValue \<Rightarrow> JSONValue" where
  "blank (JString s) = JString []"
| "blank (JArray vs) = JArray (map blank vs)"
| "blank (JObject ms) = JObject (map (\<lambda>(k, v). (k, blank v)) ms)"
| "blank v = v"

lemma blank_measures: "wf_doubles (blank v) = wf_doubles v" "printable (blank v) = printable v" "json_depth (blank v) = json_depth v"
  "json_nodes (blank v) = json_nodes v"
proof (induction v rule: blank.induct)
  case (2 vs)
  have "foldr (\<lambda>v. max (json_depth v)) (map blank vs) 0 = foldr (\<lambda>v. max (json_depth v)) vs 0"
    using 2(3) by (induction vs) simp_all
  moreover have "(\<Sum>x \<leftarrow> vs. json_nodes (blank x)) = sum_list (map json_nodes vs)" using 2(4) by (induction vs) simp_all
  ultimately show "wf_doubles (blank (JArray vs)) = wf_doubles (JArray vs)" "printable (blank (JArray vs)) = printable (JArray vs)"
    "json_depth (blank (JArray vs)) = json_depth (JArray vs)" "json_nodes (blank (JArray vs)) = json_nodes (JArray vs)"
    using 2 by (auto simp: list_all_iff comp_def)
next
  case (3 ms)
  have ih: "wf_doubles (blank v) = wf_doubles v \<and> printable (blank v) = printable v" "json_depth (blank v) = json_depth v"
    "json_nodes (blank v) = json_nodes v" if "(k, v) \<in> set ms" for k v
    using 3(1-4) [OF that refl] by simp_all
  have all: "\<forall>m \<in> set ms. json_depth (blank (snd m)) = json_depth (snd m) \<and> json_nodes (blank (snd m)) = json_nodes (snd m)"
    using ih(2,3) by auto
  have "foldr (\<lambda>(k, v). max (json_depth v)) (map (\<lambda>(k, v). (k, blank v)) ms) 0 = foldr (\<lambda>(k, v). max (json_depth v)) ms 0"
    using all by (induction ms) auto
  moreover have "(\<Sum>x \<leftarrow> ms. case case x of (k, v) \<Rightarrow> (k, blank v) of (k, v) \<Rightarrow> json_nodes v) = (\<Sum>(k, v) \<leftarrow> ms. json_nodes v)"
    using all by (induction ms) auto
  moreover have key: "(\<lambda>x. repair (fst (case x of (k, v) \<Rightarrow> (k, blank v)))) = (\<lambda>x. repair (fst x))" by (auto simp: fun_eq_iff)
  ultimately show "wf_doubles (blank (JObject ms)) = wf_doubles (JObject ms)" "printable (blank (JObject ms)) = printable (JObject ms)"
    "json_depth (blank (JObject ms)) = json_depth (JObject ms)" "json_nodes (blank (JObject ms)) = json_nodes (JObject ms)"
    using ih(1) by (auto simp: list_all_iff comp_def key)
qed simp_all

lemma blank_repaired [simp]:
  "blank (PressureMetrics_ToJson (repair_pressure p)) = blank (PressureMetrics_ToJson p)"
  "blank (SampleStatus_ToJson (repair_status st)) = blank (SampleStatus_ToJson st)"
  "blank (InterfaceMetrics_ToJson (repair_interface i)) = blank (InterfaceMetrics_ToJson i)"
  "blank (DiskIoMetrics_ToJson (repair_disk_io d)) = blank (DiskIoMetrics_ToJson d)"
  "blank (ProcessInfo_ToJson (repair_info x)) = blank (ProcessInfo_ToJson x)"
  by (simp_all add: PressureMetrics_ToJson_def repair_pressure_def SampleStatus_ToJson_def repair_status_def
      InterfaceMetrics_ToJson_def repair_interface_def DiskIoMetrics_ToJson_def repair_disk_io_def ProcessInfo_ToJson_def repair_info_def)

lemma blank_repaired_cgroup [simp]: "blank (CgroupMetrics_ToJson (repair_cgroup m)) = blank (CgroupMetrics_ToJson m)"
  by (simp add: CgroupMetrics_ToJson_def repair_cgroup_def List_of_def comp_def)

lemma blank_repaired_telemetry [simp]: "blank (TelemetryInfo_ToJson (repair_telemetry t)) = blank (TelemetryInfo_ToJson t)"
  by (simp add: TelemetryInfo_ToJson_def repair_telemetry_def List_of_def comp_def)

lemma blank_repaired_wire: "blank (wire_json (repair_snapshot s)) = blank (wire_json s)"
  by (simp add: wire_json_def SystemSnapshot_members_def repair_snapshot_def ProcessMetrics_ToJson_def comp_def)

lemma valid_repaired: "snapshot_valid s \<Longrightarrow> snapshot_valid (repair_snapshot s)"
  by (auto simp: snapshot_valid_def repair_snapshot_def repair_telemetry_def list_all_iff info_valid_def repair_info_def)

text \<open>\<open>Decode\<close> on the encoding of a snapshot with any texts.\<close>

lemma decode_repaired:
  assumes "snapshot_ok (repair_snapshot s)" "snapshot_valid s" "Encode s = Inr out"
    and "length out \<le> kMaxPayload" "json_nodes (wire_json s) \<le> 1000000"
  shows "Decode out = Inr (repair_snapshot s)"
proof -
  let ?w = "wire_json (repair_snapshot s)"
  have v: "snapshot_valid (repair_snapshot s)" by (rule valid_repaired [OF assms(2)])
  have "wf_doubles ?w" "printable ?w" "json_depth ?w \<le> 64" using fine_wire [OF assms(1)] by (auto simp: fine_def)
  then have f: "wf_doubles (wire_json s)" "printable (wire_json s)" "json_depth (wire_json s) \<le> 64"
    using blank_measures [of ?w] blank_measures [of "wire_json s"] by (simp_all add: blank_repaired_wire)
  have "ToString (wire_json s) (- 1) = Inr out" using assms(3) by (simp add: Encode_def wire_json_def Add_def)
  then have "Parse out = Some (norm ?w)"
    using f assms(4,5) unfolding norm_repaired_wire by (intro Parse_printed) (simp_all add: kMaxPayload_def)
  moreover have "SystemSnapshot_FromJson (norm ?w) = repair_snapshot s"
    unfolding wire_json_def by (rule snapshot_codec [OF assms(1)]) simp
  moreover have "metric_range_ok (repair_snapshot s)"
    using v by (simp add: metric_range_ok_def snapshot_valid_def percent_valid_def)
  ultimately show ?thesis using wire_validates [OF assms(1) v] by (simp add: Decode_def)
qed

end
