(* ===== verification/Sample_Run.thy ===== *)
theory Sample_Run
  imports Server_Run Snapshot_Repair
begin

text \<open>
  A concrete run of the server, for use at concrete inputs: a machine without readable files. The worker publishes
  one snapshot in which every collector is unavailable, a stream client and an HTTP client connect, and the stream client is sent the frame.
\<close>

section \<open>The sample\<close>

definition silent_kernel :: kernel where
  "silent_kernel = blank_kernel\<lparr>k_strerror := (\<lambda>_. [])\<rparr>"

definition unavailable :: "string \<Rightarrow> string \<Rightarrow> SampleStatus" where
  "unavailable name what = \<lparr>ss_name = name, ss_state = ''unavailable'', ss_error = what, ss_duration_us = 7\<rparr>"

definition no_pressure :: "string \<Rightarrow> PressureMetrics" where
  "no_pressure r = \<lparr>resource = r, some_avg10 = None, some_avg60 = None, some_avg300 = None, full_avg10 = None\<rparr>"

definition silent_snapshot :: SystemSnapshot where
  "silent_snapshot = default_snapshot\<lparr>timestamp := 1000, telemetry := default_telemetry\<lparr>interval_ms := 1000, sequence := 1, instance_id := ''a'',
     collection_started_at := 1000, collection_finished_at := 1001, collection_us := 9,
     collectors := map (\<lambda>n. unavailable n [])
       [''cpu'', ''memory'', ''processes'', ''network'', ''disk_io'', ''filesystem'', ''load''] @ [unavailable ''psi'' []],
     pressure := map no_pressure [''cpu'', ''memory'', ''io'']\<rparr>\<rparr>"

abbreviation silent_source :: LinuxSource where
  "silent_source \<equiv> linux_source default_config silent_kernel"

definition fails :: "(MetricsCollector \<Rightarrow> SystemSnapshot \<Rightarrow> outcome) \<Rightarrow> bool" where
  "fails action \<longleftrightarrow> (\<forall>m s. \<exists>m'. action m s = (Some [], m', s))"

definition with_status :: "SampleStatus \<Rightarrow> SystemSnapshot \<Rightarrow> SystemSnapshot" where
  "with_status x s = s\<lparr>telemetry := (telemetry s)\<lparr>collectors := collectors (telemetry s) @ [x]\<rparr>\<rparr>"

lemma collect_failed: "fails action \<Longrightarrow> \<exists>m'. collect (\<lambda>_. 7) name action (m, s) = (m', with_status (unavailable name []) s)"
proof -
  assume "fails action"
  then obtain m' where "action m (with_status \<lparr>ss_name = name, ss_state = ''ok'', ss_error = [], ss_duration_us = 0\<rparr> s) =
      (Some [], m', with_status \<lparr>ss_name = name, ss_state = ''ok'', ss_error = [], ss_duration_us = 0\<rparr> s)" unfolding fails_def by blast
  then show ?thesis by (simp add: collect_def with_status_def unavailable_def upd_status_def set_last_def)
qed

lemma silent_actions:
  "fails (Cpu silent_source)" "fails (Memory silent_source)" "fails (Processes silent_source stp)" "fails (Network silent_source)"
  "fails (Disk silent_source)" "fails (Filesystem silent_source)" "fails (Load silent_source)"
  by (simp_all add: fails_def Cpu_def Memory_def Processes_def Network_def Disk_def Filesystem_def Load_def linux_source_def silent_kernel_def blank_kernel_def
      Read_file_def file_ok_def list_pids_def)

lemma silent_pressure:
  "collect (\<lambda>_. 7) ''psi'' (Pressure silent_source) (m, s) =
     (m, with_status (unavailable ''psi'' []) (s\<lparr>telemetry := (telemetry s)\<lparr>pressure := pressure (telemetry s) @ map no_pressure resources\<rparr>\<rparr>))"
proof -
  have p: "ParsePressure r [] = no_pressure r" for r
    by (simp add: ParsePressure_def pressure_lines.simps NextLine_def no_pressure_def)
  have "map (\<lambda>r. ParsePressure r (text_if_ok (Proc silent_source (''pressure/'' @ r)))) resources = map no_pressure resources"
    by (simp add: linux_source_def silent_kernel_def blank_kernel_def Read_file_def file_ok_def text_if_ok_def p)
  then show ?thesis
    by (simp add: collect_def Pressure_def Let_def State_def with_status_def unavailable_def upd_status_def set_last_def no_pressure_def resources_def)
qed

lemma silent_collect:
  assumes "mc_config m = default_config" "mc_boot_id m = []" "mc_hostname m = []"
  shows "number_snapshot 1 ''a'' 0 (snd (Collect silent_source sample_clocks m)) = silent_snapshot"
proof -
  note c = collect_failed [OF silent_actions(1)] collect_failed [OF silent_actions(2)] collect_failed [OF silent_actions(3)] collect_failed [OF silent_actions(4)]
    collect_failed [OF silent_actions(5)] collect_failed [OF silent_actions(6)] collect_failed [OF silent_actions(7)]
  let ?s0 = "start_snapshot sample_clocks m" and ?u = "\<lambda>n. unavailable n []"
  obtain m1 where 1: "collect (\<lambda>_. 7) ''cpu'' (Cpu silent_source) (m\<lparr>mc_seconds := elapsed_seconds 5 (previous_time m)\<rparr>, ?s0) = (m1, with_status (?u ''cpu'') ?s0)"
    using c(1) by blast
  let ?s1 = "with_status (?u ''cpu'') ?s0"
  obtain m2 where 2: "collect (\<lambda>_. 7) ''memory'' (Memory silent_source) (m1, ?s1) = (m2, with_status (?u ''memory'') ?s1)" using c(2) by blast
  let ?s2 = "with_status (?u ''memory'') ?s1"
  obtain m3 where 3: "collect (\<lambda>_. 7) ''processes'' (Processes silent_source (\<lambda>_. False)) (m2, ?s2) = (m3, with_status (?u ''processes'') ?s2)" using c(3) by blast
  let ?s3 = "with_status (?u ''processes'') ?s2"
  obtain m4 where 4: "collect (\<lambda>_. 7) ''network'' (Network silent_source) (m3, ?s3) = (m4, with_status (?u ''network'') ?s3)" using c(4) by blast
  let ?s4 = "with_status (?u ''network'') ?s3"
  obtain m5 where 5: "collect (\<lambda>_. 7) ''disk_io'' (Disk silent_source) (m4, ?s4) = (m5, with_status (?u ''disk_io'') ?s4)" using c(5) by blast
  let ?s5 = "with_status (?u ''disk_io'') ?s4"
  obtain m6 where 6: "collect (\<lambda>_. 7) ''filesystem'' (Filesystem silent_source) (m5, ?s5) = (m6, with_status (?u ''filesystem'') ?s5)" using c(6) by blast
  let ?s6 = "with_status (?u ''filesystem'') ?s5"
  obtain m7 where 7: "collect (\<lambda>_. 7) ''load'' (Load silent_source) (m6, ?s6) = (m7, with_status (?u ''load'') ?s6)" using c(7) by blast
  have clocks: "duration_us_of sample_clocks = (\<lambda>_. 7)" "stop_requested sample_clocks = (\<lambda>_. False)" "steady_now sample_clocks = 5"
    by (simp_all add: sample_clocks_def)
  have path: "cgroup_path (mc_config m) = []" using assms(1) by (simp add: default_config_def)
  show ?thesis
    unfolding Collect_def clocks Let_def 1 2 3 4 5 6 7 silent_pressure path
    using assms by (simp add: number_snapshot_def silent_snapshot_def with_status_def start_snapshot_def sample_clocks_def default_config_def
        default_snapshot_def default_telemetry_def resources_def no_pressure_def)
qed

lemma silent_encodes: "\<exists>out. Encode silent_snapshot = Inr out \<and> length out \<le> 4000"
proof -
  have "(case Encode silent_snapshot of Inr out \<Rightarrow> foldl (\<lambda>n _. n + 1) (0 :: int) out \<le> 4000 | Inl _ \<Rightarrow> False)" by code_simp
  then show ?thesis by (auto simp: foldl_count split: sum.splits)
qed

lemma silent_readable: "repair_snapshot silent_snapshot = silent_snapshot" "snapshot_ok silent_snapshot" "json_nodes (wire_json silent_snapshot) \<le> 1000000"
  by (simp_all add: silent_snapshot_def unavailable_def no_pressure_def default_snapshot_def default_telemetry_def default_cgroup_def default_cpu_def
      default_memory_def default_disk_def default_network_def default_loadavg_def default_process_def
      snapshot_ok_def telemetry_ok_def cgroup_ok_def cpu_ok_def memory_ok_def disk_ok_def network_ok_def loadavg_ok_def
      process_ok_def valid_utf8_ascii repair_snapshot_def repair_telemetry_def repair_cgroup_def repair_ascii
      wire_json_def SystemSnapshot_members_def TelemetryInfo_ToJson_def CgroupMetrics_ToJson_def CPUMetrics_ToJson_def
      MemoryMetrics_ToJson_def DiskMetrics_ToJson_def NetworkMetrics_ToJson_def LoadavgMetrics_ToJson_def ProcessMetrics_ToJson_def repair_status_def repair_pressure_def status_ok_def pressure_ok_def SampleStatus_ToJson_def PressureMetrics_ToJson_def
      List_of_def make_opt_def digits_val_def)
section \<open>The run\<close>

definition silent_tick :: tick where
  "silent_tick = sample_tick\<lparr>t_kernel := silent_kernel\<rparr>"

lemma silent_published: "\<exists>g. Publish silent_snapshot b n = Inr g \<and> generation_ok g \<and> snapshot g = silent_snapshot \<and> length (json g) \<le> 4000"
proof -
  obtain js where js: "Encode silent_snapshot = Inr js" "length js \<le> 4000" using silent_encodes by blast
  moreover have "js \<noteq> []" using js(1) by (auto simp: Encode_def ToString_def rbind_Inr split: if_splits)
  ultimately obtain fr where fr: "Frame js = Inr fr" by (simp add: Frame_def kMaxPayload_def)
  have "(case ToString (processes_document silent_snapshot) (- 1) of Inr _ \<Rightarrow> True | Inl _ \<Rightarrow> False)" by code_simp
  then obtain ps where "ToString (processes_document silent_snapshot) (- 1) = Inr ps" by (auto split: sum.splits)
  with js fr show ?thesis by (auto simp: Publish_def generation_ok_def)
qed

lemma silent_tick_ok: "tick_ok default_config silent_tick"
proof -
  have "ParseCpu [] = []" by code_simp
  moreover have "KeyValues [] = []" by (simp add: KeyValues_def getlines.simps)
  ultimately show ?thesis
    by (simp add: tick_ok_def silent_tick_def sample_tick_def silent_kernel_def blank_kernel_def source_sane_def linux_source_def Read_file_def list_pids_def)
qed

lemma silent_worker:
  assumes "new_collector default_config silent_source 100 4096 None = Inr m"
  shows "\<exists>g w. worker_loop default_config ''a'' [silent_tick] (start_worker 0 m) = ([g], w) \<and> wk_state w = Some g \<and>
    generation_ok g \<and> snapshot g = silent_snapshot \<and> length (json g) \<le> 4000"
proof -
  obtain g where g: "Publish silent_snapshot 7 8 = Inr g" "generation_ok g" "snapshot g = silent_snapshot" "length (json g) \<le> 4000"
    using silent_published by blast
  have m: "mc_config m = default_config" "mc_boot_id m = []" "mc_hostname m = []"
    using assms by (auto simp: new_collector_def Let_def linux_source_def silent_kernel_def blank_kernel_def Read_file_def file_ok_def)
  obtain m' s where C: "Collect silent_source sample_clocks m = (m', s)" by fastforce
  have s: "number_snapshot 1 ''a'' 0 s = silent_snapshot" using silent_collect [OF m] C by simp
  show ?thesis
    using g by (simp add: worker_step_def silent_tick_def sample_tick_def start_worker_def C s Let_def)
qed

definition silent_env :: env where
  "silent_env = \<lparr>latest = None, now = 5, accepts = [Accept_ok], recvs = [], sends = [Room 65536, Room 65536],
     calls_ok = True, order = [16, 17], rusage = None, open_fds = None, lock_free = True\<rparr>"

lemma silent_env_latest: "silent_env\<lparr>latest := Some g\<rparr> = sample_env g"
  by (simp add: silent_env_def sample_env_def)

definition writable :: "nat \<Rightarrow> event" where
  "writable tok = (ready tok)\<lparr>ev_in := False, ev_out := True\<rparr>"

text \<open>The stream client of the sample run, after its socket took the frame.\<close>

definition written_stream :: "PublishedSnapshot \<Rightarrow> Session" where
  "written_stream g = (sample_stream g)\<lparr>wire := frame g, out_queue := empty_queue, last_progress := 5\<rparr>"

lemma sample_written:
  assumes "generation_ok g" "length (json g) \<le> 4000"
  shows "\<exists>r. run_round [(sample_env g, writable 16)] (sample_reactor g) = Inr (False, r) \<and> (16, written_stream g) \<in> set (sessions r)"
proof -
  let ?e = "sample_env g" and ?r = "sample_reactor g"
  have len: "length (frame g) = 4 + length (json g)" using generation_frame [OF assms(1)] by simp
  have W: "Write ?e (sample_stream g) ?r = Inr (True, written_stream g, ?r\<lparr>queued_bytes := 0, bytes_sent := bytes_sent ?r + of_nat (length (frame g))\<rparr>)"
    using len assms(2)
    by (simp add: Write_def sample_env_def sample_stream_def sample_reactor_def written_stream_def kWriteBudget_def Empty_def Front_def Consume_def
        new_session_def empty_queue_def init_reactor_def)
  have find: "find_session 16 ?r = Some (sample_stream g)" by (simp add: sample_reactor_def find_session_def)
  have "handle_event ?e (writable 16) ?r = Modify ?e 16 (written_stream g)
      (put_session 16 (written_stream g) (?r\<lparr>queued_bytes := 0, bytes_sent := bytes_sent ?r + of_nat (length (frame g))\<rparr>))"
    using W find by (simp add: handle_event_def session_event_def writable_def ready_def kHttp_def kStream_def kNotification_def kTimer_def)
  then show ?thesis
    by (simp add: run_round_def writable_def ready_def kSignal_def Modify_def Check_def sample_env_def put_session_def sample_reactor_def)
qed

definition sample_answers :: "epoll_answer list" where
  "sample_answers = [Events_ready [([silent_tick], silent_env, ready kStream), ([], silent_env, ready kHttp)], Epoll_error EINTR,
     Events_ready [([], silent_env, writable 16)]]"

lemma sample_answers_ok:
  "list_all answer_ok sample_answers" "concat (map answer_ticks sample_answers) = [silent_tick]" "list_all (tick_ok default_config) [silent_tick]"
  using silent_tick_ok by (simp_all add: sample_answers_def silent_env_def)

lemma sample_server_run:
  assumes "new_collector default_config silent_source 100 4096 None = Inr m"
  shows "\<exists>g w r. Reactor_Run_loop default_config ''a'' sample_answers (start_worker 0 m) (init_reactor default_config 0) = (Waiting, [g], w, r) \<and>
    (16, written_stream g) \<in> set (sessions r) \<and> generation_ok g \<and> snapshot g = silent_snapshot \<and> length (json g) \<le> 4000"
proof -
  obtain g w where g: "worker_loop default_config ''a'' [silent_tick] (start_worker 0 m) = ([g], w)" "wk_state w = Some g"
    "generation_ok g" "snapshot g = silent_snapshot" "length (json g) \<le> 4000" using silent_worker [OF assms] by blast
  have "length (frame g) = 4 + length (json g)" using generation_frame [OF g(3)] by simp
  then have len: "length (frame g) \<le> 67108864" using g(5) by simp
  obtain r where r: "run_round [(sample_env g, writable 16)] (sample_reactor g) = Inr (False, r)" "(16, written_stream g) \<in> set (sessions r)"
    using sample_written [OF g(3,5)] by blast
  have D1: "during default_config ''a'' [([silent_tick], silent_env, ready kStream), ([], silent_env, ready kHttp)] (start_worker 0 m) =
      ([(sample_env g, ready kStream), (sample_env g, ready kHttp)], [g], w)"
    using g(1,2) silent_env_latest by (simp del: worker_loop.simps(2))
  have D2: "during default_config ''a'' [([], silent_env, writable 16)] w = ([(sample_env g, writable 16)], [], w)"
    using g(2) silent_env_latest by simp
  have "Reactor_Run_loop default_config ''a'' sample_answers (start_worker 0 m) (init_reactor default_config 0) = (Waiting, [g], w, r)"
    unfolding sample_answers_def Reactor_Run_loop.simps D1 D2 using sample_round [OF len] r(1) g(2) by (simp add: silent_env_latest)
  with r(2) g(3-5) show ?thesis by blast
qed

end
