(* ===== verification/End_To_End.thy ===== *)
theory End_To_End
  imports Client_Run Sample_Run
begin

text \<open>
  The server and the client together: what is published and the reactor puts on the wire of a stream session is,
  whatever the pieces the client reads it in, what the client takes, prints and records.
\<close>

section \<open>Events of one connection\<close>

fun handle_pieces :: "string list list \<Rightarrow> StreamConnection \<Rightarrow> Client \<Rightarrow> (StreamConnection \<times> Client) option" where
  "handle_pieces [] sc c = Some (sc, c)"
| "handle_pieces (chunks # events) sc c =
     (case Handle readable True receive (map Recv chunks) sc c of
        Some (Return, sc1, c1) \<Rightarrow> handle_pieces events sc1 c1
      | _ \<Rightarrow> None)"

abbreviation pieces_ok :: "string list list \<Rightarrow> bool" where
  "pieces_ok events \<equiv> list_all (\<lambda>chunks. length chunks \<le> 16 \<and> [] \<notin> set chunks) events"

lemma handle_pieces_deliver:
  assumes "conn_inv sc" "sc_connected sc" "pieces_ok events"
    and "bytewise (sc_decoder sc) (concat (concat events)) = (d, ps, None)" "deliver receive ps c = (None, c')"
  shows "\<exists>sc'. handle_pieces events sc c = Some (sc', c') \<and> sc_connected sc' \<and> sc_decoder sc' = d"
  using assms
proof (induction events arbitrary: sc c ps)
  case (Cons chunks events)
  obtain d1 qs e1 where B: "bytewise (sc_decoder sc) (concat chunks) = (d1, qs, e1)" by (metis prod_cases3)
  obtain rs where rs: "e1 = None" "bytewise d1 (concat (concat events)) = (d, rs, None)" "ps = qs @ rs"
    using Cons.prems(4) B by (auto simp: bytewise_append split: option.splits prod.splits)
  obtain c1 where D: "deliver receive qs c = (None, c1)" "deliver receive rs c1 = (None, c')"
    using Cons.prems(5) rs(3) by (auto simp: deliver_append split: option.splits prod.splits)
  have "\<exists>sc1. Handle readable True receive (map Recv chunks) sc c = Some (Return, sc1, c1) \<and> conn_inv sc1 \<and> sc_connected sc1 \<and> sc_decoder sc1 = d1"
    using Handle_deliver [OF Cons.prems(1,2) _ _ _ _ B D(1), of readable True] Cons.prems(3) rs(1)
    by (auto simp: readable_def flow_of_def left_def)
  then obtain sc1 where sc1: "Handle readable True receive (map Recv chunks) sc c = Some (Return, sc1, c1)" "conn_inv sc1"
    "sc_connected sc1" "sc_decoder sc1 = d1" by blast
  with Cons.IH [OF sc1(2,3) _ _ D(2)] Cons.prems(3) rs(2) show ?case by simp
qed simp

lemma deliver_receive_all:
  assumes "list_all (\<lambda>g. Decode (json g) = Inr (f g)) fs" "receive_all (map f fs) c = (None, c')"
  shows "deliver receive (map json fs) c = (None, c')"
  using assms by (induction fs arbitrary: c) (auto split: prod.splits option.splits)

section \<open>Generations on the wire\<close>

lemma subseq_map_conv: "subseq xs (map f ys) \<Longrightarrow> \<exists>zs. subseq zs ys \<and> xs = map f zs"
proof (induction ys arbitrary: xs)
  case (Cons y ys)
  show ?case
  proof (cases xs)
    case (Cons x xs')
    then consider "x = f y" "subseq xs' (map f ys)" | "subseq xs (map f ys)" using Cons.prems by (auto split: if_splits)
    then show ?thesis
    proof cases
      case 1
      then obtain zs where "subseq zs ys" "xs' = map f zs" using Cons.IH by blast
      with 1 Cons show ?thesis by (intro exI [of _ "y # zs"]) simp
    next
      case 2
      then show ?thesis using Cons.IH by (metis list_emb_Cons)
    qed
  qed (auto intro: exI [of _ "[]"])
qed (auto intro: exI [of _ "[]"])

lemma wire_generations:
  assumes "serves c t (map frame hs) r" "(tok, s) \<in> set (sessions r)" "streaming s" "list_all generation_ok hs"
  shows "\<exists>fs d. subseq fs hs \<and> wire s = concat (map frame fs) @ sent_part (out_queue s) \<and>
    bytewise new_decoder (wire s) = (d, map json fs, None)"
proof -
  have inv: "session_inv (map frame hs) s" using serves_session(2) [OF assms(1,2)] .
  then obtain xs ps where x: "wire s = concat xs @ sent_part (out_queue s)" "subseq (xs @ in_flight (out_queue s)) ps" "subseq ps (map frame hs)"
    using assms(3) by (auto simp: session_inv_def stream_ok_def delivered_def)
  then obtain zs where zs: "subseq zs hs" "xs @ in_flight (out_queue s) = map frame zs"
    using subseq_map_conv subseq_order.trans by metis
  define fs where "fs = take (length xs) zs"
  have xs: "xs = map frame fs" using zs(2) by (metis append_eq_conv_conj fs_def take_map)
  have sub: "subseq fs hs" using zs(1) unfolding fs_def by (rule subseq_order.trans [OF prefix_imp_subseq [OF take_is_prefix]])
  have ok: "\<forall>g \<in> set zs. generation_ok g" using assms(4) zs(1) by (auto simp: list_all_iff elim: list_emb_set)
  have "\<exists>d. bytewise new_decoder (sent_part (out_queue s)) = (d, [], None)"
  proof (cases "current (out_queue s)")
    case (Some b)
    then obtain h where h: "h \<in> set zs" "b = frame h"
      using zs(2) by (auto simp: in_flight_def xs dest!: arg_cong [where f = set]) (metis imageE insertI1 sup.idem Un_iff)
    moreover have "offset (out_queue s) < length b" using inv Some by (simp add: session_inv_def queue_inv_def)
    ultimately show ?thesis
      using bytewise_part [of "json h" 0 "offset (out_queue s)"] generation_frame [of h] ok Some by (simp add: sent_part_def decoder_at_0)
  qed (simp add: sent_part_def)
  then obtain d where d: "bytewise new_decoder (sent_part (out_queue s)) = (d, [], None)" by blast
  have "\<forall>g \<in> set fs. generation_ok g" using ok by (auto simp: fs_def dest: in_set_takeD)
  then have fb: "map frame fs = map frame_bytes (map json fs)" and "\<forall>p \<in> set (map json fs). valid_payload p" using generation_frame by auto
  then have "bytewise new_decoder (wire s) = (d, map json fs, None)"
    unfolding x(1) xs fb by (intro fc.run_stream_then d)
  with sub x(1) xs show ?thesis by blast
qed

section \<open>Sorted generations\<close>

abbreviation seq_le :: "PublishedSnapshot \<Rightarrow> PublishedSnapshot \<Rightarrow> bool" where
  "seq_le g h \<equiv> sequence (telemetry (snapshot g)) \<le> sequence (telemetry (snapshot h))"

abbreviation seq_of_generation :: "PublishedSnapshot \<Rightarrow> u64" where
  "seq_of_generation g \<equiv> sequence (telemetry (snapshot g))"

abbreviation arrives :: "PublishedSnapshot \<Rightarrow> SystemSnapshot" where
  "arrives g \<equiv> repair_snapshot (snapshot g)"

lemma arrives_fields [simp]:
  "sequence (telemetry (repair_snapshot s)) = sequence (telemetry s)"
  "instance_id (telemetry (repair_snapshot s)) = repair (instance_id (telemetry s))"
  by (simp_all add: repair_snapshot_def repair_telemetry_def)

lemma remdups_adj_head: obtains zs where "remdups_adj (g # fs) = g # zs"
proof -
  have "remdups_adj (g # fs) \<noteq> []" "hd (remdups_adj (g # fs)) = g" by (simp_all add: hd_remdups_adj)
  then show thesis using that by (metis list.collapse)
qed

lemma sorted_wrt_subseq: "subseq xs ys \<Longrightarrow> sorted_wrt P ys \<Longrightarrow> sorted_wrt P xs"
  by (induction rule: list_emb.induct) (auto elim: list_emb_set)

lemma fresh_sorted:
  assumes "sorted_wrt seq_le (g # fs)" "set (g # fs) \<subseteq> {x. instance_id (telemetry (snapshot x)) = ident}"
    and "inj_on seq_of_generation (set (g # fs))"
  shows "fresh_only (Some (arrives g)) (map arrives fs) = map arrives (tl (remdups_adj (g # fs)))"
  using assms
proof (induction fs arbitrary: g)
  case (Cons h fs)
  have sub: "set (g # fs) \<subseteq> set (g # h # fs)" "set (h # fs) \<subseteq> set (g # h # fs)" by auto
  have IH: "fresh_only (Some (arrives x)) (map arrives fs) = map arrives (tl (remdups_adj (x # fs)))" if "x = g \<or> x = h" for x
  proof (rule Cons.IH)
    show "sorted_wrt seq_le (x # fs)" using Cons.prems(1) that by auto
    show "set (x # fs) \<subseteq> {x. instance_id (telemetry (snapshot x)) = ident}" using Cons.prems(2) that by auto
    show "inj_on seq_of_generation (set (x # fs))" using that sub by (metis Cons.prems(3) inj_on_subset)
  qed
  show ?case
  proof (cases "h = g")
    case True
    then show ?thesis using IH [of g] by (simp add: newer_def)
  next
    case False
    have "seq_le g h" using Cons.prems(1) by simp
    moreover have "seq_of_generation g \<noteq> seq_of_generation h" using False Cons.prems(3) by (auto dest: inj_onD)
    ultimately have "seq_of_generation g < seq_of_generation h" by (rule order.not_eq_order_implies_strict [rotated])
    then have new: "newer (Some (arrives g)) (arrives h)" by (simp add: newer_def)
    obtain zs where zs: "remdups_adj (h # fs) = h # zs" by (rule remdups_adj_head)
    then have "remdups_adj (g # h # fs) = g # h # zs" using False by (simp only: remdups_adj.simps(3)) simp
    with new IH [of h] zs show ?thesis by (simp del: remdups_adj.simps)
  qed
qed simp

lemma fresh_generations:
  assumes "sorted_wrt seq_le fs" "set fs \<subseteq> {x. instance_id (telemetry (snapshot x)) = ident}" "inj_on seq_of_generation (set fs)"
  shows "fresh_only None (map arrives fs) = map arrives (remdups_adj fs)"
proof (cases fs)
  case (Cons g gs)
  obtain zs where "remdups_adj (g # gs) = g # zs" by (rule remdups_adj_head)
  with fresh_sorted [of g gs ident] assms Cons show ?thesis by (simp del: remdups_adj.simps)
qed simp

section \<open>From publication to the client\<close>

text \<open>
  A generation as the worker publishes it: encoded, valid, identified, and with numbers and size within what the
  decoder reads back.
\<close>

definition published :: "string \<Rightarrow> PublishedSnapshot \<Rightarrow> bool" where
  "published ident g \<longleftrightarrow>
     generation_ok g \<and> snapshot_valid (snapshot g) \<and> instance_id (telemetry (snapshot g)) = ident \<and>
     snapshot_ok (repair_snapshot (snapshot g)) \<and> json_nodes (wire_json (snapshot g)) \<le> 1000000"

lemma published_decodes: "published ident g \<Longrightarrow> Decode (json g) = Inr (arrives g)"
  using generation_frame [of g] decode_repaired [of "snapshot g" "json g"]
  by (auto simp: published_def generation_ok_def valid_payload_def)

text \<open>What a client takes of a stream session, when the generations served are given.\<close>

lemma served_to_client:
  assumes "list_all (published ident) hs" "sorted_wrt seq_le hs" "inj_on seq_of_generation (set hs)"
    and "serves cfg t (map frame hs) r" "(tok, s) \<in> set (sessions r)" "streaming s"
    and "conn_inv sc" "sc_connected sc" "sc_decoder sc = new_decoder"
    and "\<not> once (cl_options c)" "\<forall>n. cl_disk_ok c n" "cl_current c = None"
    and "pieces_ok events" "concat (concat events) = wire s"
  shows "\<exists>fs sc' c'. subseq fs hs \<and> wire s = concat (map frame fs) @ sent_part (out_queue s) \<and>
    handle_pieces events sc c = Some (sc', c') \<and> sc_connected sc' \<and>
    (let shown = map (\<lambda>g. repair_snapshot (snapshot g)) (remdups_adj fs) in
       cl_recording c' = map_option (\<lambda>ls. ls @ map line_of shown) (cl_recording c) \<and>
       cl_stdout c' = cl_stdout c @ (if cl_interactive c then [] else map line_of shown) \<and>
       cl_current c' = (if shown = [] then None else Some (last shown)))"
proof -
  have gen: "list_all generation_ok hs" using assms(1) by (auto simp: list_all_iff published_def)
  obtain fs d where fs: "subseq fs hs" "wire s = concat (map frame fs) @ sent_part (out_queue s)"
    "bytewise new_decoder (wire s) = (d, map json fs, None)" using wire_generations [OF assms(4-6) gen] by blast
  have sub: "set fs \<subseteq> set hs" using fs(1) by (auto elim: list_emb_set)
  have dec: "list_all (\<lambda>g. Decode (json g) = Inr (arrives g)) fs" using assms(1) sub published_decodes by (auto simp: list_all_iff)
  then have "list_all decoded (map arrives fs)" by (auto simp: list_all_iff decoded_def)
  then obtain c' where c': "receive_all (map arrives fs) c = (None, c')" "took (fresh_only None (map arrives fs)) c c'"
    using receive_all_took [OF assms(10,11)] assms(12) by auto
  have "sorted_wrt seq_le fs" using fs(1) assms(2) by (rule sorted_wrt_subseq)
  moreover have "set fs \<subseteq> {x. instance_id (telemetry (snapshot x)) = ident}"
    using assms(1) sub by (auto simp: list_all_iff published_def)
  moreover have "inj_on seq_of_generation (set fs)" using assms(3) sub by (rule inj_on_subset)
  ultimately have fresh: "fresh_only None (map arrives fs) = map arrives (remdups_adj fs)" by (rule fresh_generations)
  obtain sc' where "handle_pieces events sc c = Some (sc', c')" "sc_connected sc'"
    using handle_pieces_deliver [OF assms(7,8,13) _ deliver_receive_all [OF dec c'(1)], of d] fs(3) assms(9,14) by auto
  with fs(1,2) c'(2) assms(12) show ?thesis unfolding fresh Let_def took_def by (intro exI [of _ fs] exI [of _ sc'] exI [of _ c']) simp
qed

section \<open>From the worker to the client\<close>

text \<open>A generation whose numbers and size the decoder reads back; the rest is shown of what the worker publishes.\<close>

definition decodable :: "PublishedSnapshot \<Rightarrow> bool" where
  "decodable g \<longleftrightarrow> snapshot_ok (repair_snapshot (snapshot g)) \<and> json_nodes (wire_json (snapshot g)) \<le> 1000000"

lemma subseq_increasing:
  fixes f :: "'a \<Rightarrow> nat"
  shows "sorted_wrt (\<lambda>x y. f x < f y) xs \<Longrightarrow> sorted_wrt (\<lambda>x y. f x < f y) ys \<Longrightarrow> set xs \<subseteq> set ys \<Longrightarrow> subseq xs ys"
proof (induction ys arbitrary: xs)
  case (Cons y ys)
  show ?case
  proof (cases xs)
    case (Cons x xs')
    have "x = y \<and> set xs' \<subseteq> set ys \<or> set xs \<subseteq> set ys" using Cons.prems local.Cons by fastforce
    then show ?thesis using Cons.IH Cons.prems(1,2) local.Cons by auto
  qed simp
qed simp

lemma increasing_inj: "sorted_wrt (\<lambda>x y. f x < (f y :: nat)) xs \<Longrightarrow> inj_on f (set xs)"
  by (induction xs) auto

lemma remdups_increasing:
  "sorted_wrt (\<lambda>x y. f x \<le> f y) xs \<Longrightarrow> inj_on f (set xs) \<Longrightarrow> sorted_wrt (\<lambda>x y. f x < (f y :: nat)) (remdups_adj xs)"
proof (induction xs rule: remdups_adj.induct)
  case (3 x y xs)
  have inj: "inj_on f (set (y # xs))" using "3.prems"(2) by (rule inj_on_subset) auto
  show ?case
  proof (cases "x = y")
    case True
    then show ?thesis using "3.IH"(1) "3.prems" inj by simp
  next
    case False
    then have "f x < f y" using "3.prems" by (auto simp: order.strict_iff_order dest: inj_onD)
    then have "\<forall>z \<in> set (y # xs). f x < f z" using "3.prems"(1) by fastforce
    with False "3.IH"(2) "3.prems" inj show ?thesis by simp
  qed
qed simp_all

text \<open>
  C40: from the worker to the screen. Let the server run, in any interleaving of the worker and the reactor and with any
  number of clients, and let a client that is connected to a stream session and has received nothing yet read what the session has
  sent, in any pieces and events. Then what it takes are published generations, a subsequence of what the worker published, each
  once: those whose frames are wholly on the wire, with texts that are not UTF-8 made readable. It prints and
  records these, shows the last one, and stays connected in the middle of the frame in flight.
\<close>

theorem published_to_client:
  assumes "Validate cfg = Inr ()" "ident \<noteq> []" "new_collector cfg src hz pages hname = Inr m" "hz < 2 ^ 63"
    and "list_all answer_ok answers" "list_all (tick_ok cfg) (concat (map answer_ticks answers))" "length (concat (map answer_ticks answers)) < 2 ^ 64"
    and "Reactor_Run_loop cfg ident answers (start_worker t0 m) (init_reactor cfg t) = (Waiting, gs, w, r)" "list_all decodable gs"
    and "(tok, s) \<in> set (sessions r)" "streaming s"
    and "conn_inv sc" "sc_connected sc" "sc_decoder sc = new_decoder"
    and "\<not> once (cl_options c)" "\<forall>n. cl_disk_ok c n" "cl_current c = None"
    and "pieces_ok events" "concat (concat events) = wire s"
  shows "\<exists>fs sc' c'. subseq (remdups_adj fs) gs \<and> wire s = concat (map frame fs) @ sent_part (out_queue s) \<and>
    handle_pieces events sc c = Some (sc', c') \<and> sc_connected sc' \<and>
    (let shown = map (\<lambda>g. repair_snapshot (snapshot g)) (remdups_adj fs) in
       cl_recording c' = map_option (\<lambda>ls. ls @ map line_of shown) (cl_recording c) \<and>
       cl_stdout c' = cl_stdout c @ (if cl_interactive c then [] else map line_of shown) \<and>
       cl_current c' = (if shown = [] then None else Some (last shown)))"
proof -
  have well: "started_well cfg ident (start_worker t0 m)" using start_worker_well [OF assms(1-4)] .
  obtain hs where run: "running cfg ident t (start_worker t0 m) (concat (map answer_ticks answers)) gs hs w r"
    using loop_running [OF well start_running [OF well] assms(5,6) _ assms(8)] assms(7) by auto
  then have hs: "set hs \<subseteq> set gs" "sorted_wrt (\<lambda>g h. seq_of g \<le> seq_of h) hs" "serves cfg t (map frame hs) r"
    and W: "worker_loop cfg ident (concat (map answer_ticks answers)) (start_worker t0 m) = (gs, w)" by (simp_all add: running_def)
  note facts = worker_facts [OF well W assms(6,7)]
  have inj: "inj_on seq_of (set gs)" using facts(2) by (rule increasing_inj)
  have pub: "list_all (published ident) hs"
    using hs(1) facts(1) assms(9) by (auto simp: list_all_iff published_def good_generation_def decodable_def)
  have le: "sorted_wrt seq_le hs" using hs(2) by (simp add: seq_of_def word_le_nat_alt)
  have inj_hs: "inj_on seq_of_generation (set hs)" using inj_on_subset [OF inj hs(1)] by (simp add: inj_on_def seq_of_def)
  obtain fs sc' c' where fs: "subseq fs hs" and taken: "wire s = concat (map frame fs) @ sent_part (out_queue s)"
    "handle_pieces events sc c = Some (sc', c')" "sc_connected sc'"
    "let shown = map (\<lambda>g. repair_snapshot (snapshot g)) (remdups_adj fs) in
       cl_recording c' = map_option (\<lambda>ls. ls @ map line_of shown) (cl_recording c) \<and>
       cl_stdout c' = cl_stdout c @ (if cl_interactive c then [] else map line_of shown) \<and>
       cl_current c' = (if shown = [] then None else Some (last shown))"
    using served_to_client [OF pub le inj_hs hs(3) assms(10-19)] by blast
  have sub: "set fs \<subseteq> set hs" using fs by (auto elim: list_emb_set)
  have "sorted_wrt (\<lambda>g h. seq_of g \<le> seq_of h) fs" using fs hs(2) by (rule sorted_wrt_subseq)
  moreover have "inj_on seq_of (set fs)" using inj by (rule inj_on_subset) (use sub hs(1) in blast)
  ultimately have "sorted_wrt (\<lambda>g h. seq_of g < seq_of h) (remdups_adj fs)" by (rule remdups_increasing)
  then have "subseq (remdups_adj fs) gs" using sub hs(1) by (intro subseq_increasing [OF _ facts(2)]) auto
  with taken show ?thesis by blast
qed

lemma silent_written:
  "streaming (written_stream g)" "wire (written_stream g) = frame g" "sent_part (out_queue (written_stream g)) = []"
  by (simp_all add: written_stream_def sample_stream_def new_session_def sent_part_def empty_queue_def)

text \<open>The frame of the only published generation arrives in two pieces, cut inside the header.\<close>

theorem published_to_client_witness:
  "\<exists>m g w r sc' c'. new_collector default_config silent_source 100 4096 None = Inr m \<and>
     Reactor_Run_loop default_config ''a'' sample_answers (start_worker 0 m) (init_reactor default_config 0) = (Waiting, [g], w, r) \<and>
     handle_pieces [[take 3 (frame g), drop 3 (frame g)]] sample_connection (new_client default_options False (\<lambda>_. True) int) = Some (sc', c') \<and>
     cl_stdout c' = [json g]"
proof -
  obtain m where m: "new_collector default_config silent_source 100 4096 None = Inr m" by (simp add: new_collector_def Let_def)
  obtain g w r where run: "Reactor_Run_loop default_config ''a'' sample_answers (start_worker 0 m) (init_reactor default_config 0) = (Waiting, [g], w, r)"
    and s: "(16, written_stream g) \<in> set (sessions r)" and g: "generation_ok g" "snapshot g = silent_snapshot" "length (json g) \<le> 4000"
    using sample_server_run [OF m] by blast
  let ?c = "new_client default_options False (\<lambda>_. True) int" and ?ev = "[[take 3 (frame g), drop 3 (frame g)]]"
  have len: "frame g \<noteq> []" "length (frame g) = 4 + length (json g)" using generation_frame [OF g(1)] by (auto simp: frame_bytes_def frame_header_def)
  have P: "pieces_ok ?ev" "concat (concat ?ev) = wire (written_stream g)" using len silent_written(2) by auto
  have C: "\<not> once (cl_options ?c)" "\<forall>n. cl_disk_ok ?c n" "cl_current ?c = None" "cl_stdout ?c = []" "\<not> cl_interactive ?c"
    by (simp_all add: new_client_def default_options_def)
  have rd: "list_all decodable [g]" using silent_readable g(2) by (simp add: decodable_def)
  have ticks: "list_all (tick_ok default_config) (concat (map answer_ticks sample_answers))" "length (concat (map answer_ticks sample_answers)) < 2 ^ 64"
    using sample_answers_ok(2,3) by simp_all
  have start: "''a'' \<noteq> []" "(100 :: int) < 2 ^ 63" by simp_all
  from published_to_client [OF Validate_default start(1) m start(2) sample_answers_ok(1) ticks run rd s silent_written(1) sample_connection_inv C(1-3) P]
  obtain fs sc' c' where fs: "subseq (remdups_adj fs) [g]" "frame g = concat (map frame fs)"
    "handle_pieces ?ev sample_connection ?c = Some (sc', c')"
    "cl_stdout c' = map line_of (map (\<lambda>g. repair_snapshot (snapshot g)) (remdups_adj fs))"
    unfolding silent_written(2,3) append_Nil2 Let_def C(4) using C(5) by (auto simp del: handle_pieces.simps)
  have "remdups_adj fs \<noteq> []" using fs(2) len(1) by auto
  then have "remdups_adj fs = [g]" using fs(1) by (cases "remdups_adj fs") (auto split: if_splits)
  then have "cl_stdout c' = [json g]" using fs(4) g(1,2) silent_readable(1) by (simp add: generation_ok_def line_of_def)
  with m run fs(3) show ?thesis by blast
qed

end
