(* ===== verification/Server_Start.thy ===== *)
theory Server_Start
  imports Server_Run Unique_Fd
begin

text \<open>
  The life of the server process: \<^verbatim>\<open>Listen\<close> and the constructor of \<^verbatim>\<open>Reactor\<close> (\<^verbatim>\<open>server/transport/reactor.cpp\<close>),
  \<^verbatim>\<open>ServerApp::Run\<close> (\<^verbatim>\<open>server/app/server_app.cpp\<close>) and \<^verbatim>\<open>main\<close> (\<^verbatim>\<open>server/main.cpp\<close>). The \<^verbatim>\<open>UniqueFd\<close> objects alive are
  a stack, with the table of open descriptors; leaving a scope, normally or by an exception, destroys its objects
  from the top. What the system calls answer is the record \<open>Host\<close>.
\<close>

section \<open>Start-up\<close>

record listen_answers =
  la_socket :: int
  la_reuse :: bool
  la_v6only :: bool
  la_bind :: bool
  la_listen :: bool

record Host =
  h_inet4 :: "string \<Rightarrow> bool" \<comment> \<open>\<^verbatim>\<open>inet_pton\<close> takes the text as an address\<close>
  h_inet6 :: "string \<Rightarrow> bool"
  h_sigmask :: int
  h_signalfd :: int
  h_eventfd :: int
  h_epoll :: int
  h_http :: listen_answers
  h_stream :: listen_answers
  h_timer :: int
  h_settime :: bool
  h_env :: env
  h_random :: "u32 \<times> u32"
  h_kernel :: kernel
  h_ticks :: int
  h_pages :: int
  h_hostname :: "string option"
  h_now :: int
  h_steady :: int

type_synonym fds = "UniqueFd list \<times> fd_process"

fun unwind :: "nat \<Rightarrow> fds \<Rightarrow> fds" where
  "unwind 0 st = st"
| "unwind (Suc n) st = unwind n (fd_exec Destroy st)"

definition listen_checks :: "bool \<Rightarrow> listen_answers \<Rightarrow> unit result" where
  "listen_checks v6 a =
     rbind (Check (0 \<le> la_socket a) ''socket'') (\<lambda>_.
     rbind (Check (la_reuse a) ''SO_REUSEADDR'') (\<lambda>_.
     rbind (if v6 then Check (la_v6only a) ''IPV6_V6ONLY'' else Inr ()) (\<lambda>_.
     rbind (Check (la_bind a) ''bind'') (\<lambda>_.
       Check (la_listen a) ''listen''))))"

definition Listen :: "Host \<Rightarrow> listen_answers \<Rightarrow> string \<Rightarrow> fds \<Rightarrow> unit result \<times> fds" where
  "Listen h a addr st =
     (if \<not> h_inet4 h addr \<and> \<not> h_inet6 h addr
      then (Inl (Invalid_argument ''--bind requires a numeric IPv4 or IPv6 address''), st)
      else let st1 = fd_exec (Construct (la_socket a)) st
           in case listen_checks (\<not> h_inet4 h addr) a of
                Inr _ \<Rightarrow> (Inr (), st1)
              | Inl e \<Rightarrow> (Inl e, unwind 1 st1))"

definition register_all :: "env \<Rightarrow> Reactor \<Rightarrow> Reactor result" where
  "register_all e r =
     rbind (Register e kHttp (True, False) r) (\<lambda>r.
     rbind (Register e kStream (True, False) r) (\<lambda>r.
     rbind (Register e kSignal (True, False) r) (\<lambda>r.
     rbind (Register e kNotification (True, False) r) (\<lambda>r.
       Register e kTimer (True, False) r))))"

definition construct_reactor :: "Host \<Rightarrow> ServerConfig \<Rightarrow> fds \<Rightarrow> Reactor result \<times> fds" where
  "construct_reactor h c st =
     (let st1 = fd_exec (Construct (h_epoll h)) st
      in case Listen h (h_http h) (bind_address c) st1 of
           (Inl e, st2) \<Rightarrow> (Inl e, unwind 1 st2)
         | (Inr _, st2) \<Rightarrow>
             case Listen h (h_stream h) (bind_address c) st2 of
               (Inl e, st3) \<Rightarrow> (Inl e, unwind 2 st3)
             | (Inr _, st3) \<Rightarrow>
                 let st4 = fd_exec (Construct (h_timer h)) st3
                 in case rbind (Check (0 \<le> h_epoll h) ''epoll_create1'') (\<lambda>_.
                         rbind (Check (0 \<le> h_timer h) ''timerfd_create'') (\<lambda>_.
                         rbind (Check (h_settime h) ''timerfd_settime'') (\<lambda>_.
                           register_all (h_env h) ((init_reactor c (h_now h))\<lparr>interest := Map.empty\<rparr>)))) of
                      Inl e \<Rightarrow> (Inl e, unwind 4 st4)
                    | Inr r \<Rightarrow> (Inr r, st4))"

section \<open>The run\<close>

datatype life_end = Running | Returned int | Raised exn

record Life =
  life_end :: life_end
  life_stdout :: string
  life_fds :: fds
  life_blocked :: bool \<comment> \<open>SIGINT and SIGTERM are blocked in the thread\<close>
  life_published :: "PublishedSnapshot list option" \<comment> \<open>none before the worker is started\<close>
  life_reactor :: "Reactor option"

definition instance_of :: "Host \<Rightarrow> string" where
  "instance_of h = show_nat (unat (fst (h_random h))) @ ''-'' @ show_nat (unat (snd (h_random h)))"

definition banner :: "ServerConfig \<Rightarrow> string" where
  "banner c = ''web_htop: bind='' @ bind_address c @ '' http='' @ show_nat (port c) @ '' stream='' @ show_nat (streaming_port c) @
     '' interval_ms='' @ show_nat (poll_interval c) @ '' max_clients='' @ show_nat (max_clients c) @ [CHR 0x0A]"

text \<open>\<open>lasts\<close> are the samples the worker still finishes while it is asked to stop.\<close>

definition ServerApp_Run :: "Host \<Rightarrow> ServerConfig \<Rightarrow> epoll_answer list \<Rightarrow> tick list \<Rightarrow> fds \<Rightarrow> Life" where
  "ServerApp_Run h c answers lasts st =
     (let failed = (\<lambda>e st. \<lparr>life_end = Raised e, life_stdout = [], life_fds = st, life_blocked = False, life_published = None, life_reactor = None\<rparr>)
      in if h_sigmask h \<noteq> 0 then failed (System_error (h_sigmask h) ''pthread_sigmask'') st
         else let st1 = fd_exec (Construct (h_signalfd h)) st; st2 = fd_exec (Construct (h_eventfd h)) st1
         in if \<not> fd_valid (h_signalfd h) \<or> \<not> fd_valid (h_eventfd h) then failed (System_error 0 ''control descriptor'') (unwind 2 st2)
         else case construct_reactor h c st2 of
             (Inl e, st3) \<Rightarrow> failed e (unwind 2 st3)
           | (Inr r, st3) \<Rightarrow>
               let src = linux_source c (h_kernel h)
               in case new_collector c src (h_ticks h) (h_pages h) (h_hostname h) of
                    Inl e \<Rightarrow> failed e (unwind 6 st3)
                  | Inr m \<Rightarrow>
                      let (fin, gs, w, r1) = Reactor_Run_loop c (instance_of h) answers (start_worker (h_steady h) m) r;
                          (ls, w1) = worker_loop c (instance_of h) lasts w
                      in case fin of
                           Waiting \<Rightarrow> \<lparr>life_end = Running, life_stdout = banner c, life_fds = st3, life_blocked = True,
                                       life_published = Some gs, life_reactor = Some r1\<rparr>
                         | Threw e \<Rightarrow> \<lparr>life_end = Raised e, life_stdout = banner c, life_fds = unwind 6 st3, life_blocked = False,
                                       life_published = Some (gs @ ls), life_reactor = Some r1\<rparr>
                         | Stopped \<Rightarrow> \<lparr>life_end = Returned 0, life_stdout = banner c @ ''web_htop: stopped'' @ [CHR 0x0A], life_fds = unwind 6 st3,
                                       life_blocked = False, life_published = Some (gs @ ls), life_reactor = Some r1\<rparr>)"

text \<open>\<^verbatim>\<open>main\<close>: the exit code (none while the server runs), and the exception that was reported.\<close>

definition help_text :: string where
  "help_text = ''web_htop_server [--bind 127.0.0.1] [--http-port 8080] [--stream-port 9999]'' @ [CHR 0x0A] @
     ''  --interval-ms 1000 --max-clients 256 --max-processes 1024'' @ [CHR 0x0A] @
     ''  --request-timeout-ms 3000 --write-timeout-ms 5000'' @ [CHR 0x0A] @
     ''  --proc-root /proc --sys-root /sys --mount / --cgroup /sys/fs/cgroup/PATH'' @ [CHR 0x0A] @
     ''  --include-loopback'' @ [CHR 0x0A]"

definition server_main :: "Host \<Rightarrow> string option \<Rightarrow> string option \<Rightarrow> string list \<Rightarrow> epoll_answer list \<Rightarrow> tick list \<Rightarrow> fds \<Rightarrow>
    int option \<times> string \<times> exn option \<times> fds" where
  "server_main h http stream argv answers lasts st =
     (if length argv = 2 \<and> argv ! 1 = ''--help'' then (Some 0, help_text, None, st)
      else case FromArgs http stream argv of
             Inl e \<Rightarrow> (Some 1, [], Some e, st)
           | Inr c \<Rightarrow>
               let l = ServerApp_Run h c answers lasts st
               in case life_end l of
                    Running \<Rightarrow> (None, life_stdout l, None, life_fds l)
                  | Returned code \<Rightarrow> (Some code, life_stdout l, None, life_fds l)
                  | Raised e \<Rightarrow> (Some 1, life_stdout l, Some e, life_fds l))"

section \<open>Descriptors held\<close>

text \<open>The stack with further objects on it, and that the kernel hands out descriptors that are not open.\<close>

definition held :: "int list \<Rightarrow> fds \<Rightarrow> fds" where
  "held xs st = (fst st @ xs, (snd st)\<lparr>open_table := open_table (snd st) \<union> {fd \<in> set xs. 0 \<le> fd}\<rparr>)"

definition unused :: "int list \<Rightarrow> fds \<Rightarrow> bool" where
  "unused xs st \<longleftrightarrow> distinct (filter (\<lambda>fd. 0 \<le> fd) xs) \<and> list_all (\<lambda>fd. fd < 0 \<or> fd \<notin> open_table (snd st)) xs"

lemma held_Nil [simp]: "held [] st = st"
  by (simp add: held_def)

lemma Construct_held [simp]: "fd_exec (Construct fd) (held xs st) = held (xs @ [fd]) st"
proof -
  have "{x. (x = fd \<or> x \<in> set xs) \<and> 0 \<le> x} = (if fd < 0 then {} else {fd}) \<union> {x \<in> set xs. 0 \<le> x}" by auto
  then show ?thesis by (simp add: held_def opened_def)
qed

lemma Construct_first: "fd_exec (Construct fd) st = held [fd] st"
  using Construct_held [of fd "[]" st] by simp

lemma Destroy_held: "unused (xs @ [fd]) st \<Longrightarrow> fd_exec Destroy (held (xs @ [fd]) st) = held xs st"
proof -
  assume a: "unused (xs @ [fd]) st"
  have "open_table (snd st) \<union> {x. (x = fd \<or> x \<in> set xs) \<and> 0 \<le> x} - {fd} = open_table (snd st) \<union> {x \<in> set xs. 0 \<le> x}" if "0 \<le> fd"
    using a that by (auto simp: unused_def)
  moreover have "{x. (x = fd \<or> x \<in> set xs) \<and> 0 \<le> x} = {x \<in> set xs. 0 \<le> x}" if "fd < 0" using that by auto
  moreover have "butlast (fst st @ xs @ [fd]) = fst st @ xs" by (metis append_assoc butlast_snoc)
  ultimately show ?thesis by (simp add: held_def Reset_fd_def sys_close_def)
qed

lemma unused_append: "unused (xs @ ys) st \<Longrightarrow> unused xs st"
  by (simp add: unused_def)

lemma unwind_held: "unused (xs @ ys) st \<Longrightarrow> unwind (length ys) (held (xs @ ys) st) = held xs st"
proof (induction ys rule: rev_induct)
  case (snoc y ys)
  have "fd_exec Destroy (held ((xs @ ys) @ [y]) st) = held (xs @ ys) st" using snoc.prems by (intro Destroy_held) simp
  moreover have "unused (xs @ ys) st" using unused_append [of "xs @ ys" "[y]"] snoc.prems by simp
  ultimately show ?case using snoc.IH by simp
qed simp

section \<open>Starting up\<close>

definition listening :: "Host \<Rightarrow> listen_answers \<Rightarrow> string \<Rightarrow> bool" where
  "listening h a addr \<longleftrightarrow> (h_inet4 h addr \<or> h_inet6 h addr) \<and>
     0 \<le> la_socket a \<and> la_reuse a \<and> (h_inet4 h addr \<or> la_v6only a) \<and> la_bind a \<and> la_listen a"

lemma listen_checks_ok: "listen_checks v6 a = Inr () \<longleftrightarrow> 0 \<le> la_socket a \<and> la_reuse a \<and> (v6 \<longrightarrow> la_v6only a) \<and> la_bind a \<and> la_listen a"
  by (auto simp: listen_checks_def rbind_Inr Check_def)

lemma Listen_cases:
  assumes "unused (xs @ [la_socket a]) st"
  obtains (bound) "listening h a addr" "Listen h a addr (held xs st) = (Inr (), held (xs @ [la_socket a]) st)"
  | (failed) e where "\<not> listening h a addr" "Listen h a addr (held xs st) = (Inl e, held xs st)"
proof (cases "listening h a addr")
  case True
  then have "listen_checks (\<not> h_inet4 h addr) a = Inr ()" by (auto simp: listen_checks_ok listening_def)
  then have "Listen h a addr (held xs st) = (Inr (), held (xs @ [la_socket a]) st)" using True by (auto simp: Listen_def listening_def)
  with True show thesis by (rule bound)
next
  case False
  have un: "unwind 1 (held (xs @ [la_socket a]) st) = held xs st" using unwind_held [OF assms] by simp
  show thesis
  proof (cases "h_inet4 h addr \<or> h_inet6 h addr")
    case addr: True
    then obtain e where "listen_checks (\<not> h_inet4 h addr) a = Inl e"
      using False listen_checks_ok [of "\<not> h_inet4 h addr" a] by (cases "listen_checks (\<not> h_inet4 h addr) a") (auto simp: listening_def)
    then have "Listen h a addr (held xs st) = (Inl e, held xs st)" using addr un by (auto simp: Listen_def)
    with False show thesis by (rule failed)
  qed (use False failed in \<open>auto simp: Listen_def\<close>)
qed

lemma register_all_ok: "calls_ok e \<Longrightarrow> register_all e ((init_reactor c t)\<lparr>interest := Map.empty\<rparr>) = Inr (init_reactor c t)"
  by (simp add: register_all_def Register_def Check_def init_reactor_def kHttp_def kStream_def kSignal_def kNotification_def kTimer_def)

lemma register_all_fails: "\<not> calls_ok e \<Longrightarrow> \<exists>x. register_all e r = Inl x"
  by (simp add: register_all_def Register_def Check_def)

text \<open>The descriptors of the reactor, and when all its calls succeed.\<close>

definition reactor_fds :: "Host \<Rightarrow> int list" where
  "reactor_fds h = [h_epoll h, la_socket (h_http h), la_socket (h_stream h), h_timer h]"

definition reactor_up :: "Host \<Rightarrow> ServerConfig \<Rightarrow> bool" where
  "reactor_up h c \<longleftrightarrow> listening h (h_http h) (bind_address c) \<and> listening h (h_stream h) (bind_address c) \<and>
     0 \<le> h_epoll h \<and> 0 \<le> h_timer h \<and> h_settime h \<and> calls_ok (h_env h)"

lemma construct_reactor_cases:
  assumes "unused (xs @ reactor_fds h) st"
  obtains (up) "reactor_up h c" "construct_reactor h c (held xs st) = (Inr (init_reactor c (h_now h)), held (xs @ reactor_fds h) st)"
  | (failed) e where "\<not> reactor_up h c" "construct_reactor h c (held xs st) = (Inl e, held xs st)"
proof -
  let ?x1 = "xs @ [h_epoll h]" and ?a = "h_http h" and ?b = "h_stream h" and ?addr = "bind_address c"
  let ?x2 = "?x1 @ [la_socket ?a]" and ?x3 = "(?x1 @ [la_socket ?a]) @ [la_socket ?b]"
  have u: "unused (?x3 @ [h_timer h]) st" using assms by (simp add: reactor_fds_def)
  then have u3: "unused ?x3 st" and u2: "unused ?x2 st" and u1: "unused ?x1 st" by (blast intro: unused_append)+
  have w1: "unwind 1 (held ?x1 st) = held xs st" and w2: "unwind 2 (held ?x2 st) = held xs st" and w4: "unwind 4 (held (xs @ reactor_fds h) st) = held xs st"
    using unwind_held [of xs "[h_epoll h]"] unwind_held [of xs "[h_epoll h, la_socket ?a]"] unwind_held [of xs "reactor_fds h"] u1 u2 assms
    by (simp_all add: reactor_fds_def eval_nat_numeral)
  show thesis
    using u2
  proof (cases rule: Listen_cases [of ?x1 ?a st h ?addr])
    case http: bound
    from u3 show thesis
    proof (cases rule: Listen_cases [of ?x2 ?b st h ?addr])
      case stream: bound
      let ?c = "rbind (Check (0 \<le> h_epoll h) ''epoll_create1'') (\<lambda>_. rbind (Check (0 \<le> h_timer h) ''timerfd_create'') (\<lambda>_.
          rbind (Check (h_settime h) ''timerfd_settime'') (\<lambda>_. register_all (h_env h) ((init_reactor c (h_now h))\<lparr>interest := Map.empty\<rparr>))))"
      have eq: "construct_reactor h c (held xs st) =
          (case ?c of Inl e \<Rightarrow> (Inl e, held xs st) | Inr r \<Rightarrow> (Inr r, held (xs @ reactor_fds h) st))"
        using http(2) stream(2) w4 by (simp add: construct_reactor_def reactor_fds_def split: sum.splits)
      show thesis
      proof (cases "reactor_up h c")
        case True
        then have "?c = Inr (init_reactor c (h_now h))" by (simp add: reactor_up_def Check_def register_all_ok)
        with True up eq show thesis by simp
      next
        case False
        then have "\<exists>e. ?c = Inl e"
          using http(1) stream(1) register_all_fails by (auto simp: reactor_up_def Check_def)
        with False failed eq show thesis by auto
      qed
    next
      case (failed e)
      then have "construct_reactor h c (held xs st) = (Inl e, held xs st)" using http(2) w2 by (simp add: construct_reactor_def)
      then show thesis using that(2) failed(1) by (simp add: reactor_up_def)
    qed
  next
    case (failed e)
    then have "construct_reactor h c (held xs st) = (Inl e, held xs st)" using w1 by (simp add: construct_reactor_def)
    then show thesis using that(2) failed(1) by (simp add: reactor_up_def)
  qed
qed

section \<open>The whole life\<close>

definition host_fds :: "Host \<Rightarrow> int list" where
  "host_fds h = [h_signalfd h, h_eventfd h] @ reactor_fds h"

definition starts :: "Host \<Rightarrow> ServerConfig \<Rightarrow> bool" where
  "starts h c \<longleftrightarrow> h_sigmask h = 0 \<and> 0 \<le> h_signalfd h \<and> 0 \<le> h_eventfd h \<and> reactor_up h c \<and> 0 < h_ticks h \<and> 0 < h_pages h"

lemma life_cases:
  assumes "unused (host_fds h) st"
  obtains (failed) e where "\<not> starts h c" "ServerApp_Run h c answers lasts st =
      \<lparr>life_end = Raised e, life_stdout = [], life_fds = st, life_blocked = False, life_published = None, life_reactor = None\<rparr>"
  | (runs) m fin gs w r ls w1 where "starts h c"
    "new_collector c (linux_source c (h_kernel h)) (h_ticks h) (h_pages h) (h_hostname h) = Inr m"
    "Reactor_Run_loop c (instance_of h) answers (start_worker (h_steady h) m) (init_reactor c (h_now h)) = (fin, gs, w, r)"
    "worker_loop c (instance_of h) lasts w = (ls, w1)"
    "ServerApp_Run h c answers lasts st =
      \<lparr>life_end = (case fin of Waiting \<Rightarrow> Running | Stopped \<Rightarrow> Returned 0 | Threw e \<Rightarrow> Raised e),
       life_stdout = banner c @ (if fin = Stopped then ''web_htop: stopped'' @ [CHR 0x0A] else []),
       life_fds = (if fin = Waiting then held (host_fds h) st else st), life_blocked = (fin = Waiting),
       life_published = Some (gs @ (if fin = Waiting then [] else ls)), life_reactor = Some r\<rparr>"
proof -
  let ?x2 = "[h_signalfd h, h_eventfd h]"
  have u: "unused (?x2 @ reactor_fds h) st" using assms by (simp add: host_fds_def)
  then have u2: "unused ?x2 st" by (rule unused_append)
  have w2: "unwind 2 (held ?x2 st) = st" using unwind_held [of "[]" ?x2 st] u2 by (simp add: eval_nat_numeral)
  have w6: "unwind 6 (held (?x2 @ reactor_fds h) st) = st"
    using unwind_held [of "[]" "?x2 @ reactor_fds h" st] u by (simp add: reactor_fds_def eval_nat_numeral)
  have s2: "fd_exec (Construct (h_eventfd h)) (fd_exec (Construct (h_signalfd h)) st) = held ?x2 st"
    using Construct_held [of "h_eventfd h" "[h_signalfd h]" st] by (simp add: Construct_first)
  show thesis
  proof (cases "h_sigmask h = 0 \<and> 0 \<le> h_signalfd h \<and> 0 \<le> h_eventfd h")
    case False
    then show thesis
      by (intro failed [of "if h_sigmask h \<noteq> 0 then System_error (h_sigmask h) ''pthread_sigmask'' else System_error 0 ''control descriptor''"])
        (auto simp: starts_def ServerApp_Run_def s2 w2 fd_valid_def)
  next
    case ctrl: True
    from u show thesis
    proof (cases rule: construct_reactor_cases [of ?x2 h st c])
      case (failed e)
      then show thesis using ctrl by (intro that(1) [of e]) (simp_all add: starts_def ServerApp_Run_def s2 w2 fd_valid_def)
    next
      case up
      show thesis
      proof (cases "0 < h_ticks h \<and> 0 < h_pages h")
        case False
        then show thesis using ctrl up
          by (intro failed [of "Runtime_error ''sysconf clock/page size unavailable''"])
            (auto simp: starts_def ServerApp_Run_def s2 w6 [simplified] fd_valid_def new_collector_def)
      next
        case True
        then obtain m where m: "new_collector c (linux_source c (h_kernel h)) (h_ticks h) (h_pages h) (h_hostname h) = Inr m"
          by (simp add: new_collector_def Let_def)
        obtain fin gs w r where L: "Reactor_Run_loop c (instance_of h) answers (start_worker (h_steady h) m) (init_reactor c (h_now h)) = (fin, gs, w, r)"
          by (metis prod_cases4)
        obtain ls w1 where W: "worker_loop c (instance_of h) lasts w = (ls, w1)" by fastforce
        show thesis using True ctrl up m L W
          by (intro runs [OF _ m L W]) (auto simp: starts_def ServerApp_Run_def s2 w6 [simplified] fd_valid_def host_fds_def split: run_end.splits)
      qed
    qed
  qed
qed

lemma instance_nonempty: "instance_of h \<noteq> []"
  by (simp add: instance_of_def)

lemma run_never_throws:
  assumes "Validate c = Inr ()" "new_collector c src hz pages host = Inr m" "hz < 2 ^ 63"
    and "list_all answer_ok answers" "list_all (tick_ok c) (concat (map answer_ticks answers))" "length (concat (map answer_ticks answers)) < 2 ^ 64"
    and "Reactor_Run_loop c (instance_of h) answers (start_worker t0 m) (init_reactor c t) = (fin, gs, w, r)"
  shows "fin = (if signalled answers then Stopped else Waiting)"
proof -
  have well: "started_well c (instance_of h) (start_worker t0 m)" using start_worker_well [OF assms(1) instance_nonempty assms(2,3)] .
  have "fin = Waiting \<or> fin = Stopped"
    using loop_running [OF well start_running [OF well, of t] assms(4,5) _ assms(7)] assms(6) by auto
  with loop_ends [OF assms(7)] show ?thesis by auto
qed

text \<open>\<open>main\<close> exits with 0 or 1 and leaves nothing open; while there is no exit code the server runs.\<close>

lemma server_main_exits:
  assumes "unused (host_fds h) st" "server_main h http stream argv answers lasts st = (code, out, e, st')"
  shows "code \<in> {None, Some 0, Some 1} \<and> (code = Some 1 \<longleftrightarrow> e \<noteq> None) \<and> st' = (if code = None then held (host_fds h) st else st)"
proof (cases "FromArgs http stream argv")
  case (Inr c)
  from assms(1) show ?thesis
  proof (cases rule: life_cases [of h st c answers lasts])
    case (runs m fin gs w r ls w1)
    with assms(2) Inr show ?thesis by (cases fin) (auto simp: server_main_def split: if_splits)
  qed (use assms(2) Inr in \<open>auto simp: server_main_def split: if_splits\<close>)
qed (use assms(2) in \<open>auto simp: server_main_def split: if_splits\<close>)

section \<open>Property\<close>


definition sample_host :: Host where
  "sample_host =
     (let a = (\<lambda>fd. \<lparr>la_socket = fd, la_reuse = True, la_v6only = True, la_bind = True, la_listen = True\<rparr>)
      in \<lparr>h_inet4 = (\<lambda>s. s = ''127.0.0.1''), h_inet6 = (\<lambda>_. False), h_sigmask = 0, h_signalfd = 3, h_eventfd = 4, h_epoll = 5,
         h_http = a 6, h_stream = a 7, h_timer = 8, h_settime = True,
         h_env = \<lparr>latest = None, now = 0, accepts = [], recvs = [], sends = [], calls_ok = True, order = [], rusage = None, open_fds = None, lock_free = True\<rparr>,
         h_random = (1, 2), h_kernel = blank_kernel, h_ticks = 100, h_pages = 4096, h_hostname = None, h_now = 0, h_steady = 0\<rparr>)"


end
