(* ===== verification/Scheduler.thy ===== *)
theory Scheduler
  imports Json_Text
begin

text \<open>
  The optional scheduler tool: the tracing program \<^verbatim>\<open>tools/scheduler/runqlat.bpf.c\<close>, which measures how long
  tasks wait for a CPU, and the reader \<^verbatim>\<open>tools/scheduler/main.cpp\<close>, which prints the sums over the CPUs.

  The three maps are a record. The hash map of the kernel may evict entries on an update and may refuse one: what
  it does is part of the event (\<open>Update\<close>), as are the CPU, the clock and the tasks. A handler runs
  as one step. The arrays have one value per key and CPU.
\<close>

section \<open>The tracing program\<close>

record Task =
  pid_of :: u32
  state_of :: u32

record Update =
  accepted :: bool
  evicted :: "u32 list"

type_synonym percpu_array = "u64 list list" \<comment> \<open>by key, then by CPU\<close>

record Maps =
  enqueued :: "u32 \<Rightarrow> u64 option"
  histogram :: percpu_array
  counters :: percpu_array

definition empty_maps :: "nat \<Rightarrow> Maps" where
  "empty_maps cpus = \<lparr>enqueued = Map.empty, histogram = replicate 64 (replicate cpus 0), counters = replicate 3 (replicate cpus 0)\<rparr>"

text \<open>\<^verbatim>\<open>bpf_map_lookup_elem\<close> on an array, and the atomic addition to what it points to.\<close>

definition add_one :: "nat \<Rightarrow> nat \<Rightarrow> percpu_array \<Rightarrow> percpu_array" where
  "add_one cpu key a = (if key < length a then a[key := (a ! key)[cpu := a ! key ! cpu + 1]] else a)"

definition count_event :: "nat \<Rightarrow> nat \<Rightarrow> Maps \<Rightarrow> Maps" where
  "count_event cpu key m = m\<lparr>counters := add_one cpu key (counters m)\<rparr>"

definition hash_update :: "Update \<Rightarrow> u32 \<Rightarrow> u64 \<Rightarrow> (u32 \<Rightarrow> u64 option) \<Rightarrow> u32 \<Rightarrow> u64 option" where
  "hash_update u tid t h = (let h = h |` (- set (evicted u)) in if accepted u then h(tid \<mapsto> t) else h)"

definition enqueue_task :: "nat \<Rightarrow> u64 \<Rightarrow> Update \<Rightarrow> Task \<Rightarrow> Maps \<Rightarrow> Maps" where
  "enqueue_task cpu t u task m =
     (let tid = pid_of task in
      if tid = 0 then m
      else let m = m\<lparr>enqueued := hash_update u tid t (enqueued m)\<rparr>
           in if accepted u then m else count_event cpu 2 m)"

definition on_wakeup :: "nat \<Rightarrow> u64 \<Rightarrow> Update \<Rightarrow> Task \<Rightarrow> Maps \<Rightarrow> Maps" where
  "on_wakeup cpu t u task m = enqueue_task cpu t u task m"

definition on_new_task :: "nat \<Rightarrow> u64 \<Rightarrow> Update \<Rightarrow> Task \<Rightarrow> Maps \<Rightarrow> Maps" where
  "on_new_task cpu t u task m = enqueue_task cpu t u task m"

definition bucket_of :: "u64 \<Rightarrow> nat" where
  "bucket_of us = fold (\<lambda>b bucket. if drop_bit b us \<noteq> 0 then b else bucket) [1..<64] 0"

definition on_switch :: "nat \<Rightarrow> bool \<Rightarrow> Task \<Rightarrow> u64 \<Rightarrow> Update \<Rightarrow> Task \<Rightarrow> u64 \<Rightarrow> Maps \<Rightarrow> Maps" where
  "on_switch cpu preempt prev t1 u nxt t2 m =
     (let m = (if preempt \<or> state_of prev = 0 then enqueue_task cpu t1 u prev m else m);
          tid = pid_of nxt
      in if tid = 0 then m
         else case enqueued m tid of
           None \<Rightarrow> count_event cpu 1 m
         | Some start \<Rightarrow>
             let m = m\<lparr>enqueued := (enqueued m)(tid := None)\<rparr>
             in if t2 < start then count_event cpu 1 m
                else let us = (t2 - start) div 1000;
                         m = m\<lparr>histogram := add_one cpu (bucket_of us) (histogram m)\<rparr>
                     in count_event cpu 0 m)"

definition on_exit :: "Task \<Rightarrow> Maps \<Rightarrow> Maps" where
  "on_exit task m = m\<lparr>enqueued := (enqueued m)(pid_of task := None)\<rparr>"

text \<open>The tracepoints the program is attached to.\<close>

datatype Event =
    Wakeup nat u64 Update Task
  | New_task nat u64 Update Task
  | Switch nat bool Task u64 Update Task u64
  | Exit Task

fun on_event :: "Event \<Rightarrow> Maps \<Rightarrow> Maps" where
  "on_event (Wakeup cpu t u task) m = on_wakeup cpu t u task m"
| "on_event (New_task cpu t u task) m = on_new_task cpu t u task m"
| "on_event (Switch cpu preempt prev t1 u nxt t2) m = on_switch cpu preempt prev t1 u nxt t2 m"
| "on_event (Exit task) m = on_exit task m"

section \<open>The reader\<close>

definition ReadCounter :: "percpu_array \<Rightarrow> nat \<Rightarrow> u64 result" where
  "ReadCounter a key =
     (if key < length a then Inr (fold (\<lambda>n s. s + n) (a ! key) 0) else Inl (Runtime_error ''BPF map read failed''))"

definition DQ :: string where "DQ = [CHR 0x22]"

fun bucket_list :: "percpu_array \<Rightarrow> nat list \<Rightarrow> string result" where
  "bucket_list a [] = Inr []"
| "bucket_list a (b # bs) =
     rbind (ReadCounter a b) (\<lambda>n. rbind (bucket_list a bs) (\<lambda>s. Inr ((if b = 0 then [] else '','') @ show_nat (unat n) @ s)))"

text \<open>One line of the output, without the newline; \<open>ts\<close> is the wall clock in milliseconds.\<close>

definition histogram_line :: "u64 \<Rightarrow> Maps \<Rightarrow> string result" where
  "histogram_line ts m =
     rbind (ReadCounter (counters m) 0) (\<lambda>samples.
     rbind (ReadCounter (counters m) 1) (\<lambda>unmatched.
     rbind (ReadCounter (counters m) 2) (\<lambda>failures.
     rbind (bucket_list (histogram m) [0..<64]) (\<lambda>buckets.
       Inr (''{'' @ DQ @ ''type'' @ DQ @ '':'' @ DQ @ ''scheduler_histogram'' @ DQ @ '','' @ DQ @ ''scope'' @ DQ @ '':'' @ DQ @ ''system'' @ DQ @
            '','' @ DQ @ ''timestamp'' @ DQ @ '':'' @ show_int (sint ts) @
            '','' @ DQ @ ''samples'' @ DQ @ '':'' @ show_nat (unat samples) @
            '','' @ DQ @ ''unmatched_switches'' @ DQ @ '':'' @ show_nat (unat unmatched) @
            '','' @ DQ @ ''update_failures'' @ DQ @ '':'' @ show_nat (unat failures) @
            '','' @ DQ @ ''log2_us_buckets'' @ DQ @ '':['' @ buckets @ '']}'')))))"

text \<open>
  \<open>main\<close>. \<open>Libbpf\<close> holds what the library answers: error codes of opening, loading and attaching the programs, the
  descriptors of the two maps and the number of CPUs. A round of the loop has the signal flag, the clock and
  the maps at that time; the pause between rounds is not modelled. The result is the exit code (none while the
  loop goes on), what is written to the standard output and to the standard error. Reads of keys the maps have succeed.
\<close>

record Libbpf =
  open_error :: int
  load_error :: int
  attach_errors :: "int list"
  histogram_fd :: int
  counters_fd :: int
  possible_cpus :: int

definition sched_setup :: "Libbpf \<Rightarrow> unit result" where
  "sched_setup l =
     (if open_error l \<noteq> 0 then Inl (Runtime_error (''BPF object open failed: '' @ show_int (open_error l)))
      else if load_error l \<noteq> 0 then Inl (Runtime_error ''BPF load failed; check privileges, BTF and verifier log'')
      else case find (\<lambda>e. e \<noteq> 0) (attach_errors l) of
        Some e \<Rightarrow> Inl (Runtime_error (''BPF attach failed: '' @ show_int e))
      | None \<Rightarrow>
          if histogram_fd l < 0 \<or> counters_fd l < 0 \<or> possible_cpus l \<le> 0 then Inl (Runtime_error ''BPF maps/topology unavailable'')
          else Inr ())"

fun reader_loop :: "(bool \<times> u64 \<times> Maps) list \<Rightarrow> string \<Rightarrow> (int option \<times> string) result" where
  "reader_loop [] out = Inr (None, out)"
| "reader_loop ((stopped, ts, m) # rounds) out =
     (if stopped then Inr (Some 0, out)
      else rbind (histogram_line ts m) (\<lambda>l. reader_loop rounds (out @ l @ [CHR 0x0A])))"

fun what :: "exn \<Rightarrow> string" where
  "what (Length_error s) = s" | "what (Logic_error s) = s" | "what (Invalid_argument s) = s" | "what (Domain_error s) = s"
| "what (Runtime_error s) = s" | "what (System_error e s) = s"

definition sched_main :: "nat \<Rightarrow> Libbpf \<Rightarrow> (bool \<times> u64 \<times> Maps) list \<Rightarrow> int option \<times> string \<times> string" where
  "sched_main argc l rounds =
     (if argc \<noteq> 2 then (Some 1, [], ''Usage: web_htop_sched /path/to/runqlat.bpf.o'' @ [CHR 0x0A])
      else case rbind (sched_setup l) (\<lambda>_. reader_loop rounds []) of
        Inr (code, out) \<Rightarrow> (code, out, [])
      | Inl e \<Rightarrow> (Some 1, [], ''web_htop_sched: '' @ what e @ [CHR 0x0A]))"

section \<open>Specification\<close>

text \<open>
  What the numbers mean, on the sequence of events alone. \<open>waiting es tid\<close> is the time of the last enqueue
  of the task that still counts, \<open>es\<close> listed from the last event back. \<open>outcomes\<close> lists what became of every task that
  was switched in: its wait in microseconds, or nothing when it is not known.
\<close>

fun enqueues :: "Event \<Rightarrow> (u32 \<times> u64 \<times> Update) option" where
  "enqueues (Wakeup cpu t u task) = (if pid_of task = 0 then None else Some (pid_of task, t, u))"
| "enqueues (New_task cpu t u task) = (if pid_of task = 0 then None else Some (pid_of task, t, u))"
| "enqueues (Switch cpu preempt prev t1 u nxt t2) =
     (if pid_of prev \<noteq> 0 \<and> (preempt \<or> state_of prev = 0) then Some (pid_of prev, t1, u) else None)"
| "enqueues (Exit task) = None"

fun leaves :: "Event \<Rightarrow> u32 option" where
  "leaves (Switch cpu preempt prev t1 u nxt t2) = (if pid_of nxt = 0 then None else Some (pid_of nxt))"
| "leaves (Exit task) = Some (pid_of task)"
| "leaves _ = None"

definition after_enqueue :: "Event \<Rightarrow> u32 \<Rightarrow> u64 option \<Rightarrow> u64 option" where
  "after_enqueue e tid since = (case enqueues e of
      None \<Rightarrow> since
    | Some (tid', t, u) \<Rightarrow> if accepted u \<and> tid = tid' then Some t else if tid \<in> set (evicted u) then None else since)"

fun waiting :: "Event list \<Rightarrow> u32 \<Rightarrow> u64 option" where
  "waiting [] tid = None"
| "waiting (e # es) tid = (if leaves e = Some tid then None else after_enqueue e tid (waiting es tid))"

fun waited :: "Event list \<Rightarrow> Event \<Rightarrow> u64 option list" where
  "waited es (Switch cpu preempt prev t1 u nxt t2) =
     (if pid_of nxt = 0 then []
      else case after_enqueue (Switch cpu preempt prev t1 u nxt t2) (pid_of nxt) (waiting es (pid_of nxt)) of
        None \<Rightarrow> [None]
      | Some t \<Rightarrow> if t \<le> t2 then [Some ((t2 - t) div 1000)] else [None])"
| "waited es _ = []"

fun outcomes :: "Event list \<Rightarrow> u64 option list" where
  "outcomes [] = []"
| "outcomes (e # es) = outcomes es @ waited es e"

definition refused :: "Event list \<Rightarrow> Event list" where
  "refused es = filter (\<lambda>e. case enqueues e of None \<Rightarrow> False | Some (tid, t, u) \<Rightarrow> \<not> accepted u) es"

fun event_cpu :: "Event \<Rightarrow> nat option" where
  "event_cpu (Wakeup cpu t u task) = Some cpu"
| "event_cpu (New_task cpu t u task) = Some cpu"
| "event_cpu (Switch cpu preempt prev t1 u nxt t2) = Some cpu"
| "event_cpu (Exit task) = None"

definition on_cpu :: "nat \<Rightarrow> Event \<Rightarrow> bool" where
  "on_cpu cpus e = (case event_cpu e of None \<Rightarrow> True | Some cpu \<Rightarrow> cpu < cpus)"

text \<open>\<open>b\<close> is the bucket of a wait of \<open>us\<close> microseconds: the position of its highest bit, and 0 for no wait.\<close>

definition in_bucket :: "nat \<Rightarrow> u64 option \<Rightarrow> bool" where
  "in_bucket b w = (case w of None \<Rightarrow> False | Some us \<Rightarrow> (if b = 0 then 0 else 2 ^ b) \<le> unat us \<and> unat us < 2 ^ Suc b)"

definition histogram_document :: "u64 \<Rightarrow> Event list \<Rightarrow> JSONValue" where
  "histogram_document ts es =
     (let n = \<lambda>k. JUInt64 (of_nat k)
      in JObject [(''type'', JString ''scheduler_histogram''), (''scope'', JString ''system''), (''timestamp'', JInt64 ts),
        (''samples'', n (length (filter (\<lambda>w. w \<noteq> None) (outcomes es)))),
        (''unmatched_switches'', n (length (filter (\<lambda>w. w = None) (outcomes es)))),
        (''update_failures'', n (length (refused es))),
        (''log2_us_buckets'', JArray (map (\<lambda>b. n (length (filter (in_bucket b) (outcomes es)))) [0..<64]))])"

section \<open>Lemmas\<close>

lemma drop_bit_zero: "drop_bit n (us :: u64) = 0 \<longleftrightarrow> unat us < 2 ^ n"
proof -
  have "drop_bit n us = 0 \<longleftrightarrow> unat us div 2 ^ n = 0"
    unfolding unat_eq_0 [symmetric] unat_drop_bit_eq by (simp only: drop_bit_eq_div)
  then show ?thesis by (simp only: div_eq_0_iff) simp
qed

definition highest :: "u64 \<Rightarrow> nat \<Rightarrow> nat \<Rightarrow> bool" where
  "highest us k b \<longleftrightarrow> b \<le> k \<and> (if b = 0 then 0 else 2 ^ b) \<le> unat us \<and> (\<forall>j. b < j \<and> j \<le> k \<longrightarrow> unat us < 2 ^ j)"

lemma highest_new: "2 ^ Suc k \<le> unat us \<Longrightarrow> highest us (Suc k) (Suc k)"
  by (simp add: highest_def)

lemma highest_old: "unat us < 2 ^ Suc k \<Longrightarrow> highest us k b \<Longrightarrow> highest us (Suc k) b"
  unfolding highest_def by (metis le_Suc_eq le_SucI)

lemma fold_last: "fold f [1..<Suc (Suc k)] a = f (Suc k) (fold f [1..<Suc k] a)"
  by simp

lemma bucket_upto: "highest us k (fold (\<lambda>b bucket. if drop_bit b us \<noteq> 0 then b else bucket) [1..<Suc k] 0)"
proof (induction k)
  case (Suc k)
  show ?case
  proof (cases "drop_bit (Suc k) us = 0")
    case True
    then have "unat us < 2 ^ Suc k" by (simp only: drop_bit_zero)
    from highest_old [OF this Suc.IH] show ?thesis by (subst fold_last) (simp only: True simp_thms if_False)
  next
    case False
    then have "2 ^ Suc k \<le> unat us" by (simp only: drop_bit_zero not_less)
    from highest_new [OF this] False show ?thesis by (subst fold_last) (simp only: simp_thms if_True)
  qed
qed (simp add: highest_def)

lemma bucket_of_range: "bucket_of us < 64" and bucket_of_exact: "b < 64 \<Longrightarrow> in_bucket b (Some us) \<longleftrightarrow> b = bucket_of us"
proof -
  have "Suc 63 = 64" by simp
  then have b: "highest us 63 (bucket_of us)" using bucket_upto [of us 63] unfolding bucket_of_def by (simp only:)
  have r: "bucket_of us \<le> 63" "(if bucket_of us = 0 then 0 else 2 ^ bucket_of us) \<le> unat us"
    "\<forall>j. bucket_of us < j \<and> j \<le> 63 \<longrightarrow> unat us < 2 ^ j"
    using b by (simp_all add: highest_def)
  then show "bucket_of us < 64" by simp
  show "in_bucket b (Some us) \<longleftrightarrow> b = bucket_of us" if "b < 64"
  proof
    assume b: "in_bucket b (Some us)"
    have "\<not> b < bucket_of us"
      using power_increasing [of "Suc b" "bucket_of us" "2 :: nat"] b r(2) by (auto simp: in_bucket_def)
    moreover have "\<not> bucket_of us < b" using b r(3) \<open>b < 64\<close> by (auto simp: in_bucket_def dest: spec [of _ b])
    ultimately show "b = bucket_of us" by simp
  next
    assume "b = bucket_of us"
    moreover have "unat us < 2 ^ Suc (bucket_of us)"
      using r(1,3) unsigned_less [of us] by (cases "bucket_of us = 63") auto
    ultimately show "in_bucket b (Some us)" using r(2) by (simp add: in_bucket_def)
  qed
qed

definition ok_array :: "nat \<Rightarrow> nat \<Rightarrow> percpu_array \<Rightarrow> bool" where
  "ok_array n cpus a \<longleftrightarrow> length a = n \<and> list_all (\<lambda>row. length row = cpus) a"

lemma sum_list_increment: "i < length xs \<Longrightarrow> sum_list (xs[i := xs ! i + 1]) = sum_list xs + (1 :: u64)"
  by (induction xs arbitrary: i) (auto simp: nth_Cons algebra_simps split: nat.splits)

lemma ok_add_one [simp]: "ok_array n cpus a \<Longrightarrow> ok_array n cpus (add_one cpu key a)"
  by (auto simp: ok_array_def add_one_def list_all_length nth_list_update)

lemma sum_add_one [simp]:
  "ok_array n cpus a \<Longrightarrow> cpu < cpus \<Longrightarrow> j < n \<Longrightarrow> sum_list (add_one cpu key a ! j) = sum_list (a ! j) + of_bool (j = key)"
  by (auto simp: ok_array_def add_one_def list_all_length nth_list_update sum_list_increment)

lemma ReadCounter_sum: "key < length a \<Longrightarrow> ReadCounter a key = Inr (sum_list (a ! key))"
proof -
  have "fold (\<lambda>n s. s + n) xs s = s + sum_list xs" for xs and s :: u64 by (induction xs arbitrary: s) (simp_all add: add.assoc)
  then show "key < length a \<Longrightarrow> ?thesis" by (simp add: ReadCounter_def)
qed

text \<open>What the counter with a given index counts, and that the maps hold what the events say.\<close>

definition tally :: "nat \<Rightarrow> Event list \<Rightarrow> nat" where
  "tally k es = (if k = 0 then length (filter (\<lambda>w. w \<noteq> None) (outcomes es))
                 else if k = 1 then length (filter (\<lambda>w. w = None) (outcomes es)) else length (refused es))"

definition counts :: "nat \<Rightarrow> Event list \<Rightarrow> Maps \<Rightarrow> bool" where
  "counts cpus es m \<longleftrightarrow> enqueued m = waiting es \<and> ok_array 3 cpus (counters m) \<and> ok_array 64 cpus (histogram m) \<and>
     (\<forall>k < 3. sum_list (counters m ! k) = of_nat (tally k es)) \<and>
     (\<forall>b < 64. sum_list (histogram m ! b) = of_nat (length (filter (in_bucket b) (outcomes es))))"

lemma counts_empty: "counts cpus [] (empty_maps cpus)"
proof -
  have "sum_list (replicate cpus 0) = (0 :: u64)" by (induction cpus) simp_all
  then show ?thesis
    by (simp add: counts_def empty_maps_def ok_array_def tally_def refused_def fun_eq_iff list_all_length)
qed

lemma none_bucket [simp]: "in_bucket b None = False"
  by (simp add: in_bucket_def)

definition refusal :: "Event \<Rightarrow> bool" where
  "refusal e = (case enqueues e of None \<Rightarrow> False | Some (tid, t, u) \<Rightarrow> \<not> accepted u)"

lemma tally_Cons: "tally k (e # es) = tally k es +
    (if k = 0 then length (filter (\<lambda>w. w \<noteq> None) (waited es e))
     else if k = 1 then length (filter (\<lambda>w. w = None) (waited es e)) else of_bool (refusal e))"
  by (simp add: tally_def refused_def refusal_def)

text \<open>The state after the enqueueing part of an event, before the task that is switched in is looked up.\<close>

definition halfway :: "nat \<Rightarrow> Event list \<Rightarrow> Event \<Rightarrow> Maps \<Rightarrow> bool" where
  "halfway cpus es e m \<longleftrightarrow> enqueued m = (\<lambda>tid. after_enqueue e tid (waiting es tid)) \<and>
     ok_array 3 cpus (counters m) \<and> ok_array 64 cpus (histogram m) \<and>
     (\<forall>k < 3. sum_list (counters m ! k) = of_nat (tally k es + of_bool (k = 2 \<and> refusal e))) \<and>
     (\<forall>b < 64. sum_list (histogram m ! b) = of_nat (length (filter (in_bucket b) (outcomes es))))"

lemma enqueue_halfway:
  assumes "counts cpus es m" "cpu < cpus" "enqueues e = (if pid_of task = 0 then None else Some (pid_of task, t, u))"
  shows "halfway cpus es e (enqueue_task cpu t u task m)"
proof (cases "pid_of task = 0")
  case True
  then show ?thesis using assms by (simp add: counts_def halfway_def enqueue_task_def after_enqueue_def refusal_def fun_eq_iff)
next
  case False
  have "hash_update u (pid_of task) t (waiting es) = (\<lambda>tid. after_enqueue e tid (waiting es tid))"
    using False assms(3) by (auto simp: hash_update_def after_enqueue_def Let_def restrict_map_def fun_eq_iff)
  moreover have "refusal e \<longleftrightarrow> \<not> accepted u" using False assms(3) by (simp add: refusal_def)
  ultimately show ?thesis
    using False assms(1,2) by (auto simp: counts_def halfway_def enqueue_task_def count_event_def Let_def)
qed

lemma idle_halfway: "counts cpus es m \<Longrightarrow> enqueues e = None \<Longrightarrow> halfway cpus es e m"
  by (simp add: counts_def halfway_def after_enqueue_def refusal_def fun_eq_iff)

lemma halfway_done:
  "halfway cpus es e m \<Longrightarrow> leaves e = None \<Longrightarrow> waited es e = [] \<Longrightarrow> counts cpus (e # es) m"
  by (auto simp: counts_def halfway_def tally_Cons fun_eq_iff)

lemma waiting_leaves: "leaves e = Some tid \<Longrightarrow> (\<lambda>i. after_enqueue e i (waiting es i))(tid := None) = waiting (e # es)"
  by (simp add: fun_eq_iff)

lemma halfway_unmatched:
  assumes "halfway cpus es e m" "leaves e = Some tid" "cpu < cpus" "waited es e = [None]"
  shows "counts cpus (e # es) (count_event cpu 1 (m\<lparr>enqueued := (enqueued m)(tid := None)\<rparr>))"
proof -
  have "of_bool (k = 1) = of_nat (if k = 0 then 0 else if k = 1 then 1 else 0 :: nat)" for k :: nat by simp
  then show ?thesis
    using assms waiting_leaves [OF assms(2), of es]
    by (auto simp: counts_def halfway_def count_event_def tally_Cons)
qed

lemma halfway_measured:
  assumes "halfway cpus es e m" "leaves e = Some tid" "cpu < cpus" "waited es e = [Some us]"
  shows "counts cpus (e # es)
    (count_event cpu 0 (m\<lparr>enqueued := (enqueued m)(tid := None), histogram := add_one cpu (bucket_of us) (histogram m)\<rparr>))"
  using assms waiting_leaves [OF assms(2), of es] bucket_of_exact [of _ us]
  by (auto simp: counts_def halfway_def count_event_def tally_Cons)

lemma counts_switch:
  assumes "counts cpus es m" "cpu < cpus" "e = Switch cpu preempt prev t1 u nxt t2"
  shows "counts cpus (e # es) (on_switch cpu preempt prev t1 u nxt t2 m)"
proof -
  define m1 where "m1 = (if preempt \<or> state_of prev = 0 then enqueue_task cpu t1 u prev m else m)"
  have m1: "halfway cpus es e m1"
    using enqueue_halfway [OF assms(1,2)] idle_halfway [OF assms(1)] assms(3) by (auto simp: m1_def)
  show ?thesis
  proof (cases "pid_of nxt = 0")
    case True
    then show ?thesis using halfway_done [OF m1] assms(3) by (simp add: on_switch_def m1_def [symmetric])
  next
    case False
    then have l: "leaves e = Some (pid_of nxt)" using assms(3) by simp
    have since: "enqueued m1 (pid_of nxt) = after_enqueue e (pid_of nxt) (waiting es (pid_of nxt))" using m1 by (simp add: halfway_def)
    show ?thesis
    proof (cases "enqueued m1 (pid_of nxt)")
      case None
      then have "m1\<lparr>enqueued := (enqueued m1)(pid_of nxt := None)\<rparr> = m1" by (simp add: fun_upd_idem)
      then show ?thesis
        using halfway_unmatched [OF m1 l assms(2)] None since False assms(3) by (simp add: on_switch_def m1_def [symmetric])
    next
      case (Some t)
      then show ?thesis
        using halfway_unmatched [OF m1 l assms(2)] halfway_measured [OF m1 l assms(2)] since False assms(3)
        by (simp add: on_switch_def m1_def [symmetric] Let_def not_less [symmetric])
    qed
  qed
qed

lemma counts_step: "counts cpus es m \<Longrightarrow> on_cpu cpus e \<Longrightarrow> counts cpus (e # es) (on_event e m)"
proof (cases e)
  case (Wakeup cpu t u task)
  then show "counts cpus es m \<Longrightarrow> on_cpu cpus e \<Longrightarrow> ?thesis"
    by (auto simp: on_cpu_def on_wakeup_def intro!: halfway_done enqueue_halfway)
next
  case (New_task cpu t u task)
  then show "counts cpus es m \<Longrightarrow> on_cpu cpus e \<Longrightarrow> ?thesis"
    by (auto simp: on_cpu_def on_new_task_def intro!: halfway_done enqueue_halfway)
next
  case (Switch cpu preempt prev t1 u nxt t2)
  then show "counts cpus es m \<Longrightarrow> on_cpu cpus e \<Longrightarrow> ?thesis"
    using counts_switch by (simp add: on_cpu_def)
next
  case (Exit task)
  then show "counts cpus es m \<Longrightarrow> on_cpu cpus e \<Longrightarrow> ?thesis"
    by (simp add: counts_def on_exit_def tally_Cons refusal_def) (auto simp: fun_eq_iff after_enqueue_def)
qed

lemma counts_run: "list_all (on_cpu cpus) es \<Longrightarrow> counts cpus (rev es) (fold on_event es (empty_maps cpus))"
  by (induction es rule: rev_induct) (simp_all add: counts_empty counts_step)

lemma rbind_assoc: "rbind (rbind r f) g = rbind r (\<lambda>x. rbind (f x) g)"
  by (cases r) simp_all

lemma bucket_list_items:
  "\<forall>b \<in> set bs. 0 < b \<and> b < length a \<Longrightarrow>
     bucket_list a bs = rbind (serialize_items (- 1) l (map (\<lambda>b. JUInt64 (sum_list (a ! b))) bs)) (\<lambda>s. Inr ((if bs = [] then [] else '','') @ s))"
  by (induction bs) (auto simp: ReadCounter_sum AppendIndent_def rbind_assoc)

lemma bucket_list_array:
  assumes "length a = 64"
  shows "rbind (bucket_list a [0..<64]) (\<lambda>s. Inr (''['' @ s @ '']'')) = SerializeTo (- 1) l (JArray (map (\<lambda>b. JUInt64 (sum_list (a ! b))) [0..<64]))"
proof -
  have "bucket_list a [1..<64] = rbind (serialize_items (- 1) l (map (\<lambda>b. JUInt64 (sum_list (a ! b))) [1..<64])) (\<lambda>s. Inr ('','' @ s))"
    using assms bucket_list_items [of "[1..<64]" a l] by simp
  moreover have "[0..<64] = 0 # [1..<64]" using upt_conv_Cons [of 0 64] by simp
  ultimately show ?thesis using assms
    by (simp del: upt_rec_numeral add: ReadCounter_sum AppendIndent_def rbind_assoc)
qed

lemma length_show_u64: "length (show_nat (unat (n :: u64))) \<le> 20"
  using length_show_nat_u64 [of "unat n"] unsigned_less [of n, where ?'a = nat] by simp

lemma length_bucket_list: "bucket_list a bs = Inr s \<Longrightarrow> length s \<le> 21 * length bs"
proof (induction bs arbitrary: s)
  case (Cons b bs)
  obtain n :: u64 and r where r: "bucket_list a bs = Inr r" "s = (if b = 0 then [] else '','') @ show_nat (unat n) @ r"
    using Cons.prems unfolding bucket_list.simps rbind_Inr by blast
  with Cons.IH [OF r(1)] length_show_u64 [of n] show ?case by simp
qed simp

definition line_document :: "u64 \<Rightarrow> Maps \<Rightarrow> JSONValue" where
  "line_document ts m =
     (let n = \<lambda>k. JUInt64 (sum_list (counters m ! k))
      in JObject [(''type'', JString ''scheduler_histogram''), (''scope'', JString ''system''), (''timestamp'', JInt64 ts),
        (''samples'', n 0), (''unmatched_switches'', n 1), (''update_failures'', n 2),
        (''log2_us_buckets'', JArray (map (\<lambda>b. JUInt64 (sum_list (histogram m ! b))) [0..<64]))])"

lemma escaped_keys:
  "AppendEscapedString ''type'' = DQ @ ''type'' @ DQ" "AppendEscapedString ''scope'' = DQ @ ''scope'' @ DQ"
  "AppendEscapedString ''timestamp'' = DQ @ ''timestamp'' @ DQ" "AppendEscapedString ''samples'' = DQ @ ''samples'' @ DQ"
  "AppendEscapedString ''unmatched_switches'' = DQ @ ''unmatched_switches'' @ DQ"
  "AppendEscapedString ''update_failures'' = DQ @ ''update_failures'' @ DQ"
  "AppendEscapedString ''log2_us_buckets'' = DQ @ ''log2_us_buckets'' @ DQ"
  "AppendEscapedString ''scheduler_histogram'' = DQ @ ''scheduler_histogram'' @ DQ" "AppendEscapedString ''system'' = DQ @ ''system'' @ DQ"
  by code_simp+

lemma line_serialized:
  assumes "length (counters m) = 3" "length (histogram m) = 64"
  shows "\<exists>out. histogram_line ts m = Inr out \<and> ToString (line_document ts m) (- 1) = Inr out \<and> length out \<le> 2000"
proof -
  have "\<exists>s. bucket_list (histogram m) bs = Inr s" if "\<forall>b \<in> set bs. b < 64" for bs
    using that assms(2) by (induction bs) (auto simp: ReadCounter_sum)
  then obtain s where s: "bucket_list (histogram m) [0..<64] = Inr s" by fastforce
  have arr: "SerializeTo (- 1) 1 (JArray (map (\<lambda>b. JUInt64 (sum_list (histogram m ! b))) [0..<64])) = Inr (''['' @ s @ '']'')"
    using bucket_list_array [OF assms(2), of 1] s by simp
  have "length (show_int (sint ts)) \<le> 21" using length_leaf [of "JInt64 ts" 0] by simp
  moreover have "length s \<le> 1344" using length_bucket_list [OF s] by simp
  ultimately show ?thesis
    using assms(1) s arr length_show_u64 [of "sum_list (counters m ! 0)"] length_show_u64 [of "sum_list (counters m ! 1)"]
      length_show_u64 [of "sum_list (counters m ! 2)"] DQ_def [THEN arg_cong, of length]
    by (simp add: histogram_line_def line_document_def ToString_def Let_def ReadCounter_sum escaped_keys AppendIndent_def del: upt_rec_numeral SerializeTo.simps(7))
qed

lemma counts_document: "counts cpus es m \<Longrightarrow> line_document ts m = histogram_document ts es"
  by (simp del: upt_rec_numeral add: counts_def line_document_def histogram_document_def tally_def)

lemma document_printable:
  "wf_doubles (histogram_document ts es)" "printable (histogram_document ts es)"
  "json_depth (histogram_document ts es) \<le> 64" "json_nodes (histogram_document ts es) \<le> 1000000"
proof -
  have d: "foldr (\<lambda>v. max (json_depth v)) (map (\<lambda>b. JUInt64 (f b)) bs) 0 \<le> 1" for f and bs :: "nat list"
    by (induction bs) simp_all
  have n: "sum_list (map json_nodes (map (\<lambda>b. JUInt64 (f b)) bs)) = length bs" for f and bs :: "nat list"
    by (induction bs) simp_all
  show "wf_doubles (histogram_document ts es)"
    by (simp add: histogram_document_def list_all_iff del: upt_rec_numeral)
  show "json_depth (histogram_document ts es) \<le> 64"
    using d [of "\<lambda>b. of_nat (length (filter (in_bucket b) (outcomes es)))" "[0..<64]"]
    by (simp add: histogram_document_def Let_def del: upt_rec_numeral)
  show "json_nodes (histogram_document ts es) \<le> 1000000"
    using n [of "\<lambda>b. of_nat (length (filter (in_bucket b) (outcomes es)))" "[0..<64]"]
    by (simp add: histogram_document_def Let_def del: upt_rec_numeral map_map)
  have "distinct (map repair [''type'', ''scope'', ''timestamp'', ''samples'', ''unmatched_switches'', ''update_failures'', ''log2_us_buckets''])"
    by code_simp
  then show "printable (histogram_document ts es)"
    by (simp add: histogram_document_def list_all_iff del: upt_rec_numeral)
qed

text \<open>
  The reader prints one line for every round up to the signal and then ends with code 0; each line is a document on
  its own, as the maps of every run have their full size.
\<close>

definition full_maps :: "Maps \<Rightarrow> bool" where
  "full_maps m \<longleftrightarrow> length (counters m) = 3 \<and> length (histogram m) = 64"

lemma counts_full: "counts cpus es m \<Longrightarrow> full_maps m"
  by (simp add: counts_def ok_array_def full_maps_def)

lemma reader_loop_lines:
  assumes "list_all (\<lambda>(stopped, ts, m). \<not> stopped \<and> full_maps m) rounds"
  shows "reader_loop (rounds @ (True, ts', m') # more_rounds) out =
    Inr (Some 0, out @ concat (map (\<lambda>(_, ts, m). projr (histogram_line ts m) @ [CHR 0x0A]) rounds))"
  using assms
proof (induction rounds arbitrary: out)
  case (Cons r rounds)
  obtain ts m where r: "r = (False, ts, m)" "full_maps m" using Cons.prems by (cases r) auto
  then obtain l where "histogram_line ts m = Inr l" using line_serialized [of m ts] by (auto simp: full_maps_def)
  with Cons r show ?case by simp
qed simp

lemma sched_main_runs:
  assumes "sched_setup l = Inr ()" "list_all (\<lambda>(stopped, ts, m). \<not> stopped \<and> full_maps m) rounds"
  shows "sched_main 2 l (rounds @ (True, ts', m') # more_rounds) =
    (Some 0, concat (map (\<lambda>(_, ts, m). projr (histogram_line ts m) @ [CHR 0x0A]) rounds), [])"
  using reader_loop_lines [OF assms(2)] assms(1) by (simp add: sched_main_def)

section \<open>Property\<close>



end
