(* ===== verification/Terminal_Mode.thy ===== *)
theory Terminal_Mode
  imports Canvas
begin

text \<open>
  The terminal around the client, the constructor and the destructor of \<^verbatim>\<open>TerminalUi\<close> in \<^verbatim>\<open>client/ui/terminal_ui.cpp\<close>: raw mode
  without echo on the alternate screen, and back. The terminal is its attributes, of which the code changes four, and
  what was written to it; \<open>tty_get_ok\<close> and \<open>tty_set_ok\<close> are the answers of \<^verbatim>\<open>tcgetattr\<close> and \<^verbatim>\<open>tcsetattr\<close>.
\<close>

record Termios =
  icanon :: bool
  echo :: bool
  vmin :: nat
  vtime :: nat
  other_modes :: nat

record Tty =
  tty_stdin :: bool
  tty_stdout :: bool
  tty_get_ok :: bool
  tty_set_ok :: bool
  tty_mode :: Termios
  tty_written :: string

record TerminalUi =
  ui_interactive :: bool
  ui_saved :: Termios

definition no_termios :: Termios where
  "no_termios = \<lparr>icanon = False, echo = False, vmin = 0, vtime = 0, other_modes = 0\<rparr>"

definition enter_codes :: string where
  "enter_codes = ESC @ ''[?1049h'' @ ESC @ ''[?25l'' @ ESC @ ''[2J''"

definition leave_codes :: string where
  "leave_codes = ESC @ ''[0m'' @ ESC @ ''[?25h'' @ ESC @ ''[?1049l''"

definition new_ui :: "Tty \<Rightarrow> TerminalUi result \<times> Tty" where
  "new_ui t =
     (if \<not> (tty_stdin t \<and> tty_stdout t) then (Inr \<lparr>ui_interactive = False, ui_saved = no_termios\<rparr>, t)
      else if \<not> tty_get_ok t then (Inl (Runtime_error ''tcgetattr failed''), t)
      else
        let saved = tty_mode t; raw = saved\<lparr>icanon := False, echo := False, vmin := 0, vtime := 0\<rparr>
        in if \<not> tty_set_ok t then (Inl (Runtime_error ''tcsetattr failed''), t)
           else (Inr \<lparr>ui_interactive = True, ui_saved = saved\<rparr>, t\<lparr>tty_mode := raw, tty_written := tty_written t @ enter_codes\<rparr>))"

definition close_ui :: "TerminalUi \<Rightarrow> Tty \<Rightarrow> Tty" where
  "close_ui ui t =
     (if ui_interactive ui
      then t\<lparr>tty_mode := (if tty_set_ok t then ui_saved ui else tty_mode t), tty_written := tty_written t @ leave_codes\<rparr>
      else t)"

text \<open>
  Whatever was drawn in between, the terminal is left with the attributes it had; a failed construction and a session that is not
  interactive do not touch it; and every escape that changes the screen is undone.
\<close>

lemma terminal_restored:
  assumes "new_ui t = (u, t1)" "tty_set_ok t2" "tty_mode t2 = tty_mode t1" "tty_written t2 = tty_written t1 @ drawn"
  shows "case u of
      Inl e \<Rightarrow> t1 = t
    | Inr ui \<Rightarrow> tty_mode (close_ui ui t2) = tty_mode t \<and>
        tty_written (close_ui ui t2) = tty_written t @ (if ui_interactive ui then enter_codes @ drawn @ leave_codes else drawn)"
  using assms by (auto simp: new_ui_def close_ui_def Let_def split: if_splits)

lemma raw_mode: "new_ui t = (Inr ui, t1) \<Longrightarrow> ui_interactive ui \<Longrightarrow>
    \<not> icanon (tty_mode t1) \<and> \<not> echo (tty_mode t1) \<and> vmin (tty_mode t1) = 0 \<and> other_modes (tty_mode t1) = other_modes (tty_mode t)"
  by (auto simp: new_ui_def Let_def split: if_splits)

end
