(* ===== verification/Spec2Isabelle.thy ===== *)
theory Spec2Isabelle
  imports Output_Queue Framing Json_Roundtrip Json_Accepted Http_Request Server_Config Protocol Shared_State Reactor_Run Server_App Unique_Fd
    Stream_Client Http_Probe Render_Safe Client_App Probe_Server Client_View End_To_End Server_Start Scheduler Terminal_Mode
begin

text \<open>
  \<^bold>\<open>A verification library for web_htop\<close>

  web_htop is a telemetry server and a terminal client in C++20. The server samples \<^verbatim>\<open>/proc\<close>, \<^verbatim>\<open>/sys\<close> and a control group
  once per interval (thread \<^emph>\<open>worker\<close>), encodes the snapshot as JSON, puts a length prefix before it and publishes the
  result through an atomic pointer. A second thread (the \<^emph>\<open>reactor\<close>) owns all sockets: it sends every published frame to the stream
  sessions, answers HTTP requests for health, metrics and diagnostics, and enforces deadlines and limits. The client
  connects to the stream port, cuts the bytes into frames, decodes and validates every snapshot, drops what it has
  already seen, draws it, prints it or records it, and can replay a recording; beside that it probes the HTTP port for the diagnostics
  of the server. A separate tracing tool measures scheduler latency with eBPF.

  \<^bold>\<open>Conventions.\<close> Strings are lists of \<open>char\<close> and a \<open>char\<close> is a byte. Counters are words of their C++ width, sizes are
  natural numbers, time points are integers in nanoseconds. A C++ exception is a value of \<open>exn\<close> and an operation that may throw
  returns \<open>exn + 'a\<close>. A \<^verbatim>\<open>double\<close> is an IEEE-754 binary64 number: a sign and a rational that is representable, an infinity or a
  NaN; arithmetic rounds to nearest, ties to even. Whatever the outside answers (system calls, files, clocks, random
  numbers, the iteration order of an \<^verbatim>\<open>unordered_map\<close>, keys) is an argument of the operation, so that the theorems hold for every
  answer. \<open>std::bad_alloc\<close> and the ownership of heap objects are not modelled.

  \<^bold>\<open>Theories and what they model\<close> (paths under \<^verbatim>\<open>src/\<close>)

  \<^item> \<open>WH_Prelude\<close>: types, errors and lemmas that all parts share. \<open>IEEE_Double\<close>, \<open>Double_Facts\<close>, \<open>Charconv\<close>, \<open>Text_Scan\<close>,
    \<open>Text_Stream\<close>: what the code uses of the C++ language and library: doubles, \<^verbatim>\<open>to_chars\<close> and \<^verbatim>\<open>from_chars\<close>, \<^verbatim>\<open>string_view\<close> searches,
    extraction from an \<^verbatim>\<open>istringstream\<close>.
  \<^item> \<open>Output_Queue\<close> (\<^verbatim>\<open>server/transport/output_queue.hpp\<close>): \<open>Push\<close>, \<open>Front\<close>, \<open>Consume\<close> of the latest-wins queue. The locale \<open>byte_queue\<close>
    is the contract the reactor relies on; C1 shows that frames never mix on the wire.
  \<^item> \<open>Framing\<close> (\<^verbatim>\<open>common/protocol.hpp\<close>, \<^verbatim>\<open>protocol.cpp\<close>): \<open>Frame\<close> and the incremental \<open>Feed\<close>, against the
    byte-at-a-time reference \<open>bytewise\<close>; the locale \<open>stream_codec\<close> is what a receiver needs of a framing. C2, C3.
  \<^item> \<open>Utf8\<close>, \<open>Json_Value\<close>, \<open>Json_Parser\<close> (\<^verbatim>\<open>common/utf8.hpp\<close>, \<^verbatim>\<open>common/json/\<close>): values, accessors, serializer and the bounded
    parser. \<open>Json_Roundtrip\<close>: printing and parsing (C5); \<open>Json_Accepted\<close>: what every accepted document satisfies (C6); \<open>Json_Text\<close>: compact
    text is one line and of bounded length. C4 is the exactness of the UTF-8 check.
  \<^item> \<open>Models\<close>, \<open>Model_Codec\<close>, \<open>Protocol\<close>, \<open>Reencode\<close>, \<open>Snapshot_Repair\<close> (\<^verbatim>\<open>common/models/\<close>, \<^verbatim>\<open>common/telemetry.hpp\<close>,
    \<^verbatim>\<open>common/src/protocol.cpp\<close>): the snapshot records, their JSON members, \<open>Encode\<close>, \<open>Decode\<close> and its validation. C9, C10; a decoded snapshot can
    always be encoded again; a snapshot with texts that are not UTF-8 arrives as \<open>repair_snapshot\<close> of itself.
  \<^item> \<open>Linux_Samples\<close>, \<open>Linux_Source\<close>, \<open>Metrics_Collector\<close>, \<open>Collector_Status\<close>, \<open>Collector_Valid\<close> (\<^verbatim>\<open>server/collectors/\<close>, \<^verbatim>\<open>server/system/\<close>):
    the parsers of the kernel's files, reading files and directories, the nine collectors and \<open>Collect\<close>. The locale
    \<open>collector_action\<close> is the contract of one collector, with one interpretation per collector. C19, C20, C22 to C25.
  \<^item> \<open>Server_Config\<close>, \<open>Shared_State\<close>, \<open>Server_App\<close> (\<^verbatim>\<open>server/config/\<close>, \<^verbatim>\<open>server/state/\<close>, \<^verbatim>\<open>server/app/\<close>): configuration (C8), publication,
    and the worker with its schedule (C27, C28). \<open>Unique_Fd\<close> (\<^verbatim>\<open>common/unique_fd.hpp\<close>): ownership of descriptors (C26).
  \<^item> \<open>Http_Request\<close> (\<^verbatim>\<open>server/http/\<close>): the request parser against a grammar (C7), and the response printer.
  \<^item> \<open>Reactor\<close> (\<^verbatim>\<open>server/transport/reactor.cpp\<close>): sessions, accept, read, write, broadcast, sweep, routing and one round of the event
    loop. \<open>Reactor_Inv\<close> has the invariant and its preservation by every handler, \<open>Reactor_Run\<close> the properties of all runs
    (C11 to C18): no exception, bounds, whole frames in order, one response per request, agreement with the epoll set, deadlines, progress.
  \<^item> \<open>Server_Run\<close>, \<open>Server_Start\<close>: \<^verbatim>\<open>Reactor::Run\<close> with the worker beside it, and the life of the process: \<^verbatim>\<open>Listen\<close>, the constructor of
    the reactor, \<^verbatim>\<open>ServerApp::Run\<close> and \<^verbatim>\<open>main\<close> (C33). \<open>Sample_Run\<close> is a concrete run that the witnesses use.
  \<^item> \<open>Stream_Connection\<close>, \<open>Stream_Client\<close>, \<open>Http_Probe\<close> (\<^verbatim>\<open>client/net/\<close>): the connection state machine with back-off and deadlines, its refinement of a
    one-pass specification (C29), safety and recovery (C30 to C32), and the probe. \<open>Probe_Server\<close>: the probe against the server (C36).
  \<^item> \<open>Canvas\<close>, \<open>Render\<close>, \<open>Render_Safe\<close>, \<open>Terminal_Mode\<close> (\<^verbatim>\<open>client/ui/\<close>): the screen, every page, and the terminal attributes, which are restored. The locale \<open>drawing_surface\<close> collects what all drawing
    preserves. C34, C35.
  \<^item> \<open>Client_Options\<close>, \<open>Client_App\<close>, \<open>Client_Run\<close>, \<open>Client_View\<close> (\<^verbatim>\<open>client/main.cpp\<close>, \<^verbatim>\<open>client/app/\<close>): the command line (\<open>client_options_exact\<close>), the
    receiver, the keys, the loop and the replay. C37 to C39. \<open>End_To_End\<close>: from the worker through the reactor and the wire to the client (C40).
  \<^item> \<open>Scheduler\<close> (\<^verbatim>\<open>tools/scheduler/\<close>): the tracing program on its maps and the reader (C21).

  \<^bold>\<open>Loops and fuel.\<close> Loops over data are structural recursion or \<open>function\<close>s with a termination proof. Loops that wait for the
  outside run over the list of its answers; when the list is used up the descriptor would block and the loop is left as the code leaves it.
  Only the loop over a receive buffer (\<open>feed_all\<close>, \<open>feed_buffer\<close>) has fuel: every pass consumes at least one byte, so one more
  than the length of the buffer is enough, and C2, C29 and C39 prove that it never runs out.

  \<^bold>\<open>Limits of the statements.\<close> C19 and C24 assume counters below \<open>2 ^ 46\<close>, where the percentage is rounded correctly; above
  that 100.0 * used / total may exceed 100 and the client rejects the snapshot. C9 and C38 exclude doubles that print as an integer of
  more than 64 bits, which the parser refuses. C40 states both as conditions on the published snapshots.

  \<^bold>\<open>Not modelled.\<close> Memory ordering and the atomicity of the shared pointer (a load returns a published generation); the
  content of \<^verbatim>\<open>errno\<close> in most error messages; signal handlers of the client other than by the flag they set; the kernel's maps, scheduler and network beyond the answers they give; the tests.
\<close>

end
